(* ===== verification/Prelude.thy ===== *)
theory Prelude
  imports Main "HOL-Library.AList" "HOL-Library.Word" "HOL-Library.Multiset"
begin

text \<open>
  Shared vocabulary of the development: the Go types the model uses (byte slices, maps,
  instants), the string functions of the Go standard library the program calls
  (\<open>strings.Split\<close>, \<open>strings.TrimSpace\<close>, \<open>strings.TrimRight\<close>, decimal and hexadecimal
  conversion), and the generic lemmas on lists and association lists the components share.

  A Go string is a sequence of bytes; it is a \<^typ>\<open>string\<close> here, whose characters are the 256
  byte values. A byte slice on the wire is a list of \<open>8 word\<close>. A Go map is an association
  list: its order is the (arbitrary) order in which \<open>range\<close> visits it, its keys are distinct.
\<close>

named_theorems op_simps \<open>equations of the components' record operations\<close>
named_theorems inv_intros \<open>preservation of the components' invariants\<close>

type_synonym byte = "8 word"
type_synonym bytes = "byte list"

lemma unat_byte_less [simp]: "unat (b :: byte) < 256"
  using unsigned_less [of b, where ?'a = nat] by simp

section \<open>Go maps\<close>

type_synonym 'v gomap = "(string \<times> 'v) list"

abbreviation lookup :: "('k \<times> 'v) list \<Rightarrow> 'k \<Rightarrow> 'v option" where
  "lookup \<equiv> map_of"

abbreviation put :: "'k \<Rightarrow> 'v \<Rightarrow> ('k \<times> 'v) list \<Rightarrow> ('k \<times> 'v) list" where
  "put \<equiv> AList.update"

abbreviation del :: "'k \<Rightarrow> ('k \<times> 'v) list \<Rightarrow> ('k \<times> 'v) list" where
  "del \<equiv> AList.delete"

abbreviation keys :: "('k \<times> 'v) list \<Rightarrow> 'k list" where
  "keys m \<equiv> map fst m"

lemma lookup_put [simp]: "lookup (put k v m) = (lookup m)(k \<mapsto> v)"
  by (simp add: update_conv')

lemma lookup_del [simp]: "lookup (del k m) = (lookup m)(k := None)"
  by (simp add: AList.delete_conv')

lemma distinct_keys_put [simp, intro]: "distinct (keys m) \<Longrightarrow> distinct (keys (put k v m))"
  by (rule AList.distinct_update)

lemma distinct_keys_del [simp, intro]: "distinct (keys m) \<Longrightarrow> distinct (keys (del k m))"
  by (rule AList.distinct_delete)

lemma length_put: "length (put k v m) = (if k \<in> set (keys m) then length m else Suc (length m))"
  by (induction m) (auto simp: image_iff split: if_splits)

lemma length_put_new: "lookup m k = None \<Longrightarrow> length (put k v m) = Suc (length m)"
  by (simp add: length_put map_of_eq_None_iff)

lemma length_put_old: "lookup m k \<noteq> None \<Longrightarrow> length (put k v m) = length m"
  by (simp add: length_put map_of_eq_None_iff)

lemma lookup_Some_in: "lookup m k = Some v \<Longrightarrow> (k, v) \<in> set m"
  by (rule map_of_SomeD)

lemma key_in: "(k, v) \<in> set m \<Longrightarrow> k \<in> set (keys m)"
  by force

lemma in_lookup_Some: "distinct (keys m) \<Longrightarrow> (k, v) \<in> set m \<Longrightarrow> lookup m k = Some v"
  by simp

section \<open>Lists\<close>

text \<open>\<open>xs[len(xs)-n:]\<close> for \<open>n \<le> len(xs)\<close>; the whole slice when it is shorter.\<close>

definition take_last :: "nat \<Rightarrow> 'a list \<Rightarrow> 'a list" where
  "take_last n xs = drop (length xs - n) xs"

lemma length_take_last [simp]: "length (take_last n xs) = min n (length xs)"
  by (auto simp: take_last_def)

lemma take_last_all [simp]: "length xs \<le> n \<Longrightarrow> take_last n xs = xs"
  by (simp add: take_last_def)

lemma take_last_Nil [simp]: "take_last n [] = []"
  by (simp add: take_last_def)

lemma take_last_snoc: "take_last n (take_last n xs @ [x]) = take_last n (xs @ [x])"
proof (cases "length xs \<le> n")
  case True
  then show ?thesis by simp
next
  case False
  then show ?thesis
    by (cases n) (simp_all add: take_last_def Suc_diff_Suc not_le)
qed

lemma take_last_take_last: "m \<le> n \<Longrightarrow> take_last m (take_last n xs) = take_last m xs"
  by (auto simp: take_last_def drop_drop intro!: arg_cong2 [where f = drop])

lemma set_take_last_subset: "set (take_last n xs) \<subseteq> set xs"
  by (simp add: take_last_def set_drop_subset)

text \<open>A list update on the first element with a given property, as Go's search loops do.\<close>

fun find_index :: "('a \<Rightarrow> bool) \<Rightarrow> 'a list \<Rightarrow> nat option" where
  "find_index P [] = None"
| "find_index P (x # xs) = (if P x then Some 0 else map_option Suc (find_index P xs))"

lemma find_index_None_iff: "find_index P xs = None \<longleftrightarrow> (\<forall>x \<in> set xs. \<not> P x)"
  by (induction xs) auto

lemma find_index_SomeD:
  "find_index P xs = Some i \<Longrightarrow> i < length xs \<and> P (xs ! i) \<and> (\<forall>j < i. \<not> P (xs ! j))"
proof (induction xs arbitrary: i)
  case Nil
  then show ?case by simp
next
  case (Cons x xs)
  then show ?case
    by (auto simp: less_Suc_eq_0_disj split: if_splits)
qed

definition remove_nth :: "nat \<Rightarrow> 'a list \<Rightarrow> 'a list" where
  "remove_nth i xs = take i xs @ drop (Suc i) xs"

lemma set_remove_nth_subset: "set (remove_nth i xs) \<subseteq> set xs"
  by (auto simp: remove_nth_def dest: in_set_takeD in_set_dropD)

lemma mset_remove_nth:
  "i < length xs \<Longrightarrow> mset xs = add_mset (xs ! i) (mset (remove_nth i xs))"
  by (subst id_take_nth_drop [of i xs]) (simp_all add: remove_nth_def)

lemma map_remove_nth: "map f (remove_nth i xs) = remove_nth i (map f xs)"
  by (simp add: remove_nth_def take_map drop_map)

lemma distinct_remove_nth: "distinct xs \<Longrightarrow> distinct (remove_nth i xs)"
proof (cases "i < length xs")
  case True
  assume "distinct xs"
  with True have "distinct (take i xs @ xs ! i # drop (Suc i) xs)"
    by (simp add: id_take_nth_drop [symmetric])
  then show ?thesis by (simp add: remove_nth_def)
next
  case False
  assume "distinct xs"
  with False show ?thesis by (simp add: remove_nth_def)
qed

lemma distinct_map_remove_nth:
  "distinct (map f xs) \<Longrightarrow> distinct (map f (remove_nth i xs))"
  by (simp add: map_remove_nth distinct_remove_nth)

end
