(* ===== verification/GoStrings.thy ===== *)
theory GoStrings
  imports Prelude
begin

text \<open>
  The part of the Go standard library the program's string handling uses: \<open>strings.Split\<close>,
  \<open>SplitN\<close>, \<open>TrimSpace\<close>, \<open>TrimRight\<close>, \<open>Trim\<close>, \<open>ToLower\<close>, \<open>ReplaceAll\<close> (of one byte),
  \<open>strconv.Itoa\<close>, \<open>strconv.ParseInt\<close> and \<open>hex.EncodeToString\<close>, with the laws the components
  rely on: splitting and joining are inverse, trimming is idempotent, printed integers parse
  back, and the hexadecimal encoding is injective.
\<close>

section \<open>Splitting and joining\<close>

text \<open>\<open>strings.Split(s, sep)\<close> for a separator of one byte: never empty.\<close>

fun split_on :: "char \<Rightarrow> string \<Rightarrow> string list" where
  "split_on c [] = [[]]"
| "split_on c (x # xs) =
     (if x = c then [] # split_on c xs
      else (case split_on c xs of [] \<Rightarrow> [[x]] | y # ys \<Rightarrow> (x # y) # ys))"

fun join_with :: "char \<Rightarrow> string list \<Rightarrow> string" where
  "join_with c [] = []"
| "join_with c [x] = x"
| "join_with c (x # y # ys) = x @ c # join_with c (y # ys)"

lemma split_on_nonempty [simp]: "split_on c s \<noteq> []"
  by (cases s) (auto split: list.splits)

lemma join_split [simp]: "join_with c (split_on c s) = s"
proof (induction s)
  case Nil
  then show ?case by simp
next
  case (Cons x xs)
  obtain y ys where "split_on c xs = y # ys" by (cases "split_on c xs") auto
  with Cons show ?case by (cases ys) auto
qed

lemma split_on_parts: "p \<in> set (split_on c s) \<Longrightarrow> c \<notin> set p"
  by (induction s arbitrary: p) (auto split: if_splits list.splits)

lemma split_on_no_sep: "c \<notin> set s \<Longrightarrow> split_on c s = [s]"
  by (induction s) auto

lemma split_on_append: "c \<notin> set p \<Longrightarrow> split_on c (p @ c # s) = p # split_on c s"
  by (induction p) auto

lemma split_join:
  "ps \<noteq> [] \<Longrightarrow> \<forall>p \<in> set ps. c \<notin> set p \<Longrightarrow> split_on c (join_with c ps) = ps"
  by (induction c ps rule: join_with.induct) (auto simp: split_on_no_sep split_on_append)

text \<open>\<open>strings.SplitN(s, sep, 2)\<close>: the two parts when \<open>sep\<close> occurs, nothing otherwise.\<close>

fun split_first :: "char \<Rightarrow> string \<Rightarrow> (string \<times> string) option" where
  "split_first c [] = None"
| "split_first c (x # xs) =
     (if x = c then Some ([], xs) else map_option (\<lambda>(a, b). (x # a, b)) (split_first c xs))"

lemma split_first_append [simp]: "c \<notin> set p \<Longrightarrow> split_first c (p @ c # s) = Some (p, s)"
  by (induction p) auto

lemma split_first_SomeD: "split_first c s = Some (a, b) \<Longrightarrow> s = a @ c # b \<and> c \<notin> set a"
  by (induction s arbitrary: a) (auto split: if_splits)

lemma split_first_None_iff: "split_first c s = None \<longleftrightarrow> c \<notin> set s"
  by (induction s) auto

text \<open>The split at the last occurrence (\<open>LastIndexByte\<close>).\<close>

definition split_last :: "char \<Rightarrow> string \<Rightarrow> (string \<times> string) option" where
  "split_last c s = map_option (\<lambda>(a, b). (rev b, rev a)) (split_first c (rev s))"

lemma split_last_append [simp]: "c \<notin> set s \<Longrightarrow> split_last c (p @ c # s) = Some (p, s)"
  by (simp add: split_last_def)

lemma split_last_SomeD:
  assumes "split_last c s = Some (a, b)"
  shows "s = a @ c # b \<and> c \<notin> set b"
proof -
  from assms have "split_first c (rev s) = Some (rev b, rev a)"
    by (auto simp: split_last_def)
  from split_first_SomeD [OF this] have "rev s = rev b @ c # rev a" and "c \<notin> set b"
    by simp_all
  then have "rev (rev s) = rev (rev b @ c # rev a)" by simp
  with \<open>c \<notin> set b\<close> show ?thesis by simp
qed

lemma split_last_None_iff: "split_last c s = None \<longleftrightarrow> c \<notin> set s"
  by (simp add: split_last_def split_first_None_iff)

section \<open>Trimming\<close>

text \<open>
  \<open>strings.TrimSpace\<close> removes every leading and trailing code point with the Unicode property
  White Space. UTF-8 is self-synchronising, so a string starts (ends) with such a code point
  exactly when it starts (ends) with its encoding.
\<close>

definition space_encodings :: "string list" where
  "space_encodings =
     [[CHR 0x09], [CHR 0x0A], [CHR 0x0B], [CHR 0x0C], [CHR 0x0D], [CHR 0x20],
      [CHR 0xC2, CHR 0x85], [CHR 0xC2, CHR 0xA0], [CHR 0xE1, CHR 0x9A, CHR 0x80],
      [CHR 0xE2, CHR 0x80, CHR 0x80], [CHR 0xE2, CHR 0x80, CHR 0x81],
      [CHR 0xE2, CHR 0x80, CHR 0x82], [CHR 0xE2, CHR 0x80, CHR 0x83],
      [CHR 0xE2, CHR 0x80, CHR 0x84], [CHR 0xE2, CHR 0x80, CHR 0x85],
      [CHR 0xE2, CHR 0x80, CHR 0x86], [CHR 0xE2, CHR 0x80, CHR 0x87],
      [CHR 0xE2, CHR 0x80, CHR 0x88], [CHR 0xE2, CHR 0x80, CHR 0x89],
      [CHR 0xE2, CHR 0x80, CHR 0x8A], [CHR 0xE2, CHR 0x80, CHR 0xA8],
      [CHR 0xE2, CHR 0x80, CHR 0xA9], [CHR 0xE2, CHR 0x80, CHR 0xAF],
      [CHR 0xE2, CHR 0x81, CHR 0x9F], [CHR 0xE3, CHR 0x80, CHR 0x80]]"

definition starts_with :: "string \<Rightarrow> string \<Rightarrow> bool" where
  "starts_with s e \<longleftrightarrow> e \<noteq> [] \<and> take (length e) s = e"

lemma starts_with_shorter: "starts_with s e \<Longrightarrow> length (drop (length e) s) < length s"
  by (cases e; cases s) (auto simp: starts_with_def)

function strip_front :: "string list \<Rightarrow> string \<Rightarrow> string" where
  "strip_front encs s =
     (case List.find (starts_with s) encs of
        None \<Rightarrow> s
      | Some e \<Rightarrow> strip_front encs (drop (length e) s))"
  by pat_completeness auto
termination
  by (relation "measure (\<lambda>(encs, s). length s)")
     (auto simp: find_Some_iff intro!: starts_with_shorter [simplified])

declare strip_front.simps [simp del]

definition TrimSpace :: "string \<Rightarrow> string" where
  "TrimSpace s =
     rev (strip_front (map rev space_encodings) (rev (strip_front space_encodings s)))"

lemma strip_front_stuck: "\<not> (\<exists>e \<in> set encs. starts_with (strip_front encs s) e)"
proof (induction encs s rule: strip_front.induct)
  case (1 encs s)
  show ?case
  proof (cases "List.find (starts_with s) encs")
    case None
    then have "strip_front encs s = s" by (simp add: strip_front.simps [of encs s])
    with None show ?thesis by (simp add: find_None_iff)
  next
    case (Some e)
    with "1" show ?thesis by (simp add: strip_front.simps [of encs s])
  qed
qed

lemma strip_front_id: "\<not> (\<exists>e \<in> set encs. starts_with s e) \<Longrightarrow> strip_front encs s = s"
proof -
  assume "\<not> (\<exists>e \<in> set encs. starts_with s e)"
  then have "List.find (starts_with s) encs = None" by (auto simp: find_None_iff)
  then show ?thesis by (simp add: strip_front.simps [of encs s])
qed

lemma strip_front_suffix: "\<exists>p. s = p @ strip_front encs s"
proof (induction encs s rule: strip_front.induct)
  case (1 encs s)
  show ?case
  proof (cases "List.find (starts_with s) encs")
    case None
    then show ?thesis by (simp add: strip_front.simps [of encs s])
  next
    case (Some e)
    with "1" obtain p where "drop (length e) s = p @ strip_front encs (drop (length e) s)"
      by blast
    then have "s = (take (length e) s @ p) @ strip_front encs (drop (length e) s)"
      by (metis append_assoc append_take_drop_id)
    then have "\<exists>q. s = q @ strip_front encs (drop (length e) s)" by (rule exI)
    with Some show ?thesis by (simp add: strip_front.simps [of encs s])
  qed
qed

lemma set_TrimSpace_subset: "set (TrimSpace s) \<subseteq> set s"
proof -
  have sub: "set (strip_front encs t) \<subseteq> set t" for encs t
    using strip_front_suffix [of t encs] by (metis Un_upper2 set_append)
  show ?thesis
    using sub [of "map rev space_encodings" "rev (strip_front space_encodings s)"]
      sub [of space_encodings s] by (auto simp: TrimSpace_def)
qed

text \<open>Trimming is idempotent: the front of the result is stuck because it is a prefix of a
  string whose front was stuck.\<close>

lemma starts_with_append: "starts_with s e \<Longrightarrow> starts_with (s @ t) e"
  by (auto simp: starts_with_def)
     (metis append_take_drop_id length_take min.absorb_iff2 min.commute nat_le_linear
       self_append_conv take_all take_append)

lemma TrimSpace_front: "\<not> (\<exists>e \<in> set space_encodings. starts_with (TrimSpace s) e)"
proof
  let ?a = "strip_front space_encodings s"
  assume "\<exists>e \<in> set space_encodings. starts_with (TrimSpace s) e"
  then obtain e where e: "e \<in> set space_encodings" "starts_with (TrimSpace s) e" by blast
  obtain p where "rev ?a = p @ strip_front (map rev space_encodings) (rev ?a)"
    using strip_front_suffix by blast
  then have "?a = TrimSpace s @ rev p"
    unfolding TrimSpace_def by (metis rev_append rev_rev_ident)
  with e have "starts_with ?a e" by (simp add: starts_with_append)
  with e(1) strip_front_stuck [of space_encodings s] show False by blast
qed

lemma TrimSpace_idem [simp]: "TrimSpace (TrimSpace s) = TrimSpace s"
proof -
  have "strip_front space_encodings (TrimSpace s) = TrimSpace s"
    by (rule strip_front_id) (rule TrimSpace_front)
  moreover have "strip_front (map rev space_encodings) (rev (TrimSpace s)) = rev (TrimSpace s)"
    by (rule strip_front_id) (simp only: TrimSpace_def rev_rev_ident strip_front_stuck not_False_eq_True)
  ultimately show ?thesis
    unfolding TrimSpace_def [of "TrimSpace s"] by simp
qed

text \<open>\<open>strings.TrimRight(s, cutset)\<close> and \<open>strings.Trim(s, cutset)\<close> for a cutset of one byte.\<close>

definition TrimRight :: "char \<Rightarrow> string \<Rightarrow> string" where
  "TrimRight c s = rev (dropWhile (\<lambda>x. x = c) (rev s))"

definition Trim :: "char \<Rightarrow> string \<Rightarrow> string" where
  "Trim c s = TrimRight c (dropWhile (\<lambda>x. x = c) s)"

text \<open>\<open>strings.ReplaceAll\<close> of a single byte, and \<open>strings.ToLower\<close> on ASCII letters.\<close>

definition replace_char :: "char \<Rightarrow> string \<Rightarrow> string \<Rightarrow> string" where
  "replace_char c r s = concat (map (\<lambda>x. if x = c then r else [x]) s)"

definition lower_char :: "char \<Rightarrow> char" where
  "lower_char c =
     (let n = (of_char c :: nat) in if 65 \<le> n \<and> n \<le> 90 then char_of (n + 32) else c)"

definition ToLower :: "string \<Rightarrow> string" where
  "ToLower s = map lower_char s"

section \<open>Numbers\<close>

text \<open>Decimal printing (\<open>%d\<close>, \<open>strconv.Itoa\<close>) and \<open>strconv.ParseInt(s, 10, 64)\<close>.\<close>

definition digit_char :: "nat \<Rightarrow> char" where
  "digit_char d = char_of (48 + d)"

definition is_digit :: "char \<Rightarrow> bool" where
  "is_digit c \<longleftrightarrow> 48 \<le> (of_char c :: nat) \<and> (of_char c :: nat) \<le> 57"

definition digit_val :: "char \<Rightarrow> nat" where
  "digit_val c = of_char c - 48"

fun show_nat :: "nat \<Rightarrow> string" where
  "show_nat n = (if n < 10 then [digit_char n] else show_nat (n div 10) @ [digit_char (n mod 10)])"

declare show_nat.simps [simp del]

definition Itoa :: "int \<Rightarrow> string" where
  "Itoa i = (if i < 0 then CHR ''-'' # show_nat (nat (- i)) else show_nat (nat i))"

definition read_digits :: "string \<Rightarrow> nat" where
  "read_digits s = foldl (\<lambda>a c. a * 10 + digit_val c) 0 s"

definition parse_nat :: "string \<Rightarrow> nat option" where
  "parse_nat s = (if s \<noteq> [] \<and> list_all is_digit s then Some (read_digits s) else None)"

definition ParseInt64 :: "string \<Rightarrow> int option" where
  "ParseInt64 s =
     (let (neg, t) = (case s of
            [] \<Rightarrow> (False, [])
          | c # r \<Rightarrow> if c = CHR ''-'' then (True, r) else if c = CHR ''+'' then (False, r) else (False, s))
      in case parse_nat t of
           None \<Rightarrow> None
         | Some n \<Rightarrow>
             if neg then (if n \<le> 2 ^ 63 then Some (- int n) else None)
             else (if n < 2 ^ 63 then Some (int n) else None))"

lemma is_digit_digit_char [simp]: "d < 10 \<Longrightarrow> is_digit (digit_char d)"
  by (simp add: is_digit_def digit_char_def)

lemma digit_val_digit_char [simp]: "d < 10 \<Longrightarrow> digit_val (digit_char d) = d"
  by (simp add: digit_val_def digit_char_def)

lemma show_nat_nonempty [simp]: "show_nat n \<noteq> []"
  by (subst show_nat.simps) simp

lemma show_nat_digits: "list_all is_digit (show_nat n)"
proof (induction n rule: show_nat.induct)
  case (1 n)
  then show ?case by (subst show_nat.simps) auto
qed

lemma read_show_nat [simp]: "read_digits (show_nat n) = n"
proof (induction n rule: show_nat.induct)
  case (1 n)
  then show ?case
    by (cases "n < 10") (simp_all add: show_nat.simps [of n] read_digits_def)
qed

lemma parse_show_nat [simp]: "parse_nat (show_nat n) = Some n"
  by (simp add: parse_nat_def show_nat_digits)

lemma not_digit_sep: "c \<in> {CHR ''-'', CHR ''+'', CHR ''.'', CHR '':'', CHR ''|'', CHR '','', CHR ''/'',
    CHR ''['', CHR '']'', CHR '' '', CHR ''%''} \<Longrightarrow> \<not> is_digit c"
  by (auto simp: is_digit_def)

lemma show_nat_no_sep: "\<not> is_digit c \<Longrightarrow> c \<notin> set (show_nat n)"
  using show_nat_digits [of n] by (auto simp: list_all_iff)

lemma ParseInt64_Itoa:
  assumes "- (2 ^ 63) \<le> i" and "i < 2 ^ 63"
  shows "ParseInt64 (Itoa i) = Some i"
proof (cases "i < 0")
  case True
  with assms show ?thesis by (simp add: Itoa_def ParseInt64_def nat_le_iff)
next
  case False
  obtain c r where cr: "show_nat (nat i) = c # r"
    by (cases "show_nat (nat i)") auto
  then have "is_digit c" using show_nat_digits [of "nat i"] by simp
  then have "c \<noteq> CHR ''-''" and "c \<noteq> CHR ''+''" by (auto simp: is_digit_def)
  moreover have "parse_nat (c # r) = Some (nat i)"
    using parse_show_nat [of "nat i"] cr by simp
  moreover have "nat i < 2 ^ 63" using assms False by (simp add: nat_less_iff)
  ultimately show ?thesis using False cr by (simp add: Itoa_def ParseInt64_def)
qed

text \<open>\<open>hex.EncodeToString\<close>: two lower-case digits per byte.\<close>

definition hex_char :: "nat \<Rightarrow> char" where
  "hex_char d = (if d < 10 then char_of (48 + d) else char_of (87 + d))"

definition hex_encode :: "bytes \<Rightarrow> string" where
  "hex_encode bs = concat (map (\<lambda>b. [hex_char (unat b div 16), hex_char (unat b mod 16)]) bs)"

lemma length_hex_encode [simp]: "length (hex_encode bs) = 2 * length bs"
  by (induction bs) (auto simp: hex_encode_def)

lemma hex_char_inj: "a < 16 \<Longrightarrow> b < 16 \<Longrightarrow> hex_char a = hex_char b \<Longrightarrow> a = b"
proof -
  assume "a < 16" "b < 16" and eq: "hex_char a = hex_char b"
  have v: "(of_char (hex_char d) :: nat) = (if d < 10 then 48 + d else 87 + d)" if "d < 16" for d
    using that by (auto simp: hex_char_def)
  from eq have "(of_char (hex_char a) :: nat) = of_char (hex_char b)" by simp
  with \<open>a < 16\<close> \<open>b < 16\<close> show "a = b" by (auto simp: v split: if_splits)
qed

lemma hex_encode_inj: "hex_encode as = hex_encode bs \<Longrightarrow> as = bs"
proof (induction as arbitrary: bs)
  case Nil
  then show ?case by (cases bs) (auto simp: hex_encode_def)
next
  case (Cons a as)
  then obtain b bs' where bs: "bs = b # bs'" by (cases bs) (auto simp: hex_encode_def)
  have lt: "unat x div 16 < 16" "unat x mod 16 < 16" for x :: byte
    using unat_byte_less [of x] by linarith+
  from Cons.prems bs have "unat a div 16 = unat b div 16" and "unat a mod 16 = unat b mod 16"
    by (auto simp: hex_encode_def intro: hex_char_inj lt)
  then have "unat a = unat b" by (metis div_mult_mod_eq)
  moreover from Cons.prems bs have "as = bs'"
    by (intro Cons.IH) (simp add: hex_encode_def)
  ultimately show ?case using bs by (simp add: word_unat_eq_iff)
qed

lemma lower_hex_char [simp]: "d < 16 \<Longrightarrow> lower_char (hex_char d) = hex_char d"
  by (auto simp: lower_char_def hex_char_def Let_def)

lemma ToLower_hex [simp]: "ToLower (hex_encode bs) = hex_encode bs"
proof (induction bs)
  case Nil
  then show ?case by (simp add: hex_encode_def ToLower_def)
next
  case (Cons b bs)
  have "unat b div 16 < 16" using unat_byte_less [of b] by linarith
  with Cons show ?case by (simp add: hex_encode_def ToLower_def)
qed

end
