(* ===== verification/GoNet.thy ===== *)
theory GoNet
  imports GoStrings
begin

text \<open>
  The part of Go's \<open>net\<close> and \<open>net/netip\<close> the program uses: addresses and prefixes
  (\<open>netip.Addr\<close>, \<open>netip.Prefix\<close>), their parsers, \<open>Unmap\<close>, \<open>IsLoopback\<close>, \<open>Contains\<close>,
  \<open>net.SplitHostPort\<close> and \<open>net.JoinHostPort\<close>, and the textual form of a 4-byte or 16-byte
  address. An IPv4 address is a \<open>32 word\<close>, an IPv6 address a \<open>128 word\<close> with its zone.
\<close>

unbundle bit_operations_syntax

section \<open>Addresses\<close>

datatype addr = NoAddr | V4 "32 word" | V6 "128 word" string

definition Is4In6 :: "addr \<Rightarrow> bool" where
  "Is4In6 a = (case a of V6 w z \<Rightarrow> drop_bit 32 w = 0xffff | _ \<Rightarrow> False)"

definition Unmap :: "addr \<Rightarrow> addr" where
  "Unmap a = (case a of V6 w z \<Rightarrow> if drop_bit 32 w = 0xffff then V4 (ucast w) else a | _ \<Rightarrow> a)"

definition IsLoopback :: "addr \<Rightarrow> bool" where
  "IsLoopback a =
     (case Unmap a of
        NoAddr \<Rightarrow> False
      | V4 w \<Rightarrow> drop_bit 24 w = 127
      | V6 w z \<Rightarrow> w = 1)"

lemma Unmap_idem [simp]: "Unmap (Unmap a) = Unmap a"
  by (auto simp: Unmap_def split: addr.splits)

lemma IsLoopback_Unmap [simp]: "IsLoopback (Unmap a) = IsLoopback a"
  by (simp add: IsLoopback_def)

lemma Unmap_not_4in6 [simp]: "\<not> Is4In6 (Unmap a)"
  by (auto simp: Unmap_def Is4In6_def split: addr.splits)

lemma Unmap_V4 [simp]: "Unmap (V4 w) = V4 w"
  by (simp add: Unmap_def)

lemma Unmap_NoAddr [simp]: "Unmap NoAddr = NoAddr"
  by (simp add: Unmap_def)

section \<open>Parsing addresses\<close>

text \<open>\<open>parseIPv4Fields\<close>: four dot-separated decimal octets without leading zeros.\<close>

definition parse_octet :: "string \<Rightarrow> nat option" where
  "parse_octet s =
     (if length s > 1 \<and> hd s = CHR ''0'' then None
      else case parse_nat s of
             None \<Rightarrow> None
           | Some n \<Rightarrow> if length s \<le> 3 \<and> n \<le> 255 then Some n else None)"

definition parse_v4 :: "string \<Rightarrow> 32 word option" where
  "parse_v4 s =
     (case map parse_octet (split_on CHR ''.'' s) of
        [Some a, Some b, Some c, Some d] \<Rightarrow>
          Some (of_nat (((a * 256 + b) * 256 + c) * 256 + d))
      | _ \<Rightarrow> None)"

definition is_hex :: "char \<Rightarrow> bool" where
  "is_hex c \<longleftrightarrow> is_digit c \<or> (97 \<le> (of_char c :: nat) \<and> (of_char c :: nat) \<le> 102)
     \<or> (65 \<le> (of_char c :: nat) \<and> (of_char c :: nat) \<le> 70)"

definition hex_val :: "char \<Rightarrow> nat" where
  "hex_val c =
     (let n = of_char c in if n \<le> 57 then n - 48 else if n \<le> 70 then n - 55 else n - 87)"

definition read_hex :: "string \<Rightarrow> nat" where
  "read_hex s = foldl (\<lambda>a c. a * 16 + hex_val c) 0 s"

text \<open>
  The loop of \<open>parseIPv6\<close>. \<open>room\<close> is the number of 16-bit groups still free (the source's
  \<open>(16 - i) / 2\<close>), \<open>gs\<close> the groups read so far, \<open>ell\<close> the position of the ellipsis. The
  result is the groups and the ellipsis once the whole text is used.
\<close>

fun v6_loop :: "nat \<Rightarrow> nat list \<Rightarrow> nat option \<Rightarrow> string \<Rightarrow> (nat list \<times> nat option) option" where
  "v6_loop 0 gs ell s = (if s = [] then Some (gs, ell) else None)"
| "v6_loop (Suc room) gs ell s =
     (let ds = takeWhile is_hex s; r = dropWhile is_hex s in
      if ds = [] \<or> length ds > 4 then None
      else if r \<noteq> [] \<and> hd r = CHR ''.'' then
        (if (ell = None \<and> length gs \<noteq> 6) \<or> length gs + 2 > 8 then None
         else case parse_v4 s of
                None \<Rightarrow> None
              | Some w \<Rightarrow> Some (gs @ [unat (drop_bit 16 w), unat (w AND 0xffff)], ell))
      else
        (let gs' = gs @ [read_hex ds] in
         case r of
           [] \<Rightarrow> Some (gs', ell)
         | c # r1 \<Rightarrow>
             if c \<noteq> CHR '':'' \<or> r1 = [] then None
             else if hd r1 = CHR '':'' then
               (if ell \<noteq> None then None
                else if tl r1 = [] then Some (gs', Some (length gs'))
                else v6_loop room gs' (Some (length gs')) (tl r1))
             else v6_loop room gs' ell r1))"

definition groups_to_word :: "nat list \<Rightarrow> 128 word" where
  "groups_to_word gs = foldl (\<lambda>w g. push_bit 16 w OR of_nat g) 0 gs"

definition v6_finish :: "nat list \<Rightarrow> nat option \<Rightarrow> 128 word option" where
  "v6_finish gs ell =
     (case ell of
        None \<Rightarrow> if length gs < 8 then None else Some (groups_to_word gs)
      | Some e \<Rightarrow>
          if length gs < 8
          then Some (groups_to_word (take e gs @ replicate (8 - length gs) 0 @ drop e gs))
          else None)"

definition parse_v6 :: "string \<Rightarrow> addr option" where
  "parse_v6 inp =
     (case (case split_first CHR ''%'' inp of
              None \<Rightarrow> Some (inp, [])
            | Some (a, z) \<Rightarrow> if z = [] then None else Some (a, z)) of
        None \<Rightarrow> None
      | Some (s, zone) \<Rightarrow>
          if take 2 s = '':''@'':'' then
            (if drop 2 s = [] then Some (V6 0 zone)
             else case v6_loop 8 [] (Some 0) (drop 2 s) of
                    None \<Rightarrow> None
                  | Some (gs, ell) \<Rightarrow> map_option (\<lambda>w. V6 w zone) (v6_finish gs ell))
          else case v6_loop 8 [] None s of
                 None \<Rightarrow> None
               | Some (gs, ell) \<Rightarrow> map_option (\<lambda>w. V6 w zone) (v6_finish gs ell))"

text \<open>\<open>netip.ParseAddr\<close>: the first of \<open>.\<close>, \<open>:\<close>, \<open>%\<close> decides the family.\<close>

definition ParseAddr :: "string \<Rightarrow> addr option" where
  "ParseAddr s =
     (case List.find (\<lambda>c. c \<in> {CHR ''.'', CHR '':'', CHR ''%''}) s of
        None \<Rightarrow> None
      | Some c \<Rightarrow>
          if c = CHR ''.'' then map_option V4 (parse_v4 s)
          else if c = CHR '':'' then parse_v6 s
          else None)"

section \<open>Prefixes\<close>

record prefix =
  p_addr :: addr
  p_bits :: nat

definition ParsePrefix :: "string \<Rightarrow> prefix option" where
  "ParsePrefix s =
     (case split_last CHR ''/'' s of
        None \<Rightarrow> None
      | Some (a, b) \<Rightarrow>
          (case ParseAddr a of
             None \<Rightarrow> None
           | Some ip \<Rightarrow>
               if (case ip of V6 w z \<Rightarrow> z \<noteq> [] | _ \<Rightarrow> False) then None
               else if length b > 1 \<and> \<not> (is_digit (hd b) \<and> hd b \<noteq> CHR ''0'') then None
               else (case parse_nat b of
                       None \<Rightarrow> None
                     | Some n \<Rightarrow>
                         if n \<le> (case ip of V6 w z \<Rightarrow> 128 | _ \<Rightarrow> 32)
                         then Some \<lparr>p_addr = ip, p_bits = n\<rparr> else None)))"

text \<open>
  \<open>Prefix.Contains\<close>: same family, no zone, and the leading \<open>p_bits\<close> bits agree. It does not
  unmap either side.
\<close>

definition Contains :: "prefix \<Rightarrow> addr \<Rightarrow> bool" where
  "Contains p ip =
     (case (p_addr p, ip) of
        (V4 a, V4 b) \<Rightarrow> drop_bit (32 - p_bits p) (a XOR b) = 0
      | (V6 a za, V6 b zb) \<Rightarrow> zb = [] \<and> drop_bit (128 - p_bits p) (a XOR b) = 0
      | _ \<Rightarrow> False)"

lemma word_xor_eq_0: "(a :: 'a::len word) XOR b = 0 \<longleftrightarrow> a = b"
  by (auto simp: bit_eq_iff bit_simps)

lemma Contains_V4 [simp]:
  "Contains \<lparr>p_addr = V4 a, p_bits = n\<rparr> (V4 b) \<longleftrightarrow> drop_bit (32 - n) a = drop_bit (32 - n) b"
  by (simp add: Contains_def drop_bit_xor word_xor_eq_0)

lemma Contains_V6 [simp]:
  "Contains \<lparr>p_addr = V6 a z, p_bits = n\<rparr> (V6 b []) \<longleftrightarrow> drop_bit (128 - n) a = drop_bit (128 - n) b"
  by (simp add: Contains_def drop_bit_xor word_xor_eq_0)

lemma Contains_family:
  "Contains p ip \<Longrightarrow> (\<exists>a b. p_addr p = V4 a \<and> ip = V4 b) \<or> (\<exists>a z b. p_addr p = V6 a z \<and> ip = V6 b [])"
  by (auto simp: Contains_def split: addr.splits)

section \<open>Host and port\<close>

text \<open>\<open>net.SplitHostPort\<close>; \<open>None\<close> is its error.\<close>

definition SplitHostPort :: "string \<Rightarrow> (string \<times> string) option" where
  "SplitHostPort hp =
     (case split_last CHR '':'' hp of
        None \<Rightarrow> None
      | Some (host0, port) \<Rightarrow>
          if hd hp = CHR ''['' then
            (case split_first CHR '']'' hp of
               None \<Rightarrow> None
             | Some (inner, rest0) \<Rightarrow>
                 if rest0 = CHR '':'' # port \<and> CHR ''['' \<notin> set (tl inner) \<and> CHR ''['' \<notin> set rest0
                    \<and> CHR '']'' \<notin> set rest0
                 then Some (tl inner, port) else None)
          else if CHR '':'' \<in> set host0 \<or> CHR ''['' \<in> set hp \<or> CHR '']'' \<in> set hp then None
          else Some (host0, port))"

definition JoinHostPort :: "string \<Rightarrow> string \<Rightarrow> string" where
  "JoinHostPort host port =
     (if CHR '':'' \<in> set host then CHR ''['' # host @ CHR '']'' # CHR '':'' # port
      else host @ CHR '':'' # port)"

definition plain_port :: "string \<Rightarrow> bool" where
  "plain_port p \<longleftrightarrow> CHR '':'' \<notin> set p \<and> CHR ''['' \<notin> set p \<and> CHR '']'' \<notin> set p"

lemma plain_port_show_nat [simp]: "plain_port (show_nat n)"
  by (simp add: plain_port_def show_nat_no_sep is_digit_def)

lemma SplitHostPort_JoinHostPort:
  assumes h: "CHR ''['' \<notin> set host" "CHR '']'' \<notin> set host" and p: "plain_port port"
  shows "SplitHostPort (JoinHostPort host port) = Some (host, port)"
proof (cases "CHR '':'' \<in> set host")
  case True
  have "CHR '':'' \<notin> set port" using p by (simp add: plain_port_def)
  then have l: "split_last CHR '':'' ((CHR ''['' # host @ [CHR '']'']) @ CHR '':'' # port)
      = Some (CHR ''['' # host @ [CHR '']''], port)"
    by (rule split_last_append)
  have f: "split_first CHR '']'' ((CHR ''['' # host) @ CHR '']'' # CHR '':'' # port)
      = Some (CHR ''['' # host, CHR '':'' # port)"
    using h by (intro split_first_append) simp
  show ?thesis
    using True h p l f by (simp add: SplitHostPort_def JoinHostPort_def plain_port_def)
next
  case False
  have "CHR '':'' \<notin> set port" using p by (simp add: plain_port_def)
  then have l: "split_last CHR '':'' (host @ CHR '':'' # port) = Some (host, port)"
    by (rule split_last_append)
  have "hd (host @ CHR '':'' # port) \<noteq> CHR ''[''"
    using h by (cases host) auto
  with False h p l show ?thesis
    by (simp add: SplitHostPort_def JoinHostPort_def plain_port_def)
qed

section \<open>Text of an address\<close>

text \<open>\<open>netip.Addr.String\<close> of an IPv4 address.\<close>

definition octets :: "32 word \<Rightarrow> nat list" where
  "octets w = [unat w div 16777216, unat w div 65536 mod 256, unat w div 256 mod 256, unat w mod 256]"

definition show_v4 :: "32 word \<Rightarrow> string" where
  "show_v4 w = join_with CHR ''.'' (map show_nat (octets w))"

text \<open>\<open>netip.Addr.String\<close> of an IPv6 address that is not IPv4-mapped: the first longest run of
  at least two zero groups becomes \<open>::\<close>.\<close>

definition groups :: "128 word \<Rightarrow> nat list" where
  "groups w = map (\<lambda>i. unat (drop_bit (16 * (7 - i)) w AND 0xffff)) [0..<8]"

fun show_hex :: "nat \<Rightarrow> string" where
  "show_hex n = (if n < 16 then [hex_char n] else show_hex (n div 16) @ [hex_char (n mod 16)])"

declare show_hex.simps [simp del]

definition zero_run :: "nat list \<Rightarrow> nat \<times> nat" where
  "zero_run gs =
     foldl (\<lambda>(st, l) i.
              let n = length (takeWhile (\<lambda>g. g = 0) (drop i gs)) in
              if 2 \<le> n \<and> l < n then (i, n) else (st, l))
       (255, 0) [0..<8]"

definition show_v6 :: "128 word \<Rightarrow> string" where
  "show_v6 w =
     (let gs = groups w; (st, l) = zero_run gs; txt = map show_hex in
      if l = 0 then join_with CHR '':'' (txt gs)
      else join_with CHR '':'' (txt (take st gs)) @ ''::'' @ join_with CHR '':'' (txt (drop (st + l) gs)))"

text \<open>\<open>net.IP.String\<close> of a 4-byte or 16-byte slice.\<close>

definition be_word :: "bytes \<Rightarrow> nat" where
  "be_word bs = foldl (\<lambda>a b. a * 256 + unat b) 0 bs"

definition IPString :: "bytes \<Rightarrow> string" where
  "IPString b =
     (if length b = 4 then show_v4 (of_nat (be_word b))
      else if length b = 16 then
        (let w = (of_nat (be_word b) :: 128 word) in
         if drop_bit 32 w = 0xffff then show_v4 (ucast w) else show_v6 w)
      else if b = [] then ''<nil>'' else ''?'' @ hex_encode b)"

lemma octets_less: "d \<in> set (octets w) \<Longrightarrow> d < 256"
proof -
  have "unat w < 4294967296" using unsigned_less [of w, where ?'a = nat] by simp
  then have "unat w div 16777216 < 256" by linarith
  then show "d \<in> set (octets w) \<Longrightarrow> d < 256" by (auto simp: octets_def)
qed

lemma octets_value:
  "((unat w div 16777216 * 256 + unat w div 65536 mod 256) * 256 + unat w div 256 mod 256) * 256
     + unat w mod 256 = unat (w :: 32 word)"
proof -
  define n where "n = unat w"
  have q: "n div 65536 = n div 256 div 256" "n div 16777216 = n div 256 div 256 div 256"
    by (simp_all add: div_mult2_eq [symmetric])
  show ?thesis
    unfolding n_def [symmetric] q by (simp only: div_mult_mod_eq)
qed

lemma length_show_nat_small: "n < 256 \<Longrightarrow> length (show_nat n) \<le> 3"
  by (simp add: show_nat.simps [of n] show_nat.simps [of "n div 10"]
      show_nat.simps [of "n div 10 div 10"])

lemma hd_show_nat_zero: "hd (show_nat n) = CHR ''0'' \<Longrightarrow> n = 0"
proof (induction n rule: show_nat.induct)
  case (1 n)
  show ?case
  proof (cases "n < 10")
    case True
    with "1.prems" have "digit_char n = CHR ''0''" by (simp add: show_nat.simps [of n])
    then have "digit_val (digit_char n) = 0" by (simp add: digit_val_def)
    with True show ?thesis by simp
  next
    case False
    with "1.prems" have "hd (show_nat (n div 10)) = CHR ''0''"
      by (simp add: show_nat.simps [of n])
    with "1.IH" False have "n div 10 = 0" by blast
    with False show ?thesis by simp
  qed
qed

lemma parse_octet_show: "n < 256 \<Longrightarrow> parse_octet (show_nat n) = Some n"
proof -
  assume n: "n < 256"
  have "\<not> (length (show_nat n) > 1 \<and> hd (show_nat n) = CHR ''0'')"
    using hd_show_nat_zero [of n] by (auto simp: show_nat.simps [of 0])
  with n length_show_nat_small [OF n] show ?thesis by (simp add: parse_octet_def)
qed

lemma parse_v4_show_v4 [simp]: "parse_v4 (show_v4 w) = Some w"
proof -
  have dot: "CHR ''.'' \<notin> set p" if "p \<in> set (map show_nat (octets w))" for p
    using that by (auto simp: show_nat_no_sep is_digit_def)
  have "split_on CHR ''.'' (show_v4 w) = map show_nat (octets w)"
    unfolding show_v4_def by (rule split_join) (auto simp: octets_def dot)
  then have "map parse_octet (split_on CHR ''.'' (show_v4 w)) = map Some (octets w)"
    using octets_less [of _ w] by (auto simp: parse_octet_show)
  then show ?thesis
    using octets_value [of w] by (simp add: parse_v4_def octets_def)
qed

lemma ParseAddr_show_v4 [simp]: "ParseAddr (show_v4 w) = Some (V4 w)"
proof -
  have mem: "c = CHR ''.'' \<or> is_digit c" if "c \<in> set (show_v4 w)" for c
    using that show_nat_digits by (auto simp: show_v4_def octets_def list_all_iff)
  have "CHR ''.'' \<in> set (show_v4 w)" by (simp add: show_v4_def octets_def)
  then obtain c where c: "List.find (\<lambda>c. c \<in> {CHR ''.'', CHR '':'', CHR ''%''}) (show_v4 w) = Some c"
    by (cases "List.find (\<lambda>c. c \<in> {CHR ''.'', CHR '':'', CHR ''%''}) (show_v4 w)")
       (auto simp: find_None_iff)
  then have "c \<in> set (show_v4 w)" and "c \<in> {CHR ''.'', CHR '':'', CHR ''%''}"
    by (auto simp: find_Some_iff in_set_conv_nth)
  with mem [of c] have "c = CHR ''.''" by (auto simp: is_digit_def)
  with c show ?thesis by (simp add: ParseAddr_def)
qed

section \<open>Slices and address-port pairs\<close>

text \<open>\<open>netip.AddrFromSlice\<close>; the zero address when the length is wrong.\<close>

definition AddrFromSlice :: "bytes \<Rightarrow> addr" where
  "AddrFromSlice b =
     (if length b = 4 then V4 (of_nat (be_word b))
      else if length b = 16 then V6 (of_nat (be_word b)) []
      else NoAddr)"

text \<open>\<open>netip.ParseAddrPort\<close>: brackets exactly around IPv6 addresses.\<close>

definition ParseAddrPort :: "string \<Rightarrow> (addr \<times> nat) option" where
  "ParseAddrPort s =
     (case split_last CHR '':'' s of
        None \<Rightarrow> None
      | Some (ip, port) \<Rightarrow>
          if ip = [] \<or> port = [] then None
          else if hd ip = CHR ''['' \<and> (length ip < 2 \<or> last ip \<noteq> CHR '']'') then None
          else (let v6 = (hd ip = CHR ''[''); host = (if v6 then butlast (tl ip) else ip) in
                case (parse_nat port, ParseAddr host) of
                  (Some n, Some a) \<Rightarrow>
                    if n > 65535 then None
                    else if v6 \<noteq> (case a of V6 w z \<Rightarrow> True | _ \<Rightarrow> False) then None
                    else Some (a, n)
                | _ \<Rightarrow> None))"

lemma ParseAddrPort_v4:
  assumes "n \<le> 65535"
  shows "ParseAddrPort (show_v4 w @ CHR '':'' # show_nat n) = Some (V4 w, n)"
proof -
  have c: "CHR '':'' \<notin> set (show_nat n)" by (rule show_nat_no_sep) (simp add: is_digit_def)
  have ne: "show_v4 w \<noteq> []" by (simp add: show_v4_def octets_def)
  have mem: "x = CHR ''.'' \<or> is_digit x" if "x \<in> set (show_v4 w)" for x
    using that show_nat_digits by (auto simp: show_v4_def octets_def list_all_iff)
  have b: "hd (show_v4 w) \<noteq> CHR ''[''"
  proof
    assume "hd (show_v4 w) = CHR ''[''"
    with mem [OF hd_in_set [OF ne]] show False by (simp add: is_digit_def)
  qed
  have "split_last CHR '':'' (show_v4 w @ CHR '':'' # show_nat n) = Some (show_v4 w, show_nat n)"
    using c by (rule split_last_append)
  then show ?thesis unfolding ParseAddrPort_def using assms b ne by (simp add: Let_def)
qed

text \<open>The definitions that evaluate a parser on a concrete text.\<close>

lemmas parse_defs = ParseAddr_def parse_v4_def parse_octet_def parse_nat_def is_digit_def
  read_digits_def digit_val_def ParsePrefix_def split_last_def SplitHostPort_def
  ParseAddrPort_def

end
