(* ===== verification/Config.thy ===== *)
theory Config
  imports GoNet
begin

text \<open>
  Package \<open>config\<close> (\<open>config/config.go\<close>): the persisted rule, client and server records, the
  access list (\<open>NewACL\<close>, \<open>Allows\<close>), token generation, the loaders of the two configuration
  files and the atomic \<open>save\<close>.

  The JSON codec is a parameter of the loaders (\<open>dec\<close> for \<open>json.Unmarshal\<close>); the random source
  and the file system are arguments. A Go \<open>error\<close> is \<open>'e option\<close> where it is the only result
  and the left side of a sum where it comes with a value.
\<close>

section \<open>Records\<close>

record rule =
  ID :: string
  Name :: string
  Side :: string
  Proto :: string
  Listen :: int
  Client :: string
  Target :: string
  AllowFrom :: "string list"
  MaxMbps :: int
  MaxConns :: int
  IdleMin :: int
  ProxyProto :: int
  Enabled :: bool

definition SideOf :: "rule \<Rightarrow> string" where
  "SideOf r = (if Side r = ''client'' then ''client'' else ''server'')"

record client_user =
  cu_Name :: string
  cu_Token :: string
  cu_Note :: string

record server_cfg =
  TunnelAddr :: string
  PanelAddr :: string
  Password :: string
  NoAuth :: bool
  PanelPrefix :: string
  IPWhitelist :: "string list"
  Secret :: string
  NoTLS :: bool
  TLSCert :: string
  TLSKey :: string
  LogFile :: string
  NotifyURL :: string
  NotifyFormat :: string
  IPBlacklist :: "string list"
  Clients :: "client_user list"
  Rules :: "rule list"

record client_config =
  ServerAddr :: string
  cc_Token :: string
  cc_NoTLS :: bool
  TLSFingerprint :: string
  cc_LogFile :: string
  Socks5Listen :: string

lemma SideOf_cases: "SideOf r = ''client'' \<or> SideOf r = ''server''"
  by (simp add: SideOf_def)

lemma SideOf_not_client [simp]: "SideOf r \<noteq> ''client'' \<longleftrightarrow> SideOf r = ''server''"
  by (simp add: SideOf_def)

section \<open>Access lists\<close>

record acl_body =
  prefixes :: "prefix list"
  addrs :: "addr list"

text \<open>A \<open>*ACL\<close>: \<open>None\<close> is the nil pointer, which allows everything.\<close>

type_synonym acl = "acl_body option"

datatype acl_error = BadEntry string

fun acl_add :: "string list \<Rightarrow> acl_body \<Rightarrow> acl_error + acl_body" where
  "acl_add [] a = Inr a"
| "acl_add (e # es) a =
     (case ParsePrefix e of
        Some p \<Rightarrow> acl_add es (a\<lparr>prefixes := prefixes a @ [p]\<rparr>)
      | None \<Rightarrow>
          (case ParseAddr e of
             None \<Rightarrow> Inl (BadEntry e)
           | Some ip \<Rightarrow> acl_add es (a\<lparr>addrs := addrs a @ [Unmap ip]\<rparr>)))"

definition NewACL :: "string list \<Rightarrow> acl_error + acl" where
  "NewACL entries =
     (if entries = [] then Inr None
      else case acl_add entries \<lparr>prefixes = [], addrs = []\<rparr> of
             Inl e \<Rightarrow> Inl e
           | Inr a \<Rightarrow> Inr (Some a))"

definition Allows :: "acl \<Rightarrow> addr \<Rightarrow> bool" where
  "Allows a ip0 =
     (case a of
        None \<Rightarrow> True
      | Some b \<Rightarrow>
          (let ip = Unmap ip0 in
           (\<exists>p \<in> set (prefixes b). Contains p ip) \<or> (\<exists>x \<in> set (addrs b). x = ip)))"

text \<open>What one entry of an access list means: a CIDR prefix if it parses as one, else an address.\<close>

definition entry_matches :: "string \<Rightarrow> addr \<Rightarrow> bool" where
  "entry_matches e ip =
     (case ParsePrefix e of
        Some p \<Rightarrow> Contains p (Unmap ip)
      | None \<Rightarrow> (case ParseAddr e of None \<Rightarrow> False | Some a \<Rightarrow> Unmap a = Unmap ip))"

definition entry_ok :: "string \<Rightarrow> bool" where
  "entry_ok e \<longleftrightarrow> ParsePrefix e \<noteq> None \<or> ParseAddr e \<noteq> None"

lemma Allows_nil [simp]: "Allows None ip"
  by (simp add: Allows_def)

lemma Allows_Unmap [simp]: "Allows a (Unmap ip) = Allows a ip"
  by (simp only: Allows_def Unmap_idem)

lemma acl_add_ok_iff: "(\<exists>b. acl_add es a = Inr b) \<longleftrightarrow> (\<forall>e \<in> set es. entry_ok e)"
  by (induction es arbitrary: a) (auto simp: entry_ok_def split: option.splits)

lemma acl_add_matches:
  "acl_add es a = Inr b \<Longrightarrow>
     Allows (Some b) ip \<longleftrightarrow> Allows (Some a) ip \<or> (\<exists>e \<in> set es. entry_matches e ip)"
proof (induction es arbitrary: a)
  case Nil
  then show ?case by simp
next
  case (Cons e es)
  then show ?case
    by (fastforce simp: entry_matches_def Allows_def Let_def split: option.splits)
qed

lemma NewACL_ok_iff: "(\<exists>a. NewACL es = Inr a) \<longleftrightarrow> (\<forall>e \<in> set es. entry_ok e)"
  using acl_add_ok_iff [of es "\<lparr>prefixes = [], addrs = []\<rparr>"]
  by (auto simp: NewACL_def split: sum.splits)

lemma NewACL_Inl_iff: "(\<exists>e. NewACL es = Inl e) \<longleftrightarrow> (\<exists>e \<in> set es. \<not> entry_ok e)"
  using NewACL_ok_iff [of es] by (cases "NewACL es") auto

lemma NewACL_nil_iff: "NewACL es = Inr None \<longleftrightarrow> es = []"
  by (auto simp: NewACL_def split: sum.splits)

lemma NewACL_Allows:
  assumes "NewACL es = Inr a"
  shows "Allows a ip \<longleftrightarrow> es = [] \<or> (\<exists>e \<in> set es. entry_matches e ip)"
proof (cases "es = []")
  case True
  with assms show ?thesis by (simp add: NewACL_def)
next
  case False
  with assms obtain b where b: "acl_add es \<lparr>prefixes = [], addrs = []\<rparr> = Inr b" "a = Some b"
    by (auto simp: NewACL_def split: sum.splits)
  with False acl_add_matches [OF b(1), of ip] show ?thesis
    by (simp add: Allows_def Let_def)
qed

text \<open>The address of a visitor is unmapped before it is compared, the prefix of an entry is not.\<close>

lemma mapped_prefix_never_matches:
  assumes p: "ParsePrefix e = Some p" and m: "Is4In6 (p_addr p)" and n: "96 \<le> p_bits p" "p_bits p \<le> 128"
  shows "\<not> entry_matches e ip"
proof
  assume "entry_matches e ip"
  with p have c: "Contains p (Unmap ip)" by (simp add: entry_matches_def)
  from m obtain a z where a: "p_addr p = V6 a z" "drop_bit 32 a = 0xffff"
    by (auto simp: Is4In6_def split: addr.splits)
  with c obtain b where b: "Unmap ip = V6 b []"
    using Contains_family by fastforce
  obtain k where k: "p_bits p = 96 + k" "k \<le> 32" using n le_Suc_ex [OF n(1)] by auto
  from c a b have "drop_bit (128 - p_bits p) a = drop_bit (128 - p_bits p) b"
    by (simp add: Contains_def drop_bit_xor word_xor_eq_0)
  then have "drop_bit (p_bits p - 96) (drop_bit (128 - p_bits p) a)
      = drop_bit (p_bits p - 96) (drop_bit (128 - p_bits p) b)" by simp
  then have "drop_bit 32 b = 0xffff" using a(2) k by (simp add: drop_bit_drop_bit)
  then have "Is4In6 (Unmap ip)" using b by (simp add: Is4In6_def)
  then show False by simp
qed

section \<open>Tokens\<close>

text \<open>\<open>RandToken\<close>: the hexadecimal form of the 16 random bytes it is given.\<close>

definition RandToken :: "bytes \<Rightarrow> string" where
  "RandToken rnd = hex_encode rnd"

definition short_token :: "bytes \<Rightarrow> string" where
  "short_token rnd = take 8 (RandToken rnd)"

lemma length_short_token: "length rnd = 16 \<Longrightarrow> length (short_token rnd) = 8"
  by (simp add: short_token_def RandToken_def)

lemma RandToken_nonempty: "rnd \<noteq> [] \<Longrightarrow> RandToken rnd \<noteq> []"
  by (cases rnd) (simp_all add: RandToken_def hex_encode_def)

lemma short_token_nonempty: "rnd \<noteq> [] \<Longrightarrow> short_token rnd \<noteq> []"
  using RandToken_nonempty [of rnd] by (simp add: short_token_def)

section \<open>The configuration file\<close>

text \<open>The files by path, and the errors of one call of \<open>save\<close>: encoding, writing the temporary
  file (which then holds \<open>io_partial\<close>) and renaming it. \<open>None\<close> is success.\<close>

type_synonym files = "string \<rightharpoonup> string"

datatype cfg_error = NotExist | ReadFailed | BadJSON | IOFailed string

record save_io =
  io_encode :: "cfg_error option"
  io_write :: "cfg_error option"
  io_partial :: string
  io_rename :: "cfg_error option"

definition no_faults :: save_io where
  "no_faults = \<lparr>io_encode = None, io_write = None, io_partial = [], io_rename = None\<rparr>"

definition tmp_path :: "string \<Rightarrow> string" where
  "tmp_path path = path @ ''.tmp''"

definition save :: "save_io \<Rightarrow> string \<Rightarrow> string \<Rightarrow> files \<Rightarrow> files \<times> cfg_error option" where
  "save io path b fs =
     (case io_encode io of
        Some e \<Rightarrow> (fs, Some e)
      | None \<Rightarrow>
          (let tmp = tmp_path path in
           case io_write io of
             Some e \<Rightarrow> (fs(tmp \<mapsto> io_partial io), Some e)
           | None \<Rightarrow>
               (let fs1 = fs(tmp \<mapsto> b @ [CHR 0x0A]) in
                case io_rename io of
                  Some e \<Rightarrow> (fs1, Some e)
                | None \<Rightarrow> (fs1(path := fs1 tmp, tmp := None), None))))"

lemma tmp_path_neq [simp]: "tmp_path path \<noteq> path" "path \<noteq> tmp_path path"
  by (simp_all add: tmp_path_def)

lemma save_error_keeps: "save io path b fs = (fs', Some e) \<Longrightarrow> fs' path = fs path"
  by (auto simp: save_def Let_def split: option.splits)

lemma save_ok_writes: "save io path b fs = (fs', None) \<Longrightarrow> fs' path = Some (b @ [CHR 0x0A])"
  by (auto simp: save_def Let_def split: option.splits)

lemma save_frame: "save io path b fs = (fs', r) \<Longrightarrow> p \<noteq> path \<Longrightarrow> p \<noteq> tmp_path path \<Longrightarrow> fs' p = fs p"
  by (auto simp: save_def Let_def split: option.splits)

section \<open>Loading\<close>

definition default_cfg :: "(nat \<Rightarrow> bytes) \<Rightarrow> server_cfg" where
  "default_cfg rnd =
     \<lparr>TunnelAddr = ''0.0.0.0:7000'', PanelAddr = ''0.0.0.0:7500'',
      Password = short_token (rnd 0), NoAuth = False, PanelPrefix = short_token (rnd 1),
      IPWhitelist = [], Secret = RandToken (rnd 2), NoTLS = False, TLSCert = [], TLSKey = [],
      LogFile = [], NotifyURL = [], NotifyFormat = [], IPBlacklist = [],
      Clients = [\<lparr>cu_Name = ''client1'', cu_Token = RandToken (rnd 3), cu_Note = []\<rparr>],
      Rules = []\<rparr>"

text \<open>
  \<open>LoadServer\<close>. \<open>rd\<close> is an error of \<open>os.ReadFile\<close> other than \<open>NotExist\<close>, \<open>dec\<close> and \<open>enc\<close> the JSON
  codec. For a missing file, \<open>rnd 0\<close> to \<open>rnd 3\<close> are the random bytes of the four generated values
  and \<open>io 0\<close> the faults of the save; for an existing one, \<open>rnd 0\<close> and \<open>io 0\<close> belong to the missing
  secret, \<open>rnd 1\<close> and \<open>io 1\<close> to the missing password. The flag of the result is \<open>generated\<close>.
\<close>

definition LoadServer ::
  "(string \<Rightarrow> server_cfg option) \<Rightarrow> (server_cfg \<Rightarrow> string) \<Rightarrow> (nat \<Rightarrow> save_io) \<Rightarrow> (nat \<Rightarrow> bytes)
     \<Rightarrow> cfg_error option \<Rightarrow> string \<Rightarrow> files \<Rightarrow> (cfg_error + server_cfg \<times> bool) \<times> files" where
  "LoadServer dec enc io rnd rd path fs =
     (case fs path of
        None \<Rightarrow>
          (let cfg = default_cfg rnd in
           case save (io 0) path (enc cfg) fs of
             (fs', Some e) \<Rightarrow> (Inl e, fs')
           | (fs', None) \<Rightarrow> (Inr (cfg, True), fs'))
      | Some b \<Rightarrow>
          (case rd of
             Some e \<Rightarrow> (Inl e, fs)
           | None \<Rightarrow>
               (case dec b of
                  None \<Rightarrow> (Inl BadJSON, fs)
                | Some cfg0 \<Rightarrow>
                    (let cfg1 = (if Secret cfg0 = [] then cfg0\<lparr>Secret := RandToken (rnd 0)\<rparr> else cfg0);
                         (fs1, e1) = (if Secret cfg0 = [] then save (io 0) path (enc cfg1) fs else (fs, None))
                     in case e1 of
                          Some e \<Rightarrow> (Inl e, fs1)
                        | None \<Rightarrow>
                            if \<not> NoAuth cfg1 \<and> Password cfg1 = [] then
                              (let cfg2 = cfg1\<lparr>Password := short_token (rnd 1)\<rparr> in
                               case save (io 1) path (enc cfg2) fs1 of
                                 (fs2, Some e) \<Rightarrow> (Inl e, fs2)
                               | (fs2, None) \<Rightarrow> (Inr (cfg2, True), fs2))
                            else (Inr (cfg1, False), fs1)))))"

definition placeholder_client_cfg :: client_config where
  "placeholder_client_cfg =
     \<lparr>ServerAddr = ''1.2.3.4:7000'', cc_Token = [CHR 0xE4, CHR 0xBB, CHR 0x8E] @ ''server'' @
        [CHR 0xE9, CHR 0x9D, CHR 0xA2, CHR 0xE6, CHR 0x9D, CHR 0xBF,
         CHR 0xE8, CHR 0x8E, CHR 0xB7, CHR 0xE5, CHR 0x8F, CHR 0x96],
       cc_NoTLS = False, TLSFingerprint = [], cc_LogFile = [], Socks5Listen = []\<rparr>"

definition LoadClient ::
  "(string \<Rightarrow> client_config option) \<Rightarrow> (client_config \<Rightarrow> string) \<Rightarrow> save_io
     \<Rightarrow> cfg_error option \<Rightarrow> string \<Rightarrow> files \<Rightarrow> (cfg_error + client_config) \<times> files" where
  "LoadClient dec enc io rd path fs =
     (case fs path of
        None \<Rightarrow> (Inl NotExist, fst (save io path (enc placeholder_client_cfg) fs))
      | Some b \<Rightarrow>
          (case rd of
             Some e \<Rightarrow> (Inl e, fs)
           | None \<Rightarrow> (case dec b of None \<Rightarrow> (Inl BadJSON, fs) | Some cfg \<Rightarrow> (Inr cfg, fs))))"

definition random_ok :: "(nat \<Rightarrow> bytes) \<Rightarrow> bool" where
  "random_ok rnd \<longleftrightarrow> (\<forall>k. length (rnd k) = 16)"

lemma random_ok_nonempty: "random_ok rnd \<Longrightarrow> rnd k \<noteq> []"
  by (auto simp: random_ok_def dest: spec [of _ k])

lemma LoadServer_secret:
  "LoadServer dec enc io rnd rd path fs = (Inr (cfg, g), fs') \<Longrightarrow> random_ok rnd \<Longrightarrow> Secret cfg \<noteq> []"
  by (auto simp: LoadServer_def Let_def default_cfg_def random_ok_nonempty RandToken_nonempty
      split: option.splits prod.splits if_splits)

lemma LoadServer_password:
  "LoadServer dec enc io rnd rd path fs = (Inr (cfg, g), fs') \<Longrightarrow> random_ok rnd \<Longrightarrow>
     NoAuth cfg \<or> Password cfg \<noteq> []"
  by (auto simp: LoadServer_def Let_def default_cfg_def random_ok_nonempty short_token_nonempty
      split: option.splits prod.splits if_splits)

lemma LoadServer_on_disk:
  assumes "LoadServer dec enc io rnd rd path fs = (Inr (cfg, g), fs')"
    and rt: "dec (enc cfg @ [CHR 0x0A]) = Some cfg"
  shows "\<exists>b. fs' path = Some b \<and> dec b = Some cfg"
  using assms
  by (auto simp: LoadServer_def Let_def dest!: save_ok_writes split: option.splits prod.splits if_splits)

lemma LoadServer_stable:
  assumes "fs path = Some b" and "dec b = Some cfg" and "Secret cfg \<noteq> []"
    and "NoAuth cfg \<or> Password cfg \<noteq> []"
  shows "LoadServer dec enc io rnd None path fs = (Inr (cfg, False), fs)"
  using assms by (auto simp: LoadServer_def)

lemma LoadServer_error_keeps:
  assumes "LoadServer dec enc io rnd rd path fs = (Inl e, fs')"
    and "\<forall>b. fs path = Some b \<longrightarrow> (\<forall>c. dec b = Some c \<longrightarrow> Secret c \<noteq> [])"
  shows "fs' path = fs path"
  using assms
  by (auto simp: LoadServer_def Let_def dest!: save_error_keeps split: option.splits prod.splits if_splits)

end
