(* ===== verification/LogBuf.thy ===== *)
theory LogBuf
  imports Config
begin

text \<open>
  Package \<open>logbuf\<close>: the ring of log lines shown by the panel (\<open>logbuf/logbuf.go\<close>) and the log
  file rotated by size (\<open>logbuf/file.go\<close>). The ring refines an unbounded log: it holds the last
  \<open>max\<close> non-empty lines of everything written. The rotator works on the files by path.
\<close>

section \<open>The ring\<close>

record ring =
  lines :: "string list"
  rmax :: nat

definition New_ring :: "nat \<Rightarrow> ring" where
  "New_ring m = \<lparr>lines = [], rmax = m\<rparr>"

definition ring_add :: "ring \<Rightarrow> string \<Rightarrow> ring" where
  "ring_add r line =
     (if line = [] then r
      else (let ls = lines r @ [line] in
            r\<lparr>lines := (if length ls > rmax r then drop (length ls - rmax r) ls else ls)\<rparr>))"

definition ring_Write :: "string \<Rightarrow> ring \<Rightarrow> ring" where
  "ring_Write p r = foldl ring_add r (split_on CHR 0x0A (TrimRight CHR 0x0A p))"

definition Tail :: "int \<Rightarrow> ring \<Rightarrow> string list" where
  "Tail n r =
     (let len = int (length (lines r)); k = (if n \<le> 0 \<or> n > len then len else n)
      in drop (nat (len - k)) (lines r))"

text \<open>The abstract log: every non-empty line of every write, in order.\<close>

definition log_lines :: "string \<Rightarrow> string list" where
  "log_lines p = filter (\<lambda>l. l \<noteq> []) (split_on CHR 0x0A (TrimRight CHR 0x0A p))"

definition ring_holds :: "ring \<Rightarrow> string list \<Rightarrow> bool" where
  "ring_holds r log \<longleftrightarrow> lines r = take_last (rmax r) log"

lemma ring_add_lines:
  "lines (ring_add r l) = (if l = [] then lines r else take_last (rmax r) (lines r @ [l]))"
  by (simp add: ring_add_def Let_def take_last_def)

lemma rmax_ring_add [simp]: "rmax (ring_add r l) = rmax r"
  by (simp add: ring_add_def Let_def)

lemma ring_add_holds: "ring_holds r log \<Longrightarrow> ring_holds (ring_add r l) (log @ filter (\<lambda>x. x \<noteq> []) [l])"
  by (simp add: ring_holds_def ring_add_lines take_last_snoc)

lemma ring_adds_holds:
  "ring_holds r log \<Longrightarrow> ring_holds (foldl ring_add r ls) (log @ filter (\<lambda>x. x \<noteq> []) ls)"
proof (induction ls arbitrary: r log)
  case Nil
  then show ?case by simp
next
  case (Cons l ls)
  from Cons.IH [OF ring_add_holds [OF Cons.prems, of l]] show ?case by (auto split: if_splits)
qed

lemma ring_Write_holds: "ring_holds r log \<Longrightarrow> ring_holds (ring_Write p r) (log @ log_lines p)"
  by (simp add: ring_Write_def log_lines_def ring_adds_holds)

lemma New_ring_holds: "ring_holds (New_ring m) []"
  by (simp add: New_ring_def ring_holds_def)

lemma rmax_ring_Write [simp]: "rmax (ring_Write p r) = rmax r"
proof -
  have "rmax (foldl ring_add r ls) = rmax r" for ls
    by (induction ls arbitrary: r) simp_all
  then show ?thesis by (simp add: ring_Write_def)
qed

lemma ring_Writes_holds:
  "ring_holds r log \<Longrightarrow> ring_holds (foldl (\<lambda>r p. ring_Write p r) r ps) (log @ concat (map log_lines ps))"
proof (induction ps arbitrary: r log)
  case Nil
  then show ?case by simp
next
  case (Cons p ps)
  from Cons.IH [OF ring_Write_holds [OF Cons.prems, of p]] show ?case by simp
qed

lemma rmax_Writes [simp]: "rmax (foldl (\<lambda>r p. ring_Write p r) r ps) = rmax r"
  by (induction ps arbitrary: r) simp_all

lemma Tail_eq: "Tail n r = (if n \<le> 0 then lines r else take_last (nat n) (lines r))"
  by (auto simp: Tail_def Let_def take_last_def nat_diff_distrib)

lemma Tail_holds:
  assumes "ring_holds r log" and "0 < n"
  shows "Tail n r = take_last (min (nat n) (rmax r)) log"
proof (cases "nat n \<le> rmax r")
  case True
  with assms show ?thesis by (simp add: Tail_eq ring_holds_def take_last_take_last)
next
  case False
  with assms show ?thesis by (simp add: Tail_eq ring_holds_def)
qed

section \<open>The rotated file\<close>

record rotator =
  r_path :: string
  r_open :: bool
  r_size :: int
  r_max :: int
  r_keep :: nat

definition NewRotator :: "string \<Rightarrow> int \<Rightarrow> nat \<Rightarrow> rotator" where
  "NewRotator path maxMB keep =
     \<lparr>r_path = path, r_open = False, r_size = 0, r_max = maxMB * 1048576, r_keep = keep\<rparr>"

datatype file_error = OpenFailed | InvalidFile | ShortWrite

definition rename :: "string \<Rightarrow> string \<Rightarrow> files \<Rightarrow> files" where
  "rename a b fs = (case fs a of None \<Rightarrow> fs | Some c \<Rightarrow> (fs(a := None))(b \<mapsto> c))"

definition numbered :: "string \<Rightarrow> nat \<Rightarrow> string" where
  "numbered path i = path @ ''.'' @ Itoa (int i)"

fun shift_files :: "string \<Rightarrow> nat \<Rightarrow> files \<Rightarrow> files" where
  "shift_files path 0 fs = fs"
| "shift_files path (Suc i) fs =
     shift_files path i (rename (numbered path (Suc i)) (numbered path (Suc (Suc i))) fs)"

definition ensure :: "bool \<Rightarrow> rotator \<times> files \<Rightarrow> (rotator \<times> files) \<times> file_error option" where
  "ensure can_open rf =
     (let (r, fs) = rf in
      if r_open r then ((r, fs), None)
      else if \<not> can_open then ((r, fs), Some OpenFailed)
      else (let c = (case fs (r_path r) of None \<Rightarrow> [] | Some c \<Rightarrow> c) in
            ((r\<lparr>r_open := True, r_size := int (length c)\<rparr>, fs(r_path r \<mapsto> c)), None)))"

definition rotate :: "rotator \<times> files \<Rightarrow> rotator \<times> files" where
  "rotate rf =
     (let (r, fs) = rf in
      (r\<lparr>r_open := False, r_size := 0\<rparr>,
       rename (r_path r) (numbered (r_path r) 1) (shift_files (r_path r) (r_keep r - 1) fs)))"

text \<open>
  \<open>(*os.File).Write\<close>: on the nil file \<open>rotate\<close> leaves behind it writes nothing and returns
  \<open>os.ErrInvalid\<close>; on an open file it appends the first \<open>n\<close> bytes, \<open>n\<close> being what the system
  accepts.
\<close>

definition file_Write :: "nat \<Rightarrow> string \<Rightarrow> rotator \<times> files \<Rightarrow> files \<times> nat \<times> file_error option" where
  "file_Write n p rf =
     (let (r, fs) = rf in
      if \<not> r_open r then (fs, 0, Some InvalidFile)
      else (let w = take n p; c = (case fs (r_path r) of None \<Rightarrow> [] | Some c \<Rightarrow> c) in
            (fs(r_path r \<mapsto> c @ w), length w, if length w < length p then Some ShortWrite else None)))"

definition rot_Write ::
  "bool \<Rightarrow> nat \<Rightarrow> string \<Rightarrow> rotator \<times> files \<Rightarrow> (rotator \<times> files) \<times> nat \<times> file_error option" where
  "rot_Write can_open n p rf =
     (case ensure can_open rf of
        (rf1, Some e) \<Rightarrow> (rf1, 0, Some e)
      | (rf1, None) \<Rightarrow>
          (let rf2 = (if r_size (fst rf1) + int (length p) > r_max (fst rf1) then rotate rf1 else rf1);
               (fs3, k, e) = file_Write n p rf2
           in (((fst rf2)\<lparr>r_size := r_size (fst rf2) + int k\<rparr>, fs3), k, e)))"

lemma Itoa_inj: "Itoa (int i) = Itoa (int j) \<Longrightarrow> i = j"
  by (simp add: Itoa_def) (metis read_show_nat)

lemma numbered_inj [simp]: "numbered p i = numbered p j \<longleftrightarrow> i = j"
  by (auto simp: numbered_def dest: Itoa_inj)

lemma numbered_neq [simp]: "numbered p i \<noteq> p" "p \<noteq> numbered p i"
  by (simp_all add: numbered_def)

lemma shift_files_other:
  "\<forall>i. 1 \<le> i \<and> i \<le> Suc n \<longrightarrow> q \<noteq> numbered path i \<Longrightarrow> shift_files path n fs q = fs q"
proof (induction n arbitrary: fs)
  case 0
  then show ?case by simp
next
  case (Suc n)
  then show ?case by (simp add: rename_def split: option.splits)
qed

lemma shift_files_moves:
  "1 \<le> i \<Longrightarrow> i \<le> n \<Longrightarrow> fs (numbered path i) = Some c \<Longrightarrow>
     shift_files path n fs (numbered path (Suc i)) = Some c"
proof (induction n arbitrary: fs)
  case 0
  then show ?case by simp
next
  case (Suc n)
  show ?case
  proof (cases "i = Suc n")
    case True
    with Suc.prems show ?thesis
      by (simp add: rename_def shift_files_other)
  next
    case False
    with Suc show ?thesis by (simp add: rename_def split: option.splits)
  qed
qed

text \<open>The rotator's view of its open file agrees with the file system.\<close>

definition rot_inv :: "rotator \<times> files \<Rightarrow> bool" where
  "rot_inv rf \<longleftrightarrow>
     (r_open (fst rf) \<longrightarrow> (\<exists>c. snd rf (r_path (fst rf)) = Some c \<and> r_size (fst rf) = int (length c)))"

definition content :: "rotator \<times> files \<Rightarrow> string" where
  "content rf = (case snd rf (r_path (fst rf)) of None \<Rightarrow> [] | Some c \<Rightarrow> c)"

lemma ensure_ok:
  assumes "ensure co rf = (rf1, None)" and "rot_inv rf"
  shows "r_open (fst rf1) \<and> r_path (fst rf1) = r_path (fst rf) \<and> r_max (fst rf1) = r_max (fst rf)
    \<and> r_keep (fst rf1) = r_keep (fst rf) \<and> snd rf1 (r_path (fst rf)) = Some (content rf)
    \<and> r_size (fst rf1) = int (length (content rf))
    \<and> (\<forall>q. q \<noteq> r_path (fst rf) \<longrightarrow> snd rf1 q = snd rf q)"
  using assms
  by (cases rf) (auto simp: ensure_def Let_def content_def rot_inv_def split: if_splits option.splits)

lemma rot_Write_inv: "rot_inv rf \<Longrightarrow> rot_Write co n p rf = (rf', k, e) \<Longrightarrow> rot_inv rf'"
proof -
  assume inv: "rot_inv rf" and w: "rot_Write co n p rf = (rf', k, e)"
  obtain rf1 e1 where en: "ensure co rf = (rf1, e1)" by fastforce
  show "rot_inv rf'"
  proof (cases e1)
    case (Some x)
    with en w inv show ?thesis
      by (cases rf) (auto simp: rot_Write_def ensure_def Let_def rot_inv_def split: if_splits)
  next
    case None
    with en have "ensure co rf = (rf1, None)" by simp
    from ensure_ok [OF this inv] w None en show ?thesis
      by (cases rf1)
         (auto simp: rot_Write_def rot_inv_def rotate_def file_Write_def Let_def split: if_splits)
  qed
qed

lemma rot_Write_success:
  assumes inv: "rot_inv rf" and w: "rot_Write co n p rf = (rf', k, None)"
  shows "content rf' = content rf @ p \<and> k = length p \<and> int (length (content rf')) \<le> r_max (fst rf)"
proof -
  obtain rf1 e1 where en: "ensure co rf = (rf1, e1)" by fastforce
  with w have None: "e1 = None" by (cases e1) (auto simp: rot_Write_def)
  with en have "ensure co rf = (rf1, None)" by simp
  from ensure_ok [OF this inv] w None en show ?thesis
    by (cases rf1; cases rf)
       (auto simp: rot_Write_def rotate_def file_Write_def Let_def content_def not_less split: if_splits)
qed

lemma rot_Write_overflow:
  assumes inv: "rot_inv (r, fs)" and op: "co \<or> r_open r"
    and full: "int (length (content (r, fs))) + int (length p) > r_max r"
    and w: "rot_Write co n p (r, fs) = ((r', fs'), k, e)"
  shows "e = Some InvalidFile \<and> k = 0 \<and> \<not> r_open r' \<and> fs' (r_path r) = None
    \<and> fs' (numbered (r_path r) 1) = Some (content (r, fs))
    \<and> (\<forall>i c. 1 \<le> i \<longrightarrow> i < r_keep r \<longrightarrow> fs (numbered (r_path r) i) = Some c
           \<longrightarrow> fs' (numbered (r_path r) (Suc i)) = Some c)"
proof -
  obtain r1 fs1 e1 where en: "ensure co (r, fs) = ((r1, fs1), e1)" by (metis prod.exhaust)
  with op have e1: "e1 = None" by (auto simp: ensure_def Let_def split: if_splits)
  with en have "ensure co (r, fs) = ((r1, fs1), None)" by simp
  note ok = ensure_ok [OF this inv, simplified]
  let ?p = "r_path r"
  let ?sh = "shift_files ?p (r_keep r - 1) fs1"
  have f: "fs' = rename ?p (numbered ?p 1) ?sh" "e = Some InvalidFile" "k = 0" "\<not> r_open r'"
    using w en e1 ok full
    by (auto simp: rot_Write_def rotate_def file_Write_def Let_def)
  have "?sh ?p = Some (content (r, fs))" using ok by (simp add: shift_files_other)
  moreover have "?sh (numbered ?p (Suc i)) = Some c"
    if "1 \<le> i" "i < r_keep r" "fs (numbered ?p i) = Some c" for i c
    using that ok by (intro shift_files_moves) auto
  ultimately show ?thesis using f by (auto simp: rename_def)
qed

end
