(* ===== verification/Limiter.thy ===== *)
theory Limiter
  imports Complex_Main Prelude
begin

text \<open>
  The shared token bucket of a rule (\<open>relay/limiter.go\<close>). Times are nanoseconds; the bucket's
  \<open>float64\<close> fields are real numbers, so rounding is not modelled. One iteration of the loop of
  \<open>Wait\<close>, which runs under the mutex, is \<open>wait_step\<close>: several goroutines share a bucket, and an
  interleaving of their calls is a sequence of such steps. \<open>Wait\<close> is one uncontended call; it
  consumes one clock reading per iteration and is \<open>None\<close> while it still waits.
\<close>

record limiter =
  rate :: real
  tokens :: real
  last_ns :: int

definition NewLimiter :: "int \<Rightarrow> int \<Rightarrow> limiter option" where
  "NewLimiter mbps now =
     (if mbps \<le> 0 then None
      else Some \<lparr>rate = of_int mbps * 1024 * 1024 / 8, tokens = of_int mbps * 1024 * 1024 / 8,
                last_ns = now\<rparr>)"

definition seconds :: "int \<Rightarrow> real" where
  "seconds ns = of_int ns / 1000000000"

definition wait_step :: "int \<Rightarrow> int \<Rightarrow> limiter \<Rightarrow> limiter \<times> bool" where
  "wait_step now n l =
     (let t0 = tokens l + seconds (now - last_ns l) * rate l;
          t = (if t0 > rate l then rate l else t0)
      in if t \<ge> of_int n then (l\<lparr>tokens := t - of_int n, last_ns := now\<rparr>, True)
         else (l\<lparr>tokens := t, last_ns := now\<rparr>, False))"

definition sleep_ns :: "int \<Rightarrow> limiter \<Rightarrow> int" where
  "sleep_ns n l = \<lfloor>(of_int n - tokens l) / rate l * 1000000000\<rfloor>"

fun Wait :: "int list \<Rightarrow> int \<Rightarrow> limiter option \<Rightarrow> (limiter option \<times> int list) option" where
  "Wait clock n None = Some (None, clock)"
| "Wait clock n (Some l) =
     (if n \<le> 0 then Some (Some l, clock)
      else case clock of
             [] \<Rightarrow> None
           | now # later \<Rightarrow>
               (case wait_step now n l of
                  (l', True) \<Rightarrow> Some (Some l', later)
                | (l', False) \<Rightarrow> Wait later n (Some l')))"

text \<open>
  The readings a call can see: time does not run backwards, \<open>time.Sleep d\<close> lasts at least \<open>d\<close>,
  and between two iterations the clock moves.
\<close>

fun paced :: "int \<Rightarrow> limiter \<Rightarrow> int list \<Rightarrow> bool" where
  "paced n l [] = True"
| "paced n l (now # later) =
     (last_ns l \<le> now \<and>
      (case wait_step now n l of
         (l', True) \<Rightarrow> True
       | (l', False) \<Rightarrow>
           (case later of [] \<Rightarrow> True | t # _ \<Rightarrow> now < t \<and> now + sleep_ns n l' \<le> t) \<and> paced n l' later))"

definition bucket_ok :: "limiter \<Rightarrow> bool" where
  "bucket_ok l \<longleftrightarrow> 0 < rate l \<and> 0 \<le> tokens l \<and> tokens l \<le> rate l"

lemma NewLimiter_None_iff: "NewLimiter mbps now = None \<longleftrightarrow> mbps \<le> 0"
  by (simp add: NewLimiter_def)

lemma NewLimiter_ok: "NewLimiter mbps now = Some l \<Longrightarrow> bucket_ok l \<and> 131072 \<le> rate l"
  by (auto simp: NewLimiter_def bucket_ok_def split: if_splits)

lemma rate_wait_step [simp]: "rate (fst (wait_step now n l)) = rate l"
  by (simp add: wait_step_def Let_def)

lemma last_wait_step [simp]: "last_ns (fst (wait_step now n l)) = now"
  by (simp add: wait_step_def Let_def)

lemma wait_step_ok:
  "bucket_ok l \<Longrightarrow> last_ns l \<le> now \<Longrightarrow> 0 \<le> n \<Longrightarrow> bucket_ok (fst (wait_step now n l))"
  by (auto simp: wait_step_def bucket_ok_def Let_def seconds_def)

text \<open>The potential: granted bytes plus remaining tokens grow at most with the elapsed time.\<close>

lemma wait_step_potential:
  "tokens (fst (wait_step now n l)) + (if snd (wait_step now n l) then of_int n else 0)
     \<le> tokens l + seconds (now - last_ns l) * rate l"
  by (auto simp: wait_step_def Let_def)

fun run_steps :: "(int \<times> int) list \<Rightarrow> limiter \<Rightarrow> limiter \<times> int" where
  "run_steps [] l = (l, 0)"
| "run_steps ((now, n) # es) l =
     (let (l1, granted) = wait_step now n l; (l2, sent) = run_steps es l1
      in (l2, (if granted then n else 0) + sent))"

lemma seconds_add: "seconds (a + b) = seconds a + seconds b"
  by (simp add: seconds_def add_divide_distrib)

lemma run_steps_potential:
  "run_steps es l = (l', sent) \<Longrightarrow>
     rate l' = rate l \<and> tokens l' + of_int sent \<le> tokens l + seconds (last_ns l' - last_ns l) * rate l"
proof (induction es arbitrary: l l' sent)
  case Nil
  then show ?case by (simp add: seconds_def)
next
  case (Cons e es)
  obtain now n where e: "e = (now, n)" by fastforce
  obtain l1 g where s: "wait_step now n l = (l1, g)" by fastforce
  obtain l2 tot where r: "run_steps es l1 = (l2, tot)" by fastforce
  have l1: "rate l1 = rate l" "last_ns l1 = now" using s by (metis fst_conv rate_wait_step last_wait_step)+
  have pot: "tokens l1 + (if g then of_int n else 0) \<le> tokens l + seconds (now - last_ns l) * rate l"
    using wait_step_potential [of now n l] s by simp
  have IH: "rate l2 = rate l1" "tokens l2 + of_int tot \<le> tokens l1 + seconds (last_ns l2 - now) * rate l"
    using Cons.IH [OF r] l1 by auto
  have "seconds (last_ns l2 - last_ns l) = seconds (last_ns l2 - now) + seconds (now - last_ns l)"
    by (simp add: seconds_add [symmetric])
  then have "seconds (last_ns l2 - last_ns l) * rate l
      = seconds (last_ns l2 - now) * rate l + seconds (now - last_ns l) * rate l"
    by (simp add: distrib_right)
  with pot IH l1 Cons.prems e s r show ?case by auto
qed

lemma run_steps_ok:
  "bucket_ok l \<Longrightarrow> sorted (last_ns l # map fst es) \<Longrightarrow> \<forall>(t, n) \<in> set es. 0 \<le> n \<Longrightarrow>
     bucket_ok (fst (run_steps es l))"
proof (induction es arbitrary: l)
  case Nil
  then show ?case by simp
next
  case (Cons e es)
  obtain now n where e: "e = (now, n)" by fastforce
  obtain l1 g where s: "wait_step now n l = (l1, g)" by fastforce
  have "bucket_ok l1" "last_ns l1 = now"
    using wait_step_ok [of l now n] last_wait_step [of now n l] Cons.prems e s by auto
  with Cons.IH [of l1] Cons.prems e s show ?case
    by (auto simp: Let_def split: prod.splits)
qed

section \<open>Termination of \<open>Wait\<close>\<close>

lemma wait_step_False:
  assumes "wait_step now n l = (l', False)" and "of_int n \<le> rate l"
  shows "tokens l' = tokens l + seconds (now - last_ns l) * rate l" and "tokens l' < of_int n"
    and "rate l' = rate l" and "last_ns l' = now"
  using assms by (auto simp: wait_step_def Let_def split: if_splits)

lemma slept_enough:
  assumes "0 < rate l" and "sleep_ns n l \<le> d"
  shows "of_int n \<le> tokens l + seconds (d + 1) * rate l"
proof -
  let ?x = "(of_int n - tokens l) / rate l * 1000000000"
  have "?x < of_int (sleep_ns n l) + 1" unfolding sleep_ns_def by linarith
  also have "\<dots> \<le> of_int (d + 1)" using assms(2) by simp
  finally have "(of_int n - tokens l) / rate l \<le> seconds (d + 1)"
    by (simp add: seconds_def field_simps)
  with assms(1) show ?thesis by (simp add: pos_divide_le_eq)
qed

lemma Wait_three:
  assumes ok: "bucket_ok l" and n: "of_int n \<le> rate l" and p: "paced n l [t1, t2, t3]"
  shows "Wait [t1, t2, t3] n (Some l) \<noteq> None"
proof (rule ccontr)
  assume "\<not> Wait [t1, t2, t3] n (Some l) \<noteq> None"
  then obtain l1 l2 l3 where w: "wait_step t1 n l = (l1, False)" "wait_step t2 n l1 = (l2, False)"
    "wait_step t3 n l2 = (l3, False)"
    by (auto split: if_splits prod.splits bool.splits)
  have r: "0 < rate l" using ok by (simp add: bucket_ok_def)
  note f1 = wait_step_False [OF w(1) n]
  have n1: "of_int n \<le> rate l1" using n f1 by simp
  note f2 = wait_step_False [OF w(2) n1]
  have n2: "of_int n \<le> rate l2" using n1 f2 by simp
  note f3 = wait_step_False [OF w(3) n2]
  from p w have t: "t1 + sleep_ns n l1 \<le> t2" "t2 < t3" by auto
  have "of_int n \<le> tokens l1 + seconds (t2 - t1 + 1) * rate l1"
    using r f1 t by (intro slept_enough) auto
  also have "seconds (t2 - t1 + 1) = seconds (t2 - t1) + seconds 1" by (simp add: seconds_add)
  finally have "of_int n \<le> tokens l2 + seconds 1 * rate l"
    using f1 f2 by (simp add: distrib_right)
  also have "seconds 1 * rate l \<le> seconds (t3 - t2) * rate l"
    using r t by (intro mult_right_mono) (auto simp: seconds_def)
  finally have "of_int n \<le> tokens l3" using f1 f2 f3 by simp
  with f3 show False by simp
qed

lemma Wait_oversized:
  assumes "0 < n" and "rate l < of_int n"
  shows "Wait clock n (Some l) = None"
  using assms
proof (induction clock arbitrary: l)
  case Nil
  then show ?case by simp
next
  case (Cons t clock)
  obtain l' g where s: "wait_step t n l = (l', g)" by fastforce
  with Cons.prems have "\<not> g" by (auto simp: wait_step_def Let_def split: if_splits)
  moreover have "rate l' = rate l" using s by (metis fst_conv rate_wait_step)
  ultimately show ?case using Cons s by simp
qed

end
