(* ===== verification/Frames.thy ===== *)
theory Frames
  imports Config
begin

text \<open>
  Package \<open>proto\<close> (\<open>proto/proto.go\<close>): the frames of the tunnel. A JSON frame is a 2-byte
  big-endian length and a body; a UDP frame a 4-byte connection id, a 2-byte length and the
  payload. Readers work on the bytes still to come of a stream: they return the value and the
  rest, or an error. The locale \<open>codec\<close> states what both formats promise, a self-delimiting
  encoding, and derives that a whole sequence of frames is read back in order.
\<close>

section \<open>Messages\<close>

record auth_request =
  ar_Token :: string
  ar_Host :: string
  ar_Version :: string

record auth_reply =
  rep_OK :: bool
  rep_Message :: string

record stream_header =
  h_ID :: string
  h_Target :: string
  h_UDP :: bool
  h_Visitor :: string
  h_DstAddr :: string
  h_ProxyProto :: int

record udp_packet =
  ConnID :: "32 word"
  Payload :: bytes

definition ControlID :: string where
  "ControlID = ''__control__''"

record reverse_rule =
  rr_ID :: string
  rr_Name :: string
  rr_Proto :: string
  rr_Listen :: int
  rr_Target :: string
  rr_AllowFrom :: "string list"
  rr_MaxMbps :: int
  rr_MaxConns :: int
  rr_IdleMin :: int
  rr_ProxyProto :: int

record reverse_status =
  st_ID :: string
  st_OK :: bool
  st_Err :: string

section \<open>Big-endian integers\<close>

definition put_u16 :: "nat \<Rightarrow> bytes" where
  "put_u16 n = [of_nat (n div 256), of_nat n]"

definition put_u32 :: "32 word \<Rightarrow> bytes" where
  "put_u32 w = [ucast (drop_bit 24 w), ucast (drop_bit 16 w), ucast (drop_bit 8 w), ucast w]"

definition get_u16 :: "bytes \<Rightarrow> nat" where
  "get_u16 bs = (case bs of a # b # _ \<Rightarrow> unat a * 256 + unat b | _ \<Rightarrow> 0)"

definition get_u32 :: "bytes \<Rightarrow> 32 word" where
  "get_u32 bs =
     (case bs of
        a # b # c # d # _ \<Rightarrow>
          push_bit 24 (ucast a) OR push_bit 16 (ucast b) OR push_bit 8 (ucast c) OR ucast d
      | _ \<Rightarrow> 0)"

lemma length_put_u16 [simp]: "length (put_u16 n) = 2"
  by (simp add: put_u16_def)

lemma length_put_u32 [simp]: "length (put_u32 n) = 4"
  by (simp add: put_u32_def)

lemma get_put_u16: "get_u16 (put_u16 n) = n mod 65536"
proof -
  have "(n div 256) mod 256 * 256 + n mod 256 = n mod 65536"
    using mod_mult2_eq [of n 256 256] by simp
  then show ?thesis by (simp add: get_u16_def put_u16_def unat_of_nat)
qed

lemma get_put_u32 [simp]: "get_u32 (put_u32 w) = w"
proof (rule bit_eqI)
  fix n
  assume "possible_bit TYPE(32 word) n"
  then have "n < 32" by simp
  then consider "n < 8" | "8 \<le> n" "n < 16" | "16 \<le> n" "n < 24" | "24 \<le> n" "n < 32" by linarith
  then show "bit (get_u32 (put_u32 w)) n \<longleftrightarrow> bit w n"
    by cases (auto simp: get_u32_def put_u32_def bit_simps)
qed

lemma put_get_u32: "put_u32 (get_u32 [a, b, c, d]) = [a, b, c, d]"
proof -
  let ?w = "push_bit 24 (ucast a) OR push_bit 16 (ucast b) OR push_bit 8 (ucast c) OR ucast d :: 32 word"
  have "ucast (drop_bit 24 ?w) = a" "ucast (drop_bit 16 ?w) = b" "ucast (drop_bit 8 ?w) = c" "ucast ?w = d"
    by (rule bit_word_eqI; auto simp: bit_simps dest: bit_imp_le_length)+
  then show ?thesis by (simp add: put_u32_def get_u32_def)
qed

lemma put_get_u16: "put_u16 (get_u16 [a, b]) = [a, b]"
proof -
  have "(unat a * 256 + unat b) div 256 = unat a" using unat_byte_less [of b] by simp
  moreover have "(of_nat (unat a * 256 + unat b) :: byte) = b"
    by (rule word_unat_eq_iff [THEN iffD2]) (use unat_byte_less [of b] in \<open>simp only: unat_of_nat, simp\<close>)
  ultimately show ?thesis by (simp add: put_u16_def get_u16_def del: of_nat_add of_nat_mult)
qed

lemma get_u16_bound: "get_u16 [a, b] \<le> 65535"
  using unat_byte_less [of a] unat_byte_less [of b] unfolding get_u16_def list.case by linarith

section \<open>Frames\<close>

datatype frame_error = EOF | UnexpectedEOF | TooLarge | Malformed | WriteFailed

text \<open>\<open>io.ReadFull\<close>: all \<open>n\<close> bytes, or an error; \<open>EOF\<close> only when there is none.\<close>

definition ReadFull :: "nat \<Rightarrow> bytes \<Rightarrow> frame_error + bytes \<times> bytes" where
  "ReadFull n s =
     (if n \<le> length s then Inr (take n s, drop n s)
      else if s = [] then Inl EOF else Inl UnexpectedEOF)"

definition maxFrame :: nat where
  "maxFrame = 65536"

text \<open>\<open>WriteJSONFrame\<close>: \<open>enc v\<close> is \<open>json.Marshal\<close>, the result the bytes of its single \<open>Write\<close>.\<close>

definition WriteJSONFrame :: "('v \<Rightarrow> bytes option) \<Rightarrow> 'v \<Rightarrow> frame_error + bytes" where
  "WriteJSONFrame enc v =
     (case enc v of
        None \<Rightarrow> Inl Malformed
      | Some b \<Rightarrow>
          if length b > maxFrame then Inl TooLarge
          else Inr (put_u16 (length b) @ b))"

definition ReadJSONFrame :: "(bytes \<Rightarrow> 'v option) \<Rightarrow> bytes \<Rightarrow> frame_error + 'v \<times> bytes" where
  "ReadJSONFrame dec s =
     (case ReadFull 2 s of
        Inl e \<Rightarrow> Inl e
      | Inr (head, s1) \<Rightarrow>
          (let n = get_u16 head in
           if n = 0 then Inl UnexpectedEOF
           else case ReadFull n s1 of
                  Inl e \<Rightarrow> Inl e
                | Inr (body, s2) \<Rightarrow>
                    (case dec body of None \<Rightarrow> Inl Malformed | Some v \<Rightarrow> Inr (v, s2))))"

definition WriteUDPPacket :: "udp_packet \<Rightarrow> frame_error + bytes" where
  "WriteUDPPacket p =
     (if length (Payload p) > 0xFFFF then Inl TooLarge
      else Inr (put_u32 (ConnID p) @ put_u16 (length (Payload p)) @ Payload p))"

definition ReadUDPPacket :: "bytes \<Rightarrow> frame_error + udp_packet \<times> bytes" where
  "ReadUDPPacket s =
     (case ReadFull 6 s of
        Inl e \<Rightarrow> Inl e
      | Inr (head, s1) \<Rightarrow>
          (case ReadFull (get_u16 (drop 4 head)) s1 of
             Inl e \<Rightarrow> Inl e
           | Inr (body, s2) \<Rightarrow> Inr (\<lparr>ConnID = get_u32 (take 4 head), Payload = body\<rparr>, s2)))"

lemma ReadFull_append [simp]: "ReadFull (length a) (a @ b) = Inr (a, b)"
  by (simp add: ReadFull_def)

lemma ReadFull_append_n: "length a = n \<Longrightarrow> ReadFull n (a @ b) = Inr (a, b)"
  by (auto simp: ReadFull_def)

lemma ReadFull_Inr: "ReadFull n s = Inr (a, b) \<longleftrightarrow> s = a @ b \<and> length a = n"
  by (auto simp: ReadFull_def)

subsection \<open>The contract of a frame format\<close>

text \<open>
  Writing a sequence of frames, and the receive loop that every reader of a stream runs
  (\<open>setupControl\<close>, \<open>handleControl\<close>, the UDP relays): read frames until the stream reports an
  error. \<open>fuel\<close> bounds the number of reads; one more than the number of frames is enough.
\<close>

fun send_all :: "('v \<Rightarrow> frame_error + bytes) \<Rightarrow> 'v list \<Rightarrow> frame_error + bytes" where
  "send_all wr [] = Inr []"
| "send_all wr (v # vs) =
     (case wr v of
        Inl e \<Rightarrow> Inl e
      | Inr b \<Rightarrow> (case send_all wr vs of Inl e \<Rightarrow> Inl e | Inr bs \<Rightarrow> Inr (b @ bs)))"

fun recv_all :: "(bytes \<Rightarrow> frame_error + 'v \<times> bytes) \<Rightarrow> nat \<Rightarrow> bytes \<Rightarrow> 'v list \<times> frame_error option" where
  "recv_all rd 0 s = ([], None)"
| "recv_all rd (Suc fuel) s =
     (case rd s of
        Inl e \<Rightarrow> ([], Some e)
      | Inr (v, rest) \<Rightarrow> (let (vs, e) = recv_all rd fuel rest in (v # vs, e)))"

locale codec =
  fixes wr :: "'v \<Rightarrow> frame_error + bytes"
    and rd :: "bytes \<Rightarrow> frame_error + 'v \<times> bytes"
    and ok :: "'v \<Rightarrow> bool"
  assumes wr_rd: "ok v \<Longrightarrow> \<exists>b. wr v = Inr b \<and> b \<noteq> [] \<and> (\<forall>rest. rd (b @ rest) = Inr (v, rest))"
    and rd_empty: "rd [] = Inl EOF"
begin

lemma send_all_ok: "\<forall>v \<in> set vs. ok v \<Longrightarrow> \<exists>bs. send_all wr vs = Inr bs"
proof (induction vs)
  case Nil
  then show ?case by simp
next
  case (Cons v vs)
  with wr_rd [of v] show ?case by auto
qed

lemma recv_send_all:
  "\<forall>v \<in> set vs. ok v \<Longrightarrow> send_all wr vs = Inr bs \<Longrightarrow> length vs < fuel \<Longrightarrow>
     recv_all rd fuel bs = (vs, Some EOF)"
proof (induction vs arbitrary: bs fuel)
  case Nil
  then show ?case by (cases fuel) (simp_all add: rd_empty)
next
  case (Cons v vs)
  from Cons.prems(1) wr_rd [of v] obtain b
    where b: "wr v = Inr b" "\<forall>rest. rd (b @ rest) = Inr (v, rest)" by auto
  with Cons.prems(2) obtain bs' where "send_all wr vs = Inr bs'" "bs = b @ bs'"
    by (auto split: sum.splits)
  with Cons b show ?case by (cases fuel) auto
qed

lemma wr_inj:
  assumes "ok v" "ok w" "wr v = wr w"
  shows "v = w"
proof -
  obtain b where "wr v = Inr b" "rd (b @ []) = Inr (v, [])" using wr_rd [OF assms(1)] by blast
  moreover obtain c where "wr w = Inr c" "rd (c @ []) = Inr (w, [])" using wr_rd [OF assms(2)] by blast
  ultimately show "v = w" using assms(3) by simp
qed

end

definition udp_ok :: "udp_packet \<Rightarrow> bool" where
  "udp_ok p \<longleftrightarrow> length (Payload p) \<le> 65535"

lemma ReadUDP_WriteUDP:
  assumes "udp_ok p"
  shows "\<exists>b. WriteUDPPacket p = Inr b \<and> b \<noteq> [] \<and> (\<forall>rest. ReadUDPPacket (b @ rest) = Inr (p, rest))"
proof -
  let ?n = "length (Payload p)"
  let ?h = "put_u32 (ConnID p) @ put_u16 ?n"
  have n: "get_u16 (put_u16 ?n) = ?n" using assms by (simp add: get_put_u16 udp_ok_def)
  have "ReadUDPPacket (?h @ Payload p @ rest) = Inr (p, rest)" for rest
  proof -
    have "ReadFull 6 (?h @ Payload p @ rest) = Inr (?h, Payload p @ rest)"
      by (rule ReadFull_append_n) simp
    then show ?thesis by (simp add: ReadUDPPacket_def n)
  qed
  moreover have "WriteUDPPacket p = Inr (?h @ Payload p)"
    using assms by (simp add: WriteUDPPacket_def udp_ok_def)
  ultimately show ?thesis by (simp add: put_u32_def)
qed

text \<open>Conversely, what the reader accepts is what the writer would have sent.\<close>

lemma WriteUDP_ReadUDP:
  assumes "ReadUDPPacket bs = Inr (p, rest)"
  shows "udp_ok p \<and> (\<exists>b. WriteUDPPacket p = Inr b \<and> bs = b @ rest)"
proof -
  obtain head s1 where h: "ReadFull 6 bs = Inr (head, s1)" using assms by (auto simp: ReadUDPPacket_def split: sum.splits)
  obtain body s2 where b: "ReadFull (get_u16 (drop 4 head)) s1 = Inr (body, s2)"
    using assms h by (auto simp: ReadUDPPacket_def split: sum.splits)
  have p: "p = \<lparr>ConnID = get_u32 (take 4 head), Payload = body\<rparr>" "rest = s2"
    using assms h b by (auto simp: ReadUDPPacket_def)
  from h b have s: "bs = head @ body @ s2" "length head = 6" "length body = get_u16 (drop 4 head)"
    by (auto simp: ReadFull_Inr)
  then obtain a1 a2 a3 a4 a5 a6 where hd: "head = [a1, a2, a3, a4, a5, a6]"
    by (auto simp: eval_nat_numeral length_Suc_conv)
  have "length body \<le> 65535" using s(3) get_u16_bound by (simp add: hd)
  moreover have "put_u32 (get_u32 (take 4 head)) @ put_u16 (length body) = head"
    using put_get_u32 put_get_u16 s(3) by (simp add: hd)
  ultimately show ?thesis using s(1) by (simp add: p udp_ok_def WriteUDPPacket_def flip: append_assoc)
qed

interpretation udp_codec: codec WriteUDPPacket ReadUDPPacket udp_ok
  by unfold_locales (rule ReadUDP_WriteUDP, assumption, simp add: ReadUDPPacket_def ReadFull_def)

text \<open>
  For JSON frames the contract holds for the values whose encoding decodes back and whose body
  has 1 to 65535 bytes: \<open>WriteJSONFrame\<close> accepts one byte more than the length field can hold.
\<close>

definition json_ok :: "('v \<Rightarrow> bytes option) \<Rightarrow> (bytes \<Rightarrow> 'v option) \<Rightarrow> 'v \<Rightarrow> bool" where
  "json_ok enc dec v =
     (case enc v of None \<Rightarrow> False | Some b \<Rightarrow> dec b = Some v \<and> b \<noteq> [] \<and> length b < maxFrame)"

lemma ReadJSON_frame:
  assumes "0 < length b" and "length b < maxFrame"
  shows "ReadJSONFrame dec ((put_u16 (length b) @ b) @ rest)
           = (case dec b of None \<Rightarrow> Inl Malformed | Some v \<Rightarrow> Inr (v, rest))"
proof -
  have "get_u16 (put_u16 (length b)) = length b"
    using assms by (simp add: get_put_u16 maxFrame_def)
  moreover have "ReadFull 2 (put_u16 (length b) @ b @ rest) = Inr (put_u16 (length b), b @ rest)"
    by (rule ReadFull_append_n) simp
  ultimately show ?thesis using assms by (simp add: ReadJSONFrame_def Let_def)
qed

lemma ReadJSON_WriteJSON:
  assumes "json_ok enc dec v"
  shows "\<exists>b. WriteJSONFrame enc v = Inr b \<and> b \<noteq> [] \<and> (\<forall>rest. ReadJSONFrame dec (b @ rest) = Inr (v, rest))"
proof -
  from assms obtain b where b: "enc v = Some b" "dec b = Some v" "0 < length b" "length b < maxFrame"
    by (auto simp: json_ok_def split: option.splits)
  have "WriteJSONFrame enc v = Inr (put_u16 (length b) @ b)"
    using b by (simp add: WriteJSONFrame_def)
  then show ?thesis using b ReadJSON_frame [OF b(3,4), of dec] by auto
qed

interpretation json_codec: codec "WriteJSONFrame enc" "ReadJSONFrame dec" "json_ok enc dec" for enc dec
  by unfold_locales (rule ReadJSON_WriteJSON, assumption, simp add: ReadJSONFrame_def ReadFull_def)

lemma WriteJSON_full_frame:
  assumes "enc v = Some b" and "length b = 65536"
  shows "WriteJSONFrame enc v = Inr (0 # 0 # b)"
    and "ReadJSONFrame dec ((0 # 0 # b) @ rest) = Inl UnexpectedEOF"
  using assms
  by (simp_all add: WriteJSONFrame_def maxFrame_def put_u16_def ReadJSONFrame_def ReadFull_def
      get_u16_def)

end
