(* ===== verification/Relay.thy ===== *)
theory Relay
  imports Limiter Frames
begin

text \<open>
  Package \<open>relay\<close>: the target list of a rule (\<open>ParseTargets\<close>), round-robin dialling with
  failover (\<open>DialUDPBalanced\<close> here and the TCP \<open>dialBalanced\<close> of server and client), the PROXY
  protocol header (\<open>relay/proxyproto.go\<close>) and one direction of the copy between two connections
  (\<open>relay/relay.go\<close>). The locale \<open>balancer\<close> states what all three dialling routines promise;
  the dialler itself, the operating system, is an argument.
\<close>

section \<open>Targets\<close>

definition ParseTargets :: "string \<Rightarrow> string list" where
  "ParseTargets s = filter (\<lambda>t. t \<noteq> []) (map TrimSpace (split_on CHR '','' s))"

lemma ParseTargets_nonempty: "t \<in> set (ParseTargets s) \<Longrightarrow> t \<noteq> []"
  by (simp add: ParseTargets_def)

lemma ParseTargets_no_comma: "t \<in> set (ParseTargets s) \<Longrightarrow> CHR '','' \<notin> set t"
  using set_TrimSpace_subset by (fastforce simp: ParseTargets_def dest: split_on_parts)

lemma ParseTargets_trimmed: "t \<in> set (ParseTargets s) \<Longrightarrow> TrimSpace t = t"
  by (auto simp: ParseTargets_def)

lemma ParseTargets_join:
  assumes "ts \<noteq> []" and "\<forall>t \<in> set ts. t \<noteq> [] \<and> CHR '','' \<notin> set t \<and> TrimSpace t = t"
  shows "ParseTargets (join_with CHR '','' ts) = ts"
proof -
  have "split_on CHR '','' (join_with CHR '','' ts) = ts"
    using assms by (intro split_join) auto
  moreover have "map TrimSpace ts = ts" using assms(2) by (simp add: map_idI)
  moreover have "filter (\<lambda>t. t \<noteq> []) ts = ts" using assms(2) by (simp add: filter_id_conv)
  ultimately show ?thesis by (simp add: ParseTargets_def)
qed

lemma ParseTargets_split:
  "t \<in> set (ParseTargets s) \<longleftrightarrow> t \<noteq> [] \<and> (\<exists>p \<in> set (split_on CHR '','' s). t = TrimSpace p)"
  by (auto simp: ParseTargets_def)

section \<open>Round-robin dialling\<close>

datatype ('e, 'c) dialled = Conn 'c | NoTargets | DialFailed 'e | IndexPanic

text \<open>
  \<open>start := int(rr.Add(1) - 1)\<close> and the index \<open>(start + i) % len\<close>: 64-bit arithmetic, the
  conversion to a signed integer, and Go's remainder, which has the sign of the dividend. A
  negative index panics.
\<close>

definition rr_index :: "64 word \<Rightarrow> nat \<Rightarrow> nat \<Rightarrow> nat option" where
  "rr_index rr i n =
     (let k = sint (rr + of_nat i) in
      if k < 0 \<and> k mod int n \<noteq> 0 then None else Some (nat (k mod int n)))"

text \<open>The loop over the attempts; \<open>dial i t\<close> is the outcome of dialling \<open>t\<close> in attempt \<open>i\<close>.\<close>

fun dial_loop ::
  "(nat \<Rightarrow> string \<Rightarrow> 'e + 'c) \<Rightarrow> string list \<Rightarrow> 64 word \<Rightarrow> nat \<Rightarrow> nat \<Rightarrow> 'e option \<Rightarrow> ('e, 'c) dialled" where
  "dial_loop dial ts rr i 0 lastErr = (case lastErr of None \<Rightarrow> NoTargets | Some e \<Rightarrow> DialFailed e)"
| "dial_loop dial ts rr i (Suc k) lastErr =
     (case rr_index rr i (length ts) of
        None \<Rightarrow> IndexPanic
      | Some j \<Rightarrow>
          (case dial i (ts ! j) of
             Inr c \<Rightarrow> Conn c
           | Inl e \<Rightarrow> dial_loop dial ts rr (Suc i) k (Some e)))"

text \<open>\<open>dialBalanced\<close> of \<open>server/forward.go\<close>, with the counter it leaves behind.\<close>

definition dialBalanced ::
  "(nat \<Rightarrow> string \<Rightarrow> 'e + 'c) \<Rightarrow> string \<Rightarrow> 64 word \<Rightarrow> ('e, 'c) dialled \<times> 64 word" where
  "dialBalanced dial target rr =
     (let targets = ParseTargets target in
      if length targets = 0 then (NoTargets, rr)
      else (dial_loop dial targets rr 0 (length targets) None, rr + 1))"

text \<open>\<open>DialUDPBalanced\<close>: every attempt resolves the target and then opens the socket.\<close>

fun udp_loop ::
  "(nat \<Rightarrow> string \<Rightarrow> 'e + 'a) \<Rightarrow> (nat \<Rightarrow> 'a \<Rightarrow> 'e + 'c) \<Rightarrow> string list \<Rightarrow> 64 word \<Rightarrow> nat \<Rightarrow> nat
     \<Rightarrow> 'e option \<Rightarrow> ('e, 'c) dialled" where
  "udp_loop resolve dial ts rr i 0 lastErr = (case lastErr of None \<Rightarrow> NoTargets | Some e \<Rightarrow> DialFailed e)"
| "udp_loop resolve dial ts rr i (Suc k) lastErr =
     (case rr_index rr i (length ts) of
        None \<Rightarrow> IndexPanic
      | Some j \<Rightarrow>
          (case resolve i (ts ! j) of
             Inl e \<Rightarrow> udp_loop resolve dial ts rr (Suc i) k (Some e)
           | Inr ra \<Rightarrow>
               (case dial i ra of
                  Inr c \<Rightarrow> Conn c
                | Inl e \<Rightarrow> udp_loop resolve dial ts rr (Suc i) k (Some e))))"

definition DialUDPBalanced ::
  "(nat \<Rightarrow> string \<Rightarrow> 'e + 'a) \<Rightarrow> (nat \<Rightarrow> 'a \<Rightarrow> 'e + 'c) \<Rightarrow> string \<Rightarrow> 64 word
     \<Rightarrow> ('e, 'c) dialled \<times> 64 word" where
  "DialUDPBalanced resolve dial targets rr =
     (let ts = ParseTargets targets in
      if length ts = 0 then (NoTargets, rr)
      else (udp_loop resolve dial ts rr 0 (length ts) None, rr + 1))"

subsection \<open>The specification: failover over a rotated list\<close>

fun first_ok :: "(nat \<Rightarrow> string \<Rightarrow> 'e + 'c) \<Rightarrow> nat \<Rightarrow> string list \<Rightarrow> 'e option \<Rightarrow> ('e, 'c) dialled" where
  "first_ok dial i [] lastErr = (case lastErr of None \<Rightarrow> NoTargets | Some e \<Rightarrow> DialFailed e)"
| "first_ok dial i (t # ts) lastErr =
     (case dial i t of Inr c \<Rightarrow> Conn c | Inl e \<Rightarrow> first_ok dial (Suc i) ts (Some e))"

lemma rr_index_small:
  assumes "unat rr + i < 2 ^ 63" and "0 < n"
  shows "rr_index rr i n = Some ((unat rr + i) mod n)"
proof -
  let ?w = "rr + of_nat i :: 64 word"
  have i: "unat (of_nat i :: 64 word) = i"
    using assms(1) by (simp add: unat_of_nat)
  have "unat ?w = (unat rr + unat (of_nat i :: 64 word)) mod 2 ^ 64"
    by (simp only: unat_word_ariths) simp
  then have u: "unat ?w = unat rr + i" using assms(1) i by simp
  define m where "m = unat rr + i"
  have m: "m < 2 ^ 63" using assms(1) by (simp add: m_def)
  have "uint ?w = int m" using u unfolding m_def by (metis of_nat_unat)
  moreover have "sint ?w = signed_take_bit 63 (uint ?w)" by (simp only: sint_uint) simp
  moreover have "signed_take_bit 63 (int m) = int m"
    using m by (intro signed_take_bit_int_eq_self) simp_all
  ultimately have "sint ?w = int m" by (simp only:)
  then have s: "sint ?w = int (unat rr + i)" by (simp only: m_def)
  have "nat (int (unat rr + i) mod int n) = (unat rr + i) mod n"
    by (simp only: zmod_int [symmetric] nat_int)
  then show ?thesis
    unfolding rr_index_def Let_def s by (simp only: of_nat_less_0_iff simp_thms if_False)
qed

lemma dial_loop_first_ok:
  assumes "i + k = length ts" and "unat rr + length ts \<le> 2 ^ 63" and "ts \<noteq> []"
  shows "dial_loop dial ts rr i k le = first_ok dial i (drop i (rotate (unat rr) ts)) le"
  using assms(1)
proof (induction k arbitrary: i le)
  case 0
  then show ?case by simp
next
  case (Suc k)
  have "rr_index rr i (length ts) = Some ((unat rr + i) mod length ts)"
    using Suc.prems assms by (intro rr_index_small) auto
  moreover have "drop i (rotate (unat rr) ts) = ts ! ((unat rr + i) mod length ts) # drop (Suc i) (rotate (unat rr) ts)"
    using Suc.prems by (simp add: Cons_nth_drop_Suc [symmetric] nth_rotate)
  ultimately show ?case using Suc.prems Suc.IH [of "Suc i"] by (auto split: sum.splits)
qed

lemma udp_loop_dial_loop:
  "udp_loop resolve dial ts rr i k le =
     dial_loop (\<lambda>i t. case resolve i t of Inl e \<Rightarrow> Inl e | Inr ra \<Rightarrow> dial i ra) ts rr i k le"
  by (induction k arbitrary: i le) (auto split: option.splits sum.splits)

text \<open>
  The contract: \<open>balance dial target rr\<close> leaves the counter alone without targets, otherwise
  advances it, and tries the targets from position \<open>rr\<close> round, each once. The bound keeps the
  counter below the sign bit: 2^63 dials.
\<close>

locale balancer =
  fixes balance :: "(nat \<Rightarrow> string \<Rightarrow> 'e + 'c) \<Rightarrow> string \<Rightarrow> 64 word \<Rightarrow> ('e, 'c) dialled \<times> 64 word"
  assumes no_targets: "ParseTargets target = [] \<Longrightarrow> balance dial target rr = (NoTargets, rr)"
    and rotates: "ParseTargets target \<noteq> [] \<Longrightarrow> unat rr + length (ParseTargets target) \<le> 2 ^ 63 \<Longrightarrow>
      balance dial target rr = (first_ok dial 0 (rotate (unat rr) (ParseTargets target)) None, rr + 1)"
begin

lemma first_ok_Conn: "first_ok dial i ts le = Conn c \<Longrightarrow> \<exists>k < length ts. dial (i + k) (ts ! k) = Inr c"
proof (induction ts arbitrary: i le)
  case Nil
  then show ?case by (auto split: option.splits)
next
  case (Cons t ts)
  show ?case
  proof (cases "dial i t")
    case (Inl e)
    with Cons.prems have "first_ok dial (Suc i) ts (Some e) = Conn c" by simp
    from Cons.IH [OF this] obtain k where "k < length ts" "dial (Suc i + k) (ts ! k) = Inr c" by blast
    then show ?thesis by (intro exI [of _ "Suc k"]) simp
  next
    case (Inr d)
    with Cons.prems show ?thesis by (intro exI [of _ 0]) simp
  qed
qed

lemma first_ok_fails:
  "first_ok dial i ts (Some e0) = DialFailed e \<Longrightarrow> k < length ts \<Longrightarrow> \<exists>x. dial (i + k) (ts ! k) = Inl x"
proof (induction ts arbitrary: i e0 k)
  case Nil
  then show ?case by simp
next
  case (Cons t ts)
  then show ?case by (cases k) (fastforce split: sum.splits)+
qed

text \<open>A dial that depends on the target only succeeds exactly when some target answers.\<close>

lemma reachable_iff:
  assumes "ParseTargets target \<noteq> []" and "unat rr + length (ParseTargets target) \<le> 2 ^ 63"
  shows "(\<exists>c. fst (balance (\<lambda>_. d) target rr) = Conn c)
     \<longleftrightarrow> (\<exists>t \<in> set (ParseTargets target). \<exists>c. d t = Inr c)"
proof -
  have gen: "(\<exists>c. first_ok (\<lambda>_. d) i ts le = Conn c) \<longleftrightarrow> (\<exists>t \<in> set ts. \<exists>c. d t = Inr c)" for i ts le
    by (induction ts arbitrary: i le) (auto split: sum.splits option.splits)
  show ?thesis using assms by (simp add: rotates gen)
qed

text \<open>While every target answers, successive dials go through the targets in turn.\<close>

lemma in_turn:
  assumes "ParseTargets target \<noteq> []" and "unat rr + length (ParseTargets target) \<le> 2 ^ 63"
  shows "balance (\<lambda>_ t. Inr (conn t)) target rr
     = (Conn (conn (ParseTargets target ! (unat rr mod length (ParseTargets target)))), rr + 1)"
proof -
  let ?ts = "ParseTargets target"
  obtain t ts where r: "rotate (unat rr) ?ts = t # ts"
    using assms(1) by (cases "rotate (unat rr) ?ts") auto
  then have "t = rotate (unat rr) ?ts ! 0" by simp
  also have "\<dots> = ?ts ! (unat rr mod length ?ts)"
    using assms(1) by (subst nth_rotate) auto
  finally show ?thesis using assms r by (simp add: rotates)
qed

end

lemma DialUDPBalanced_eq:
  "DialUDPBalanced resolve dial target rr =
     dialBalanced (\<lambda>i t. case resolve i t of Inl e \<Rightarrow> Inl e | Inr ra \<Rightarrow> dial i ra) target rr"
  by (simp add: DialUDPBalanced_def dialBalanced_def udp_loop_dial_loop Let_def)

interpretation tcp_balancer: balancer dialBalanced
  by unfold_locales
     (simp_all add: dialBalanced_def Let_def dial_loop_first_ok [where i = 0, simplified])

interpretation udp_balancer: balancer "DialUDPBalanced (\<lambda>_ t. Inr t)"
  by unfold_locales
     (simp_all add: DialUDPBalanced_def Let_def udp_loop_dial_loop dial_loop_first_ok [where i = 0, simplified])

end
