(* ===== verification/Proxy.thy ===== *)
theory Proxy
  imports Relay
begin

text \<open>
  The PROXY protocol header (\<open>ProxyHeader\<close> of \<open>relay/proxyproto.go\<close>) and what a receiver that
  follows the protocol makes of it. The protocol's version 2 header is a 12-byte signature, a
  version/command byte, a family byte, a 2-byte length and that many bytes of addresses; the
  receiver drops \<open>16 + length\<close> bytes and hands the rest to the application.
\<close>

text \<open>A \<open>*net.TCPAddr\<close>; the empty list is the nil IP.\<close>

record tcp_addr =
  IP :: bytes
  Port :: int

definition To4 :: "bytes \<Rightarrow> bytes option" where
  "To4 ip =
     (if length ip = 4 then Some ip
      else if length ip = 16 \<and> take 12 ip = replicate 10 0 @ [0xff, 0xff] then Some (drop 12 ip)
      else None)"

definition To16 :: "bytes \<Rightarrow> bytes" where
  "To16 ip =
     (if length ip = 4 then replicate 10 0 @ [0xff, 0xff] @ ip
      else if length ip = 16 then ip
      else [])"

datatype pp_error = MissingAddr | UnknownVersion int

definition ascii :: "string \<Rightarrow> bytes" where
  "ascii s = map of_char s"

definition pp_signature :: bytes where
  "pp_signature = [0x0D, 0x0A, 0x0D, 0x0A, 0x00, 0x0D, 0x0A, 0x51, 0x55, 0x49, 0x54, 0x0A]"

definition u16_of_int :: "int \<Rightarrow> bytes" where
  "u16_of_int p = put_u16 (nat (p mod 65536))"

definition ProxyHeader :: "int \<Rightarrow> tcp_addr \<Rightarrow> tcp_addr \<Rightarrow> pp_error + bytes" where
  "ProxyHeader version src dst =
     (if IP src = [] \<or> IP dst = [] then Inl MissingAddr
      else if version = 1 then
        (let fam = (if To4 (IP src) = None \<or> To4 (IP dst) = None then ''TCP6'' else ''TCP4'') in
         Inr (ascii (''PROXY '' @ fam @ '' '' @ IPString (IP src) @ '' '' @ IPString (IP dst) @ '' ''
                @ Itoa (Port src) @ '' '' @ Itoa (Port dst) @ [CHR 0x0D, CHR 0x0A])))
      else if version = 2 then
        (case (To4 (IP src), To4 (IP dst)) of
           (Some src4, Some dst4) \<Rightarrow>
             Inr (pp_signature @ [0x21, 0x11] @ put_u16 16 @ src4 @ dst4
                  @ u16_of_int (Port src) @ u16_of_int (Port dst))
         | _ \<Rightarrow>
             Inr (pp_signature @ [0x21, 0x22] @ put_u16 36 @ To16 (IP src) @ To16 (IP dst)
                  @ u16_of_int (Port src) @ u16_of_int (Port dst)))
      else Inl (UnknownVersion version))"

text \<open>The receiving side of version 2, as the protocol defines it: the length field rules.\<close>

definition pp2_receive :: "bytes \<Rightarrow> (bytes \<times> bytes) option" where
  "pp2_receive s =
     (if length s < 16 \<or> take 12 s \<noteq> pp_signature then None
      else (let n = get_u16 (take 2 (drop 14 s)) in
            if length s < 16 + n then None else Some (take (16 + n) s, drop (16 + n) s)))"

definition ip_ok :: "bytes \<Rightarrow> bool" where
  "ip_ok ip \<longleftrightarrow> length ip = 4 \<or> length ip = 16"

lemma length_To4: "To4 ip = Some b \<Longrightarrow> length b = 4"
  by (auto simp: To4_def split: if_splits)

lemma length_To16: "ip_ok ip \<Longrightarrow> length (To16 ip) = 16"
  by (auto simp: To16_def ip_ok_def)

lemma length_u16_of_int [simp]: "length (u16_of_int p) = 2"
  by (simp add: u16_of_int_def)

lemma length_pp_signature [simp]: "length pp_signature = 12"
  by (simp add: pp_signature_def)

lemma pp2_receive_header:
  assumes "length hd2 = 2" and "n < 65536" and "n \<le> length body"
  shows "pp2_receive (pp_signature @ hd2 @ put_u16 n @ body)
    = Some (pp_signature @ hd2 @ put_u16 n @ take n body, drop n body)"
proof -
  let ?s = "pp_signature @ hd2 @ put_u16 n @ body"
  have d: "drop 14 ?s = put_u16 n @ body" using assms(1) by simp
  have n: "get_u16 (take 2 (drop 14 ?s)) = n"
    unfolding d using assms(2) by (simp add: get_put_u16)
  have t: "take (16 + n) ?s = pp_signature @ hd2 @ put_u16 n @ take n body"
    "drop (16 + n) ?s = drop n body"
    using assms(1) by simp_all
  show ?thesis
    unfolding pp2_receive_def n Let_def t using assms by simp
qed

lemma ProxyHeader_v6_shape:
  assumes "ip_ok (IP src)" "ip_ok (IP dst)" and "To4 (IP src) = None \<or> To4 (IP dst) = None"
  shows "\<exists>body. ProxyHeader 2 src dst = Inr (pp_signature @ [0x21, 0x22] @ put_u16 36 @ body)
    \<and> length body = 36"
  using assms
  by (auto simp: ProxyHeader_def ip_ok_def length_To16 [unfolded ip_ok_def] split: option.splits)

lemma ProxyHeader_v4_shape:
  assumes "To4 (IP src) = Some s4" and "To4 (IP dst) = Some d4"
  shows "\<exists>body. ProxyHeader 2 src dst = Inr (pp_signature @ [0x21, 0x11] @ put_u16 16 @ body)
    \<and> length body = 12"
proof -
  have "IP src \<noteq> []" "IP dst \<noteq> []" using assms by (auto simp: To4_def)
  moreover have "length s4 = 4" "length d4 = 4" using assms length_To4 by auto
  ultimately show ?thesis using assms by (simp add: ProxyHeader_def)
qed

lemma ProxyHeader_error_iff:
  "(\<exists>e. ProxyHeader v src dst = Inl e) \<longleftrightarrow> IP src = [] \<or> IP dst = [] \<or> v \<notin> {1, 2}"
  by (auto simp: ProxyHeader_def Let_def split: option.splits)

end
