(* ===== verification/Pipe.thy ===== *)
theory Pipe
  imports Relay
begin

text \<open>
  The bidirectional copy of \<open>relay/relay.go\<close>. The first part is one direction: \<open>io.Copy\<close> between
  the package's \<open>reader\<close> and \<open>writer\<close>, with the bytes counted and the quota asked of the
  limiter for every chunk. The second part is the protocol between the two directions: each, when
  it ends, sets a deadline in the past on the connection the other one reads from, and \<open>reader\<close>
  moves that deadline whenever an idle timeout is configured.
\<close>

section \<open>One direction\<close>

definition chunk_max :: nat where
  "chunk_max = 16384"

definition copy_buffer :: nat where
  "copy_buffer = 32768"

text \<open>\<open>reader.Read\<close> into a buffer of \<open>len\<close> bytes when the connection would return \<open>k\<close> of its
  pending bytes; the empty result is the end of the stream.\<close>

definition reader_Read :: "nat \<Rightarrow> nat \<Rightarrow> bytes \<Rightarrow> bytes \<times> bytes" where
  "reader_Read len k inp =
     (let p = (if len > chunk_max then chunk_max else len); n = min k p
      in (take n inp, drop n inp))"

record copy_st =
  inp :: bytes              \<comment> \<open>still to be read from the source\<close>
  out :: bytes              \<comment> \<open>accepted by the destination\<close>
  counter :: int            \<comment> \<open>the rule's atomic byte counter\<close>
  asked :: "nat list"       \<comment> \<open>the arguments of \<open>lim.Wait\<close>, newest first\<close>

text \<open>\<open>writer.Write\<close> when the destination accepts \<open>w\<close> bytes; the flag is its error.\<close>

definition writer_Write :: "nat \<Rightarrow> bytes \<Rightarrow> copy_st \<Rightarrow> copy_st \<times> bool" where
  "writer_Write w p st =
     (let n = min w (length p) in
      (st\<lparr>asked := length p # asked st, out := out st @ take n p, counter := counter st + int n\<rparr>,
       n < length p))"

datatype stop = Running | SourceEnded | SinkFailed

text \<open>\<open>io.Copy\<close>: one element of the schedule per iteration, \<open>(k, w)\<close> bytes read and accepted.\<close>

fun io_copy :: "(nat \<times> nat) list \<Rightarrow> copy_st \<Rightarrow> copy_st \<times> stop" where
  "io_copy [] st = (st, Running)"
| "io_copy ((k, w) # es) st =
     (case reader_Read copy_buffer k (inp st) of
        (p, rest) \<Rightarrow>
          if p = [] then (st, SourceEnded)
          else (case writer_Write w p (st\<lparr>inp := rest\<rparr>) of
                  (st', True) \<Rightarrow> (st', SinkFailed)
                | (st', False) \<Rightarrow> io_copy es st'))"

lemma reader_Read_split: "reader_Read len k i = (p, rest) \<Longrightarrow> i = p @ rest \<and> length p \<le> chunk_max"
  by (auto simp: reader_Read_def Let_def min_def split: if_splits)

lemma io_copy_spec:
  "io_copy es st = (st', r) \<Longrightarrow>
     \<exists>d lost. out st' = out st @ d \<and> inp st = d @ lost @ inp st' \<and> (r \<noteq> SinkFailed \<longrightarrow> lost = [])
       \<and> length lost \<le> chunk_max \<and> counter st' = counter st + int (length d)
       \<and> (\<forall>n \<in> set (asked st'). n \<in> set (asked st) \<or> (0 < n \<and> n \<le> chunk_max))"
proof (induction es st rule: io_copy.induct)
  case (1 st)
  then show ?case by (intro exI [of _ "[]"]) simp
next
  case (2 k w es st)
  obtain p rest where rd: "reader_Read copy_buffer k (inp st) = (p, rest)" by fastforce
  note split = reader_Read_split [OF rd]
  show ?case
  proof (cases "p = []")
    case True
    with 2 rd show ?thesis by (intro exI [of _ "[]"]) auto
  next
    case False
    obtain st1 e where wr: "writer_Write w p (st\<lparr>inp := rest\<rparr>) = (st1, e)" by fastforce
    have st1: "st1 = st\<lparr>inp := rest, asked := length p # asked st, out := out st @ take (min w (length p)) p,
        counter := counter st + int (min w (length p))\<rparr>" "e = (min w (length p) < length p)"
      using wr by (auto simp: writer_Write_def Let_def)
    show ?thesis
    proof (cases e)
      case True
      with 2 rd wr False have "st' = st1" "r = SinkFailed" by auto
      with st1 False split show ?thesis
        by (intro exI [of _ "take (min w (length p)) p"] exI [of _ "drop (min w (length p)) p"]) auto
    next
      case e: False
      with 2(2) rd wr False have "io_copy es st1 = (st', r)" by simp
      from e have "e = False" by simp
      from 2(1) [OF rd [symmetric] False wr [symmetric] this \<open>io_copy es st1 = (st', r)\<close>] obtain d lost where
        d: "out st' = out st1 @ d" "inp st1 = d @ lost @ inp st'" "r \<noteq> SinkFailed \<longrightarrow> lost = []"
          "length lost \<le> chunk_max" "counter st' = counter st1 + int (length d)"
          "\<forall>n \<in> set (asked st'). n \<in> set (asked st1) \<or> (0 < n \<and> n \<le> chunk_max)" by blast
      have "min w (length p) = length p" using e st1 by auto
      with d st1 split False show ?thesis
        by (intro exI [of _ "p @ d"] exI [of _ lost]) auto
    qed
  qed
qed

section \<open>The two directions\<close>

datatype side = AtoB | BtoA

fun other :: "side \<Rightarrow> side" where
  "other AtoB = BtoA"
| "other BtoA = AtoB"

text \<open>Where a direction stands: about to call \<open>Read\<close>, blocked in it, writing a chunk, or over.\<close>

datatype pc = Top | Blocked | Writing | Ended

record pipe =
  pc :: "side \<Rightarrow> pc"
  past :: "side \<Rightarrow> bool"   \<comment> \<open>the read deadline of the connection this side reads has passed\<close>

definition Pipe_init :: pipe where
  "Pipe_init = \<lparr>pc = (\<lambda>_. Top), past = (\<lambda>_. False)\<rparr>"

text \<open>One step of a direction; \<open>idle\<close> says whether the rule has an idle timeout.\<close>

inductive pipe_step :: "bool \<Rightarrow> pipe \<Rightarrow> pipe \<Rightarrow> bool" for idle where
  enter: "pc s d = Top \<Longrightarrow>
    pipe_step idle s (s\<lparr>pc := (pc s)(d := Blocked),
                        past := (if idle then (past s)(d := False) else past s)\<rparr>)"
| data: "pc s d = Blocked \<Longrightarrow> \<not> past s d \<Longrightarrow> pipe_step idle s (s\<lparr>pc := (pc s)(d := Writing)\<rparr>)"
| read_ends: "pc s d = Blocked \<Longrightarrow>
    pipe_step idle s (s\<lparr>pc := (pc s)(d := Ended), past := (past s)(other d := True)\<rparr>)"
| wrote: "pc s d = Writing \<Longrightarrow> pipe_step idle s (s\<lparr>pc := (pc s)(d := Top)\<rparr>)"
| write_fails: "pc s d = Writing \<Longrightarrow>
    pipe_step idle s (s\<lparr>pc := (pc s)(d := Ended), past := (past s)(other d := True)\<rparr>)"

inductive pipe_reach :: "bool \<Rightarrow> pipe \<Rightarrow> bool" for idle where
  start: "pipe_reach idle Pipe_init"
| step: "pipe_reach idle s \<Longrightarrow> pipe_step idle s t \<Longrightarrow> pipe_reach idle t"

lemma other_neq [simp]: "other d \<noteq> d" "d \<noteq> other d"
  by (cases d; simp)+

lemma other_other [simp]: "other (other d) = d"
  by (cases d) simp_all

lemma side_cases: "x = d \<or> x = other d"
  by (cases x; cases d) simp_all

definition cut_inv :: "pipe \<Rightarrow> bool" where
  "cut_inv s \<longleftrightarrow> (\<forall>d. pc s d = Ended \<longrightarrow> past s (other d))"

lemma pipe_step_cut: "pipe_step False s t \<Longrightarrow> cut_inv s \<Longrightarrow> cut_inv t"
  by (induction rule: pipe_step.induct) (auto simp: cut_inv_def)

lemma pipe_reach_cut: "pipe_reach False s \<Longrightarrow> cut_inv s"
proof (induction rule: pipe_reach.induct)
  case start
  show ?case by (simp add: cut_inv_def Pipe_init_def)
next
  case (step s t)
  then show ?case by (blast intro: pipe_step_cut)
qed

text \<open>Without an idle timeout the surviving direction runs out of steps: a measure.\<close>

fun pc_left :: "pc \<Rightarrow> nat" where
  "pc_left Writing = 3"
| "pc_left Top = 2"
| "pc_left Blocked = 1"
| "pc_left Ended = 0"

lemma pipe_step_dec:
  assumes "pipe_step False s t" and "cut_inv s" and "pc s d = Ended"
  shows "pc t d = Ended \<and> pc_left (pc t (other d)) < pc_left (pc s (other d))"
  using assms
proof (induction rule: pipe_step.induct)
  case (data s x)
  then show ?case using side_cases [of x d] by (auto simp: cut_inv_def)
next
  case (enter s x)
  then show ?case using side_cases [of x d] by auto
next
  case (read_ends s x)
  then show ?case using side_cases [of x d] by auto
next
  case (wrote s x)
  then show ?case using side_cases [of x d] by auto
next
  case (write_fails s x)
  then show ?case using side_cases [of x d] by auto
qed

fun pipe_run :: "bool \<Rightarrow> pipe \<Rightarrow> pipe list \<Rightarrow> bool" where
  "pipe_run idle s [] = True"
| "pipe_run idle s (t # ts) = (pipe_step idle s t \<and> pipe_run idle t ts)"

lemma pipe_run_short:
  "pipe_run False s ts \<Longrightarrow> cut_inv s \<Longrightarrow> pc s d = Ended \<Longrightarrow> length ts \<le> pc_left (pc s (other d))"
proof (induction ts arbitrary: s)
  case Nil
  then show ?case by simp
next
  case (Cons t ts)
  then have "pipe_step False s t" and r: "pipe_run False t ts" by simp_all
  from pipe_step_dec [OF this(1) Cons.prems(2,3)] pipe_step_cut [OF this(1) Cons.prems(2)]
    Cons.IH [OF r] show ?case by fastforce
qed

lemma pipe_progress: "pc s d \<noteq> Ended \<Longrightarrow> \<exists>t. pipe_step idle s t"
  by (cases "pc s d") (blast intro: pipe_step.intros)+

end
