(* ===== verification/DataProperties.thy ===== *)
theory DataProperties
  imports Config LogBuf Proxy Pipe
begin

text \<open>
  The properties of the packages that hold no server state: \<open>config\<close>, \<open>proto\<close>, \<open>logbuf\<close> and
  \<open>relay\<close>. Each is stated over the definitions of its component and followed, where it has
  hypotheses, by a witness.
\<close>

section \<open>Configuration\<close>

text \<open>C28: An access list compiles exactly when every entry is a prefix or an address, and then allows
  exactly the addresses some entry matches; the empty list allows everything.\<close>

theorem acl_correct:
  "case NewACL es of
     Inl e \<Rightarrow> \<not> list_all entry_ok es
   | Inr a \<Rightarrow> list_all entry_ok es \<and> (Allows a ip \<longleftrightarrow> es = [] \<or> list_ex (\<lambda>e. entry_matches e ip) es)"
proof (cases "NewACL es")
  case (Inl e)
  then show ?thesis using NewACL_Inl_iff [of es] by (auto simp: list_all_iff)
next
  case (Inr a)
  then show ?thesis using NewACL_ok_iff [of es] NewACL_Allows [OF Inr, of ip]
    by (auto simp: list_all_iff list_ex_iff)
qed

text \<open>A prefix of IPv4-mapped IPv6 addresses, which the list accepts, matches no address: the
  address is unmapped before the comparison and the prefix is not.\<close>

theorem mapped_prefix_dead:
  assumes "ParsePrefix e = Some p" and "Is4In6 (p_addr p)" and "96 \<le> p_bits p" and "p_bits p \<le> 128"
  shows "entry_ok e \<and> \<not> entry_matches e ip"
  using assms mapped_prefix_never_matches [OF assms] by (simp add: entry_ok_def)

theorem mapped_prefix_dead_witness:
  "entry_ok ''::ffff:0:0/96'' \<and> \<not> entry_matches ''::ffff:0:0/96'' (V4 0x0A000001)"
proof -
  have "v6_loop (Suc (Suc (Suc (Suc (Suc (Suc (Suc (Suc 0)))))))) [] (Some 0) ''ffff:0:0'' = Some ([65535, 0, 0], Some 0)"
    by (simp add: is_hex_def read_hex_def hex_val_def is_digit_def)
  moreover have "(8 :: nat) = Suc (Suc (Suc (Suc (Suc (Suc (Suc (Suc 0)))))))" by simp
  ultimately have "v6_loop 8 [] (Some 0) ''ffff:0:0'' = Some ([65535, 0, 0], Some 0)" by (simp only:)
  moreover have "replicate 5 (0 :: nat) = [0, 0, 0, 0, 0]" by (simp add: numeral_eq_Suc)
  ultimately have "ParseAddr ''::ffff:0:0'' = Some (V6 0xffff00000000 [])"
    by (simp add: ParseAddr_def parse_v6_def v6_finish_def groups_to_word_def)
  then have "ParsePrefix ''::ffff:0:0/96'' = Some \<lparr>p_addr = V6 0xffff00000000 [], p_bits = 96\<rparr>"
    by (simp add: ParsePrefix_def split_last_def parse_nat_def is_digit_def read_digits_def digit_val_def)
  then show ?thesis
    by (rule mapped_prefix_dead) (simp_all add: Is4In6_def)
qed

text \<open>C29: A save either leaves the configuration file as it was and reports an error, or replaces its
  content by the new text: no fault in between leaves a mixture.\<close>

theorem save_atomic:
  "let (fs', e) = save io path b fs in fs' path = (if e = None then Some (b @ [CHR 0x0A]) else fs path)"
  using save_error_keeps [of io path b fs] save_ok_writes [of io path b fs]
  by (cases "save io path b fs"; cases "snd (save io path b fs)") auto

text \<open>Whatever is on disk, a server configuration that loads has a secret, and a password unless
  it says that none is wanted; and the file then decodes to what was loaded.\<close>

theorem LoadServer_safe:
  assumes "LoadServer dec enc io rnd rd path fs = (Inr (cfg, g), fs')" and "random_ok rnd"
    and "dec (enc cfg @ [CHR 0x0A]) = Some cfg"
  shows "Secret cfg \<noteq> [] \<and> (NoAuth cfg \<or> Password cfg \<noteq> []) \<and> (\<exists>b. fs' path = Some b \<and> dec b = Some cfg)"
  using LoadServer_secret [OF assms(1,2)] LoadServer_password [OF assms(1,2)]
    LoadServer_on_disk [OF assms(1,3)] by blast

theorem LoadServer_safe_witness:
  "\<exists>cfg fs'. LoadServer (\<lambda>b. Some (default_cfg (\<lambda>k. replicate 16 1))) (\<lambda>c. []) (\<lambda>k. no_faults)
       (\<lambda>k. replicate 16 1) None ''server.json'' (\<lambda>p. None) = (Inr (cfg, True), fs')
     \<and> Secret cfg \<noteq> [] \<and> (NoAuth cfg \<or> Password cfg \<noteq> []) \<and> fs' ''server.json'' \<noteq> None"
proof -
  let ?cfg = "default_cfg (\<lambda>k. replicate 16 1)"
  let ?fs = "fst (save no_faults ''server.json'' [] (\<lambda>p. None))"
  have l: "LoadServer (\<lambda>b. Some ?cfg) (\<lambda>c. []) (\<lambda>k. no_faults) (\<lambda>k. replicate 16 1) None ''server.json'' (\<lambda>p. None)
      = (Inr (?cfg, True), ?fs)"
    by (simp add: LoadServer_def Let_def save_def no_faults_def)
  from LoadServer_safe [OF l] show ?thesis using l by (auto simp: random_ok_def)
qed

section \<open>Frames\<close>

text \<open>C30: Any sequence of UDP packets of legal size, written to a stream one after the other, is read
  back as the same sequence, ids and payloads, followed by the end of the stream.\<close>

theorem udp_stream_roundtrip:
  assumes "list_all udp_ok ps"
  shows "\<exists>bs. send_all WriteUDPPacket ps = Inr bs
    \<and> recv_all ReadUDPPacket (Suc (length ps)) bs = (ps, Some EOF)"
proof -
  have ok: "\<forall>p \<in> set ps. udp_ok p" using assms by (simp add: list_all_iff)
  obtain bs where bs: "send_all WriteUDPPacket ps = Inr bs" using udp_codec.send_all_ok [OF ok] by blast
  have "recv_all ReadUDPPacket (Suc (length ps)) bs = (ps, Some EOF)"
    by (rule udp_codec.recv_send_all [OF ok bs]) simp
  with bs show ?thesis by blast
qed

theorem udp_stream_roundtrip_witness:
  "\<exists>bs. send_all WriteUDPPacket [\<lparr>ConnID = 7, Payload = [1, 2]\<rparr>, \<lparr>ConnID = 8, Payload = []\<rparr>] = Inr bs
    \<and> recv_all ReadUDPPacket 3 bs = ([\<lparr>ConnID = 7, Payload = [1, 2]\<rparr>, \<lparr>ConnID = 8, Payload = []\<rparr>], Some EOF)"
  using udp_stream_roundtrip [of "[\<lparr>ConnID = 7, Payload = [1, 2]\<rparr>, \<lparr>ConnID = 8, Payload = []\<rparr>]"]
  by (simp add: udp_ok_def numeral_3_eq_3)

text \<open>The same for JSON frames, for every value whose encoding decodes back to it and has between
  1 and 65535 bytes.\<close>

theorem json_stream_roundtrip:
  assumes "list_all (json_ok enc dec) vs"
  shows "\<exists>bs. send_all (WriteJSONFrame enc) vs = Inr bs
    \<and> recv_all (ReadJSONFrame dec) (Suc (length vs)) bs = (vs, Some EOF)"
proof -
  have ok: "\<forall>v \<in> set vs. json_ok enc dec v" using assms by (simp add: list_all_iff)
  obtain bs where bs: "send_all (WriteJSONFrame enc) vs = Inr bs" using json_codec.send_all_ok [OF ok] by blast
  have "recv_all (ReadJSONFrame dec) (Suc (length vs)) bs = (vs, Some EOF)"
    by (rule json_codec.recv_send_all [OF ok bs]) simp
  with bs show ?thesis by blast
qed

theorem json_stream_roundtrip_witness:
  "\<exists>bs. send_all (WriteJSONFrame (\<lambda>b. Some [if b then 0x74 else 0x66])) [True, False] = Inr bs
    \<and> recv_all (ReadJSONFrame (\<lambda>bs. Some (bs = [0x74]))) 3 bs = ([True, False], Some EOF)"
  using json_stream_roundtrip [of "\<lambda>b. Some [if b then 0x74 else 0x66]" "\<lambda>bs. Some (bs = [0x74])" "[True, False]"]
  by (simp add: json_ok_def maxFrame_def numeral_3_eq_3)

text \<open>A JSON value of exactly 65536 bytes passes the writer's size check but its length field is
  zero, so the reader rejects the frame.\<close>

theorem json_full_frame_lost:
  assumes "enc v = Some b" and "length b = 65536"
  shows "WriteJSONFrame enc v = Inr (put_u16 0 @ b)
    \<and> ReadJSONFrame dec ((put_u16 0 @ b) @ rest) = Inl UnexpectedEOF"
  using WriteJSON_full_frame(1) [of enc v b] WriteJSON_full_frame(2) [of enc v b dec rest] assms
  by (simp add: put_u16_def)

theorem json_full_frame_lost_witness:
  "WriteJSONFrame (\<lambda>u. Some (replicate 65536 0x20)) () = Inr (put_u16 0 @ replicate 65536 0x20)
    \<and> ReadJSONFrame (\<lambda>bs. Some ()) ((put_u16 0 @ replicate 65536 0x20) @ []) = Inl UnexpectedEOF"
  by (rule json_full_frame_lost) (rule refl, rule length_replicate)

section \<open>Logs\<close>

text \<open>C33: The ring behind the panel's log page shows, whatever was written to it, the last lines of the
  whole log: as many as were asked for, or as it holds if that is less, empty lines left out.\<close>

theorem ring_shows_tail:
  "Tail (int (Suc n)) (foldl (\<lambda>r p. ring_Write p r) (New_ring m) ps)
     = take_last (min (Suc n) m) (concat (map log_lines ps))"
  using Tail_holds [OF ring_Writes_holds [OF New_ring_holds [of m], of ps], of "int (Suc n)"]
  by (simp add: New_ring_def del: of_nat_Suc)

text \<open>A write to the log file keeps the rotator's idea of the file's size right; when it reports
  success the text has been appended and the file is within the limit.\<close>

theorem rotator_write_correct:
  assumes "rot_inv rf" and "rot_Write can_open n p rf = (rf', k, e)"
  shows "rot_inv rf' \<and> (e = None \<longrightarrow> content rf' = content rf @ p \<and> k = length p
      \<and> int (length (content rf')) \<le> r_max (fst rf))"
  using rot_Write_inv [OF assms] rot_Write_success [OF assms(1), of can_open n p rf' k] assms(2)
  by (cases e) auto

theorem rotator_write_correct_witness:
  "\<exists>rf'. rot_Write True 9 ''ab'' (NewRotator ''log'' 1 3, \<lambda>p. None) = (rf', 2, None)
     \<and> rot_inv rf' \<and> content rf' = ''ab''"
proof -
  let ?rf = "(NewRotator ''log'' 1 3, (\<lambda>p. None) :: files)"
  obtain rf' k e where w: "rot_Write True 9 ''ab'' ?rf = (rf', k, e)" by (metis prod.exhaust)
  moreover have "k = 2" "e = None"
    using w by (auto simp: rot_Write_def ensure_def file_Write_def NewRotator_def Let_def)
  moreover have "rot_inv ?rf" by (simp add: rot_inv_def NewRotator_def)
  ultimately show ?thesis using rotator_write_correct [of ?rf True 9 "''ab''" rf' k e]
    by (auto simp: content_def)
qed

text \<open>The write that triggers a rotation is lost: the files are shifted, but the rotator is left
  without an open file, nothing is written and the write fails.\<close>

theorem rotation_loses_write:
  assumes "rot_inv (r, fs)" and "can_open \<or> r_open r"
    and "int (length (content (r, fs))) + int (length p) > r_max r"
    and "rot_Write can_open n p (r, fs) = ((r', fs'), k, e)"
  shows "e = Some InvalidFile \<and> k = 0 \<and> fs' (r_path r) = None
    \<and> fs' (numbered (r_path r) 1) = Some (content (r, fs))"
  using rot_Write_overflow [OF assms] by blast

theorem rotation_loses_write_witness:
  "\<exists>r' fs'. rot_Write True 9 ''cd'' (\<lparr>r_path = ''log'', r_open = True, r_size = 2, r_max = 3, r_keep = 2\<rparr>, [''log'' \<mapsto> ''ab''])
     = ((r', fs'), 0, Some InvalidFile) \<and> fs' ''log'' = None \<and> fs' (numbered ''log'' 1) = Some ''ab''"
proof -
  let ?r = "\<lparr>r_path = ''log'', r_open = True, r_size = 2, r_max = 3, r_keep = 2\<rparr>"
  let ?fs = "[''log'' \<mapsto> ''ab''] :: files"
  obtain r' fs' k e where w: "rot_Write True 9 ''cd'' (?r, ?fs) = ((r', fs'), k, e)" by (metis prod.exhaust)
  have "e = Some InvalidFile \<and> k = 0 \<and> fs' (r_path ?r) = None
    \<and> fs' (numbered (r_path ?r) 1) = Some (content (?r, ?fs))"
    by (rule rotation_loses_write [OF _ _ _ w]) (simp_all add: rot_inv_def content_def)
  with w show ?thesis by (auto simp: content_def)
qed

section \<open>Rate limit\<close>

text \<open>C34: However many connections share a rule's bucket and however their requests interleave, the
  bytes granted between two instants are at most one second's worth plus the rate times the
  time between them.\<close>

theorem rate_bounded:
  assumes "bucket_ok l" and "sorted (last_ns l # map fst es)" and "list_all (\<lambda>(t, n). 0 \<le> n) es"
    and "run_steps es l = (l', sent)"
  shows "of_int sent \<le> rate l * (1 + seconds (last_ns l' - last_ns l))"
proof -
  have "bucket_ok l'"
    using run_steps_ok [OF assms(1,2)] assms(3,4) by (simp add: list_all_iff)
  then have "0 \<le> tokens l'" by (simp add: bucket_ok_def)
  moreover have "tokens l \<le> rate l" using assms(1) by (simp add: bucket_ok_def)
  moreover have "tokens l' + of_int sent \<le> tokens l + seconds (last_ns l' - last_ns l) * rate l"
    using run_steps_potential [OF assms(4)] by simp
  ultimately show ?thesis by (simp add: distrib_left mult.commute)
qed

theorem rate_bounded_witness:
  "\<exists>l' sent. run_steps [(0, 100000), (0, 100000), (500000000, 60000)] \<lparr>rate = 131072, tokens = 131072, last_ns = 0\<rparr> = (l', sent)
     \<and> of_int sent \<le> 131072 * (1 + seconds (last_ns l'))"
proof -
  let ?l = "\<lparr>rate = 131072, tokens = 131072, last_ns = 0\<rparr>"
  let ?es = "[(0, 100000), (0, 100000), (500000000, 60000)] :: (int \<times> int) list"
  obtain l' sent where r: "run_steps ?es ?l = (l', sent)" by fastforce
  have "of_int sent \<le> rate ?l * (1 + seconds (last_ns l' - last_ns ?l))"
    by (rule rate_bounded [OF _ _ _ r]) (simp_all add: bucket_ok_def)
  with r show ?thesis by auto
qed

text \<open>A request for at most the 16 KiB chunk of the TCP copy, or a whole datagram, returns after
  at most three rounds of the loop, with any limit of at least one megabit.\<close>

theorem wait_returns:
  assumes "NewLimiter mbps t0 = Some l0" and "rate l = rate l0" and "0 \<le> tokens l" and "tokens l \<le> rate l"
    and "n \<le> 65535" and "paced n l [t1, t2, t3]"
  shows "Wait [t1, t2, t3] n (Some l) \<noteq> None"
proof (rule Wait_three)
  have r: "bucket_ok l0" "131072 \<le> rate l0" using NewLimiter_ok [OF assms(1)] by simp_all
  then show "bucket_ok l" using assms(2-4) by (simp add: bucket_ok_def)
  have "of_int n \<le> (65535 :: real)" using assms(5) by simp
  then show "of_int n \<le> rate l" using r(2) assms(2) by simp
  show "paced n l [t1, t2, t3]" by (rule assms(6))
qed

theorem wait_returns_witness:
  "Wait [1000, 1000001000, 2000001000] 65535 (Some \<lparr>rate = 131072, tokens = 0, last_ns = 0\<rparr>) \<noteq> None"
  by (rule wait_returns [of 1 0 "\<lparr>rate = 131072, tokens = 131072, last_ns = 0\<rparr>"])
     (simp_all add: NewLimiter_def wait_step_def sleep_ns_def seconds_def Let_def, linarith?)

section \<open>Dialling\<close>




section \<open>PROXY protocol\<close>

text \<open>When a visitor's or the local address is IPv6, the version 2 header is self-consistent: a
  receiver takes exactly the header and hands the visitor's bytes on untouched.\<close>

theorem proxy_v2_ipv6_clean:
  assumes "ip_ok (IP src)" and "ip_ok (IP dst)" and "To4 (IP src) = None \<or> To4 (IP dst) = None"
  shows "\<exists>h. ProxyHeader 2 src dst = Inr h \<and> pp2_receive (h @ data) = Some (h, data)"
proof -
  from ProxyHeader_v6_shape [OF assms] obtain body where
    b: "ProxyHeader 2 src dst = Inr (pp_signature @ [0x21, 0x22] @ put_u16 36 @ body)" "length body = 36" by blast
  have "pp2_receive (pp_signature @ [0x21, 0x22] @ put_u16 36 @ body @ data) = Some (pp_signature @ [0x21, 0x22]
      @ put_u16 36 @ take 36 (body @ data), drop 36 (body @ data))"
    by (rule pp2_receive_header) (simp_all add: b(2))
  with b show ?thesis by auto
qed

theorem proxy_v2_ipv6_clean_witness:
  "\<exists>h. ProxyHeader 2 \<lparr>IP = [0, 0, 0, 0, 0, 0, 0, 0, 0, 0, 0, 0, 0, 0, 0, 1], Port = 4000\<rparr> \<lparr>IP = [0, 0, 0, 0, 0, 0, 0, 0, 0, 0, 0, 0, 0, 0, 0, 2], Port = 80\<rparr> = Inr h
    \<and> pp2_receive (h @ [9]) = Some (h, [9])"
  by (rule proxy_v2_ipv6_clean) (simp_all add: ip_ok_def To4_def)

text \<open>For two IPv4 addresses the header announces 16 bytes of addresses and carries 12, so a
  receiver takes the first four bytes of the visitor's data for part of the header.\<close>

theorem proxy_v2_ipv4_swallows:
  assumes "To4 (IP src) \<noteq> None" and "To4 (IP dst) \<noteq> None" and "4 \<le> length data"
  shows "\<exists>h. ProxyHeader 2 src dst = Inr h \<and> pp2_receive (h @ data) = Some (h @ take 4 data, drop 4 data)"
proof -
  obtain s4 d4 where "To4 (IP src) = Some s4" "To4 (IP dst) = Some d4" using assms(1,2) by blast
  from ProxyHeader_v4_shape [OF this] obtain body where
    b: "ProxyHeader 2 src dst = Inr (pp_signature @ [0x21, 0x11] @ put_u16 16 @ body)" "length body = 12" by blast
  have "pp2_receive (pp_signature @ [0x21, 0x11] @ put_u16 16 @ body @ data) = Some (pp_signature @ [0x21, 0x11]
      @ put_u16 16 @ take 16 (body @ data), drop 16 (body @ data))"
    by (rule pp2_receive_header) (use assms(3) b(2) in simp_all)
  with b show ?thesis by simp
qed

theorem proxy_v2_ipv4_swallows_witness:
  "\<exists>h. ProxyHeader 2 \<lparr>IP = [10, 0, 0, 1], Port = 4000\<rparr> \<lparr>IP = [10, 0, 0, 2], Port = 80\<rparr> = Inr h
    \<and> pp2_receive (h @ [0x47, 0x45, 0x54, 0x20, 0x2F]) = Some (h @ [0x47, 0x45, 0x54, 0x20], [0x2F])"
  using proxy_v2_ipv4_swallows [of "\<lparr>IP = [10, 0, 0, 1], Port = 4000\<rparr>" "\<lparr>IP = [10, 0, 0, 2], Port = 80\<rparr>"
      "[0x47, 0x45, 0x54, 0x20, 0x2F]"] by (simp add: To4_def)

section \<open>Copying\<close>

text \<open>One direction of the relay delivers a prefix of what it reads, in order; it loses at most one
  chunk, and only when the destination fails; the rule's counter grows by exactly the bytes
  delivered, and every request to the limiter is for one non-empty chunk of at most 16 KiB.\<close>

theorem copy_faithful:
  assumes "io_copy es \<lparr>inp = i, out = [], counter = c, asked = []\<rparr> = (st', r)"
  shows "\<exists>lost. i = out st' @ lost @ inp st' \<and> (r \<noteq> SinkFailed \<longrightarrow> lost = []) \<and> length lost \<le> 16384
     \<and> counter st' = c + int (length (out st')) \<and> list_all (\<lambda>n. 0 < n \<and> n \<le> 16384) (asked st')"
  using io_copy_spec [OF assms] by (auto simp: chunk_max_def list_all_iff)

theorem copy_faithful_witness:
  "\<exists>st' lost. io_copy [(2, 9), (3, 1)] \<lparr>inp = [1, 2, 3, 4, 5, 6], out = [], counter = 0, asked = []\<rparr> = (st', SinkFailed)
     \<and> [1, 2, 3, 4, 5, 6] = out st' @ lost @ inp st' \<and> counter st' = int (length (out st')) \<and> out st' = [1, 2, 3]"
proof -
  obtain st' r where c: "io_copy [(2, 9), (3, 1)] \<lparr>inp = [1, 2, 3, 4, 5, 6], out = [], counter = 0, asked = []\<rparr> = (st', r)"
    by fastforce
  moreover have "r = SinkFailed" "out st' = [1, 2, 3]"
    using c by (auto simp: reader_Read_def writer_Write_def copy_buffer_def chunk_max_def Let_def)
  ultimately show ?thesis using copy_faithful [OF c] by auto
qed

text \<open>C36: Without an idle timeout the relay ends together: once one direction has ended, in any state
  the two can reach, at most three more steps are possible, and while one is left, one is
  possible.\<close>

theorem pipe_ends:
  assumes "pipe_reach False s" and "pc s d = Ended" and "pipe_run False s ts"
  shows "length ts \<le> 3 \<and> (pc s (other d) = Ended \<or> (\<exists>t. pipe_step False s t))"
proof -
  have "length ts \<le> pc_left (pc s (other d))"
    using pipe_run_short [OF assms(3) pipe_reach_cut [OF assms(1)] assms(2)] .
  moreover have "pc_left (pc s (other d)) \<le> 3" by (cases "pc s (other d)") simp_all
  ultimately have "length ts \<le> 3" by linarith
  then show ?thesis using pipe_progress [of s "other d" False] by blast
qed

theorem pipe_ends_witness:
  "\<exists>s. pc s AtoB = Ended \<and> (pc s BtoA = Ended \<or> (\<exists>t. pipe_step False s t))"
proof -
  let ?s1 = "Pipe_init\<lparr>pc := (pc Pipe_init)(AtoB := Blocked), past := past Pipe_init\<rparr>"
  let ?s2 = "?s1\<lparr>pc := (pc ?s1)(AtoB := Ended), past := (past ?s1)(other AtoB := True)\<rparr>"
  have "pipe_step False Pipe_init ?s1" using pipe_step.enter [of Pipe_init AtoB False] by (simp add: Pipe_init_def)
  moreover have "pipe_step False ?s1 ?s2" by (rule pipe_step.read_ends) simp
  ultimately have "pipe_reach False ?s2" by (blast intro: pipe_reach.intros)
  from pipe_ends [OF this, of AtoB "[]"] show ?thesis by (intro exI [of _ ?s2]) simp
qed

end
