(* ===== verification/Clock.thy ===== *)
theory Clock
  imports Prelude
begin

text \<open>
  Instants and durations of package \<open>time\<close>: nanoseconds since the Unix epoch. \<open>zero_time\<close> is
  \<open>time.Time{}\<close>; \<open>Sub\<close> saturates at the range of a 64-bit duration.
\<close>

definition Second :: int where
  "Second = 1000000000"

definition Minute :: int where
  "Minute = 60 * Second"

definition zero_time :: int where
  "zero_time = - 62135596800 * Second"

definition time_sub :: "int \<Rightarrow> int \<Rightarrow> int" where
  "time_sub a b = max (- (2 ^ 63)) (min (2 ^ 63 - 1) (a - b))"

definition Unix :: "int \<Rightarrow> int" where
  "Unix t = t div Second"

lemma time_sub_greater: "0 \<le> w \<Longrightarrow> w < 2 ^ 63 - 1 \<Longrightarrow> time_sub a b > w \<longleftrightarrow> a - b > w"
  by (auto simp: time_sub_def)

lemma time_sub_less: "0 \<le> w \<Longrightarrow> w < 2 ^ 63 - 1 \<Longrightarrow> time_sub a b < w \<longleftrightarrow> a - b < w"
  by (auto simp: time_sub_def)

lemma Second_pos [simp]: "0 < Second"
  by (simp add: Second_def)

lemma zero_time_neg: "zero_time < 0"
  by (simp add: zero_time_def Second_def)

end
