(* ===== verification/Notifier.thy ===== *)
theory Notifier
  imports Clock
begin

text \<open>
  The webhook notifier (\<open>server/notify.go\<close>): settings, payload formats and the debouncing of
  repeated events. What is posted is recorded in \<open>n_posts\<close>, newest first; the outcome of an
  asynchronous post is only logged by the source and is not modelled, that of the synchronous
  test is an argument.
\<close>

definition notifyDebounce :: int where
  "notifyDebounce = 60 * Second"

text \<open>The events of the server with the values their messages are formatted from.\<close>

datatype notice =
    ClientUp string string
  | ClientDown string
  | AuthBlock string int
  | RuleError string string
  | ReverseError string string
  | TestNotice

fun event_name :: "notice \<Rightarrow> string" where
  "event_name (ClientUp _ _) = ''client_up''"
| "event_name (ClientDown _) = ''client_down''"
| "event_name (AuthBlock _ _) = ''auth_block''"
| "event_name (RuleError _ _) = ''rule_error''"
| "event_name (ReverseError _ _) = ''reverse_error''"
| "event_name TestNotice = ''test''"

datatype payload = DingTalk notice | Feishu notice | Generic string notice int

record post =
  po_url :: string
  po_key :: "string option"
  po_time :: int
  po_body :: payload

record notifier =
  n_url :: string
  n_format :: string
  n_last :: "int gomap"
  n_posts :: "post list"

definition norm_format :: "string \<Rightarrow> string" where
  "norm_format format =
     (if format \<noteq> ''dingtalk'' \<and> format \<noteq> ''feishu'' then ''generic'' else format)"

definition newNotifier :: "string \<Rightarrow> string \<Rightarrow> notifier" where
  "newNotifier url format = \<lparr>n_url = url, n_format = norm_format format, n_last = [], n_posts = []\<rparr>"

definition notifier_set :: "string \<Rightarrow> string \<Rightarrow> notifier \<Rightarrow> notifier" where
  "notifier_set url format n = n\<lparr>n_url := url, n_format := norm_format format\<rparr>"

definition notifier_get :: "notifier \<Rightarrow> string \<times> string" where
  "notifier_get n = (n_url n, n_format n)"

definition make_payload :: "string \<Rightarrow> notice \<Rightarrow> int \<Rightarrow> payload" where
  "make_payload format msg now =
     (if format = ''dingtalk'' then DingTalk msg
      else if format = ''feishu'' then Feishu msg
      else Generic (event_name msg) msg now)"

definition send :: "int \<Rightarrow> string \<Rightarrow> notice \<Rightarrow> notifier \<Rightarrow> notifier" where
  "send now key msg n =
     (let (url, format) = notifier_get n in
      if url = [] then n
      else (let t = (case lookup (n_last n) key of None \<Rightarrow> zero_time | Some t \<Rightarrow> t) in
            if time_sub now t < notifyDebounce then n
            else n\<lparr>n_last := put key now (n_last n),
                   n_posts := \<lparr>po_url = url, po_key = Some key, po_time = now,
                               po_body = make_payload format msg now\<rparr> # n_posts n\<rparr>))"

datatype send_error = NoURL | PostFailed | BadStatus int

text \<open>\<open>sendNow\<close>: \<open>None\<close> as the answer is a failed request, \<open>Some s\<close> its status.\<close>

definition sendNow :: "int \<Rightarrow> int option \<Rightarrow> notice \<Rightarrow> notifier \<Rightarrow> notifier \<times> send_error option" where
  "sendNow now answer msg n =
     (let (url, format) = notifier_get n in
      if url = [] then (n, Some NoURL)
      else (n\<lparr>n_posts := \<lparr>po_url = url, po_key = None, po_time = now,
                         po_body = make_payload format msg now\<rparr> # n_posts n\<rparr>,
            case answer of
              None \<Rightarrow> Some PostFailed
            | Some s \<Rightarrow> if s \<ge> 300 then Some (BadStatus s) else None))"

lemma notifyDebounce_bounds: "0 < notifyDebounce" "notifyDebounce < 2 ^ 63 - 1"
  by (simp_all add: notifyDebounce_def Second_def)

lemma norm_format_cases: "norm_format f \<in> {''generic'', ''dingtalk'', ''feishu''}"
  by (auto simp: norm_format_def)

lemma send_url [simp]: "n_url (send now key msg n) = n_url n"
  by (simp add: send_def notifier_get_def Let_def)

lemma send_format [simp]: "n_format (send now key msg n) = n_format n"
  by (simp add: send_def notifier_get_def Let_def)

text \<open>The posts of one key, newest first, and the invariant that keeps them a minute apart.\<close>

definition posts_of :: "string \<Rightarrow> notifier \<Rightarrow> int list" where
  "posts_of key n = map po_time (filter (\<lambda>p. po_key p = Some key) (n_posts n))"

fun spaced :: "int list \<Rightarrow> bool" where
  "spaced (b # a # ts) = (notifyDebounce \<le> b - a \<and> spaced (a # ts))"
| "spaced _ = True"

definition debounce_inv :: "notifier \<Rightarrow> bool" where
  "debounce_inv n \<longleftrightarrow>
     (\<forall>key. spaced (posts_of key n)
        \<and> (case posts_of key n of [] \<Rightarrow> True | t # _ \<Rightarrow> lookup (n_last n) key = Some t))"

lemma debounce_inv_new: "debounce_inv (newNotifier url format)"
  by (simp add: debounce_inv_def newNotifier_def posts_of_def)

lemma debounce_inv_set: "debounce_inv n \<Longrightarrow> debounce_inv (notifier_set url format n)"
  by (simp add: debounce_inv_def notifier_set_def posts_of_def cong: list.case_cong)

lemma debounce_inv_send:
  assumes "debounce_inv n"
  shows "debounce_inv (send now key msg n)"
proof -
  let ?n = "send now key msg n"
  have "spaced (posts_of k ?n) \<and> (case posts_of k ?n of [] \<Rightarrow> True | t # _ \<Rightarrow> lookup (n_last ?n) k = Some t)" for k
  proof -
    from assms have k: "spaced (posts_of k n)"
      "case posts_of k n of [] \<Rightarrow> True | t # _ \<Rightarrow> lookup (n_last n) k = Some t"
      by (auto simp: debounce_inv_def)
    show ?thesis
      using k notifyDebounce_bounds
      by (cases "posts_of k n")
         (auto simp: send_def notifier_get_def Let_def posts_of_def time_sub_less not_less
           split: option.splits)
  qed
  then show ?thesis unfolding debounce_inv_def by blast
qed

lemma debounce_inv_sendNow: "debounce_inv n \<Longrightarrow> debounce_inv (fst (sendNow now answer msg n))"
  by (simp add: debounce_inv_def sendNow_def notifier_get_def Let_def posts_of_def cong: list.case_cong)

lemma send_posts_when_quiet:
  assumes "n_url n \<noteq> []" and "case lookup (n_last n) key of None \<Rightarrow> zero_time + notifyDebounce \<le> now
      | Some t \<Rightarrow> t + notifyDebounce \<le> now"
  shows "posts_of key (send now key msg n) = now # posts_of key n"
proof -
  have "\<not> time_sub now (case lookup (n_last n) key of None \<Rightarrow> zero_time | Some t \<Rightarrow> t) < notifyDebounce"
    using assms(2) notifyDebounce_bounds by (simp add: time_sub_less split: option.splits)
  with assms(1) show ?thesis
    by (simp add: send_def notifier_get_def posts_of_def Let_def)
qed

end
