(* ===== verification/Rules.thy ===== *)
theory Rules
  imports Relay Notifier
begin

text \<open>
  Forwarding rules on the server: validation and the port check (\<open>validateRule\<close>, \<open>portConflict\<close>
  of \<open>server/state.go\<close>) and the listeners that serve them (\<open>runner\<close>, \<open>sameAs\<close>, \<open>startRule\<close>,
  \<open>applyRulesLocked\<close> of \<open>server/server.go\<close>). Binding a port is the operating system's: \<open>os held p n\<close>
  is its error for protocol \<open>p\<close> and port \<open>n\<close> when this process holds the sockets \<open>held\<close>.
\<close>

section \<open>Validation\<close>

datatype rule_error =
    EmptyName | BadSide | BadProto | BadListen | EmptyTarget | NeedClient | BadACL acl_error
  | NegativeLimit | BadIdle | BadProxyProto | ProxyNotTCP | BadTarget string | TooManyTargets
  | UnknownClient string

definition validateRule :: "rule \<Rightarrow> client_user list \<Rightarrow> rule_error option" where
  "validateRule r clients =
     (if Name r = [] then Some EmptyName
      else if Side r \<noteq> [] \<and> Side r \<noteq> ''server'' \<and> Side r \<noteq> ''client'' then Some BadSide
      else if Proto r \<noteq> ''tcp'' \<and> Proto r \<noteq> ''udp'' then Some BadProto
      else if Listen r < 1 \<or> Listen r > 65535 then Some BadListen
      else if Target r = [] then Some EmptyTarget
      else if SideOf r = ''client'' \<and> Client r = [] then Some NeedClient
      else case NewACL (AllowFrom r) of
             Inl e \<Rightarrow> Some (BadACL e)
           | Inr _ \<Rightarrow>
               if MaxMbps r < 0 \<or> MaxConns r < 0 then Some NegativeLimit
               else if IdleMin r < 0 \<or> IdleMin r > 24 * 60 then Some BadIdle
               else if ProxyProto r < 0 \<or> ProxyProto r > 2 then Some BadProxyProto
               else if ProxyProto r > 0 \<and> Proto r \<noteq> ''tcp'' then Some ProxyNotTCP
               else case List.find (\<lambda>t. SplitHostPort t = None) (ParseTargets (Target r)) of
                      Some t \<Rightarrow> Some (BadTarget t)
                    | None \<Rightarrow>
                        if length (ParseTargets (Target r)) > 16 then Some TooManyTargets
                        else if Client r \<noteq> [] \<and> \<not> list_ex (\<lambda>c. cu_Name c = Client r) clients
                        then Some (UnknownClient (Client r))
                        else None)"

text \<open>What an accepted rule satisfies.\<close>

definition rule_ok :: "rule \<Rightarrow> client_user list \<Rightarrow> bool" where
  "rule_ok r clients \<longleftrightarrow>
     Name r \<noteq> [] \<and> Side r \<in> {[], ''server'', ''client''} \<and> Proto r \<in> {''tcp'', ''udp''}
     \<and> Listen r \<in> {1..65535} \<and> Target r \<noteq> [] \<and> (Side r = ''client'' \<longrightarrow> Client r \<noteq> [])
     \<and> (\<forall>e \<in> set (AllowFrom r). entry_ok e) \<and> 0 \<le> MaxMbps r \<and> 0 \<le> MaxConns r
     \<and> IdleMin r \<in> {0..1440} \<and> ProxyProto r \<in> {0..2} \<and> (0 < ProxyProto r \<longrightarrow> Proto r = ''tcp'')
     \<and> (\<forall>t \<in> set (ParseTargets (Target r)). SplitHostPort t \<noteq> None)
     \<and> length (ParseTargets (Target r)) \<le> 16
     \<and> (Client r \<noteq> [] \<longrightarrow> Client r \<in> cu_Name ` set clients)"

lemma if_Some_eq_None: "(if c then Some e else x) = None \<longleftrightarrow> \<not> c \<and> x = None"
  by simp

lemma find_bad_target:
  "(case List.find (\<lambda>t. SplitHostPort t = None) ts of Some t \<Rightarrow> Some (BadTarget t) | None \<Rightarrow> x) = None
     \<longleftrightarrow> (\<forall>t \<in> set ts. SplitHostPort t \<noteq> None) \<and> x = None"
proof (cases "List.find (\<lambda>t. SplitHostPort t = None) ts")
  case None
  then have "\<forall>t \<in> set ts. SplitHostPort t \<noteq> None" using find_None_iff [of "\<lambda>t. SplitHostPort t = None" ts] by auto
  with None show ?thesis by simp
next
  case (Some t)
  then have "t \<in> set ts" and "SplitHostPort t = None"
    unfolding find_Some_iff in_set_conv_nth by blast+
  with Some show ?thesis by (auto intro!: bexI [of _ t])
qed

lemma known_client: "list_ex (\<lambda>c. cu_Name c = n) cs \<longleftrightarrow> n \<in> cu_Name ` set cs"
  by (auto simp: list_ex_iff)

lemma bad_acl:
  "(case NewACL es of Inl e \<Rightarrow> Some (BadACL e) | Inr a \<Rightarrow> x) = None
     \<longleftrightarrow> (\<forall>e \<in> set es. entry_ok e) \<and> x = None"
  using NewACL_ok_iff [of es] by (cases "NewACL es") auto

lemma validateRule_iff: "validateRule r cs = None \<longleftrightarrow> rule_ok r cs"
  unfolding validateRule_def rule_ok_def if_Some_eq_None bad_acl find_bad_target known_client
  by (simp add: SideOf_def not_less) (safe; simp)

section \<open>Ports\<close>

definition clash :: "rule \<Rightarrow> rule \<Rightarrow> bool" where
  "clash r cur \<longleftrightarrow>
     (SideOf r = ''server'' \<and> SideOf cur = ''server'')
     \<or> (SideOf r = ''client'' \<and> SideOf cur = ''client'' \<and> Client cur = Client r)"

fun port_scan :: "nat \<Rightarrow> rule list \<Rightarrow> int \<Rightarrow> int \<Rightarrow> rule \<Rightarrow> string \<Rightarrow> rule option" where
  "port_scan i [] skipIdx listen r skip = None"
| "port_scan i (cur # rules) skipIdx listen r skip =
     (if int i = skipIdx \<or> Listen cur \<noteq> listen \<or> ID cur = skip
      then port_scan (Suc i) rules skipIdx listen r skip
      else if clash r cur then Some cur
      else port_scan (Suc i) rules skipIdx listen r skip)"

definition portConflict :: "rule list \<Rightarrow> int \<Rightarrow> int \<Rightarrow> rule \<Rightarrow> string \<Rightarrow> rule option" where
  "portConflict rules skipIdx listen r skip = port_scan 0 rules skipIdx listen r skip"

lemma port_scan_None_iff:
  "port_scan i rules skipIdx listen r skip = None \<longleftrightarrow>
     (\<forall>j < length rules. int (i + j) = skipIdx \<or> Listen (rules ! j) \<noteq> listen \<or> ID (rules ! j) = skip
        \<or> \<not> clash r (rules ! j))"
proof (induction rules arbitrary: i)
  case Nil
  then show ?case by simp
next
  case (Cons cur rules)
  then show ?case by (auto simp: less_Suc_eq_0_disj)
qed

lemma clash_sym: "clash a b = clash b a"
  by (auto simp: clash_def)

text \<open>No two rules want the same port in the same place.\<close>

definition ports_ok :: "rule list \<Rightarrow> bool" where
  "ports_ok rs \<longleftrightarrow>
     (\<forall>i < length rs. \<forall>j < length rs. i \<noteq> j \<longrightarrow> Listen (rs ! i) = Listen (rs ! j) \<longrightarrow> \<not> clash (rs ! i) (rs ! j))"

definition ids_ok :: "rule list \<Rightarrow> bool" where
  "ids_ok rs \<longleftrightarrow> distinct (map ID rs) \<and> (\<forall>r \<in> set rs. ID r \<noteq> [])"

lemma ports_ok_update:
  assumes "ports_ok rs" and "i < length rs"
    and "\<forall>j < length rs. j \<noteq> i \<longrightarrow> Listen (rs ! j) = Listen r \<longrightarrow> \<not> clash r (rs ! j)"
  shows "ports_ok (rs[i := r])"
  using assms by (auto simp: ports_ok_def nth_list_update clash_sym)

lemma ports_ok_snoc:
  assumes "ports_ok rs" and "\<forall>j < length rs. Listen (rs ! j) = Listen r \<longrightarrow> \<not> clash r (rs ! j)"
  shows "ports_ok (rs @ [r])"
  using assms by (auto simp: ports_ok_def nth_append less_Suc_eq clash_sym)

lemma ports_ok_remove:
  assumes "ports_ok rs"
  shows "ports_ok (remove_nth i rs)"
  unfolding ports_ok_def
proof (intro allI impI)
  let ?f = "\<lambda>j. if j < i then j else Suc j"
  have nth: "remove_nth i rs ! j = rs ! ?f j" "?f j < length rs" if "j < length (remove_nth i rs)" for j
    using that by (auto simp: remove_nth_def nth_append min_def split: if_splits)
  fix a b
  assume a: "a < length (remove_nth i rs)" and b: "b < length (remove_nth i rs)" and "a \<noteq> b"
    and "Listen (remove_nth i rs ! a) = Listen (remove_nth i rs ! b)"
  moreover from \<open>a \<noteq> b\<close> have "?f a \<noteq> ?f b" by auto
  ultimately show "\<not> clash (remove_nth i rs ! a) (remove_nth i rs ! b)"
    using assms [unfolded ports_ok_def, rule_format, OF nth(2) [OF a] nth(2) [OF b]]
      nth(1) [OF a] nth(1) [OF b] by simp
qed

lemma ids_ok_remove: "ids_ok rs \<Longrightarrow> ids_ok (remove_nth i rs)"
  unfolding ids_ok_def using set_remove_nth_subset [of i rs] distinct_map_remove_nth by blast

lemma ids_ok_update:
  assumes "ids_ok rs" and "i < length rs" and "ID r = ID (rs ! i)"
  shows "ids_ok (rs[i := r])"
proof -
  have "map ID (rs[i := r]) = map ID rs"
    using assms by (simp add: map_update list_update_same_conv)
  then have "distinct (map ID (rs[i := r]))" and "ID ` set (rs[i := r]) = ID ` set rs"
    using assms(1) unfolding ids_ok_def by (metis, metis list.set_map)
  with assms(1) show ?thesis unfolding ids_ok_def by (metis imageE imageI)
qed

section \<open>Listeners\<close>

text \<open>
  A running listener: the signature the diff compares, and the copy of the rule that its
  goroutine captured when it started, with the loop that goroutine runs.
\<close>

datatype loop = AcceptTCP | UdpLocalRelay | UdpTunnelRelay

record runner =
  rn_proto :: string
  rn_listen :: int
  rn_target :: string
  rn_client :: string
  rn_loop :: loop
  rn_rule :: rule

definition sameAs :: "runner \<Rightarrow> rule \<Rightarrow> bool" where
  "sameAs rn r \<longleftrightarrow>
     rn_proto rn = Proto r \<and> rn_listen rn = Listen r \<and> rn_target rn = Target r \<and> rn_client rn = Client r"

type_synonym os = "(string \<times> int) list \<Rightarrow> string \<Rightarrow> int \<Rightarrow> string option"

definition held :: "runner gomap \<Rightarrow> (string \<times> int) list" where
  "held rns = map (\<lambda>(id, rn). (rn_proto rn, rn_listen rn)) rns"

definition startRule :: "os \<Rightarrow> (string \<times> int) list \<Rightarrow> rule \<Rightarrow> string + runner" where
  "startRule os h r =
     (if Proto r = ''tcp'' then
        (case os h ''tcp'' (Listen r) of
           Some e \<Rightarrow> Inl e
         | None \<Rightarrow> Inr \<lparr>rn_proto = Proto r, rn_listen = Listen r, rn_target = Target r,
                       rn_client = Client r, rn_loop = AcceptTCP, rn_rule = r\<rparr>)
      else if Proto r = ''udp'' then
        (case os h ''udp'' (Listen r) of
           Some e \<Rightarrow> Inl e
         | None \<Rightarrow> Inr \<lparr>rn_proto = Proto r, rn_listen = Listen r, rn_target = Target r,
                       rn_client = Client r,
                       rn_loop = (if Client r = [] then UdpLocalRelay else UdpTunnelRelay),
                       rn_rule = r\<rparr>)
      else Inl (''unknown protocol '' @ Proto r))"

lemma startRule_sameAs: "startRule os h r = Inr rn \<Longrightarrow> sameAs rn r \<and> rn_rule rn = r"
  by (auto simp: startRule_def sameAs_def split: if_splits option.splits)

definition wanted :: "rule \<Rightarrow> bool" where
  "wanted r \<longleftrightarrow> Enabled r \<and> SideOf r = ''server''"

definition desired_rules :: "rule list \<Rightarrow> rule gomap" where
  "desired_rules rs = foldl (\<lambda>m r. if wanted r then put (ID r) r m else m) [] rs"

definition apply_one :: "os \<Rightarrow> int \<Rightarrow> string \<times> rule \<Rightarrow> runner gomap \<times> notifier \<Rightarrow> runner gomap \<times> notifier" where
  "apply_one os now idr st =
     (let (id, r) = idr; (rns, n) = st in
      case lookup rns id of
        Some cur \<Rightarrow>
          if sameAs cur r then st
          else (let rns1 = del id rns in
                case startRule os (held rns1) r of
                  Inl e \<Rightarrow> (rns1, send now (''rule_error|'' @ id) (RuleError (Name r) e) n)
                | Inr rn \<Rightarrow> (put id rn rns1, n))
      | None \<Rightarrow>
          (case startRule os (held rns) r of
             Inl e \<Rightarrow> (rns, send now (''rule_error|'' @ id) (RuleError (Name r) e) n)
           | Inr rn \<Rightarrow> (put id rn rns, n)))"

text \<open>\<open>applyRulesLocked\<close>; \<open>ord\<close> is the order in which the map of desired rules is visited.\<close>

definition applyRulesLocked ::
  "os \<Rightarrow> (rule gomap \<Rightarrow> rule gomap) \<Rightarrow> int \<Rightarrow> rule list \<Rightarrow> runner gomap \<times> notifier \<Rightarrow> runner gomap \<times> notifier" where
  "applyRulesLocked os ord now rules st =
     (let desired = desired_rules rules;
          (rns, n) = foldl (\<lambda>st idr. apply_one os now idr st) st (ord desired)
      in (filter (\<lambda>(id, cur). lookup desired id \<noteq> None) rns, n))"

definition go_order :: "(rule gomap \<Rightarrow> rule gomap) \<Rightarrow> bool" where
  "go_order ord \<longleftrightarrow> (\<forall>m. mset (ord m) = mset m)"

section \<open>What the diff achieves\<close>

lemma desired_rules_gen:
  "lookup (foldl (\<lambda>m r. if wanted r then put (ID r) r m else m) m rs) rid = Some r \<Longrightarrow>
     lookup m rid = Some r \<or> (r \<in> set rs \<and> wanted r \<and> ID r = rid)"
  by (induction rs arbitrary: m) (fastforce split: if_splits)+

lemma desired_rules_SomeD:
  "lookup (desired_rules rs) rid = Some r \<Longrightarrow> r \<in> set rs \<and> wanted r \<and> ID r = rid"
  using desired_rules_gen [of "[]" rs rid r] by (simp add: desired_rules_def)

lemma distinct_desired [simp]: "distinct (keys (desired_rules rs))"
proof -
  have "distinct (keys m) \<Longrightarrow>
      distinct (keys (foldl (\<lambda>m r. if wanted r then put (ID r) r m else m) m rs))" for m
    by (induction rs arbitrary: m) (auto simp: distinct_keys_put)
  from this [of "[]"] show ?thesis by (simp add: desired_rules_def)
qed

lemma desired_rules_defined:
  "lookup m rid \<noteq> None \<or> (\<exists>r \<in> set rs. wanted r \<and> ID r = rid) \<Longrightarrow>
     lookup (foldl (\<lambda>m r. if wanted r then put (ID r) r m else m) m rs) rid \<noteq> None"
proof (induction rs arbitrary: m)
  case Nil
  then show ?case by simp
next
  case (Cons r rs)
  let ?m = "if wanted r then put (ID r) r m else m"
  have "lookup ?m rid \<noteq> None \<or> (\<exists>r \<in> set rs. wanted r \<and> ID r = rid)"
    using Cons.prems by (cases "wanted r") auto
  from Cons.IH [OF this] show ?case by simp
qed

lemma lookup_desired:
  assumes "distinct (map ID rs)"
  shows "lookup (desired_rules rs) rid = Some r \<longleftrightarrow> r \<in> set rs \<and> wanted r \<and> ID r = rid"
proof
  assume "lookup (desired_rules rs) rid = Some r"
  then show "r \<in> set rs \<and> wanted r \<and> ID r = rid" by (rule desired_rules_SomeD)
next
  assume r: "r \<in> set rs \<and> wanted r \<and> ID r = rid"
  then have "lookup (desired_rules rs) rid \<noteq> None"
    unfolding desired_rules_def by (intro desired_rules_defined) blast
  then obtain q where q: "lookup (desired_rules rs) rid = Some q" by blast
  then have "q \<in> set rs \<and> ID q = ID r" using desired_rules_SomeD r by blast
  with r assms have "q = r" by (metis distinct_map inj_onD)
  with q show "lookup (desired_rules rs) rid = Some r" by simp
qed

lemma lookup_desired_None:
  "lookup (desired_rules rs) rid = None \<longleftrightarrow> \<not> (\<exists>r \<in> set rs. wanted r \<and> ID r = rid)"
proof (cases "lookup (desired_rules rs) rid")
  case None
  have "(\<exists>r \<in> set rs. wanted r \<and> ID r = rid) \<Longrightarrow> lookup (desired_rules rs) rid \<noteq> None"
    unfolding desired_rules_def by (rule desired_rules_defined) blast
  with None show ?thesis by blast
next
  case (Some r)
  then have "r \<in> set rs" "wanted r" "ID r = rid" using desired_rules_SomeD by blast+
  with Some show ?thesis by auto
qed

abbreviation apply_loop ::
  "os \<Rightarrow> int \<Rightarrow> rule gomap \<Rightarrow> runner gomap \<times> notifier \<Rightarrow> runner gomap \<times> notifier" where
  "apply_loop os now ds st \<equiv> foldl (\<lambda>st idr. apply_one os now idr st) st ds"

lemma apply_one_other: "k \<noteq> fst idr \<Longrightarrow> lookup (fst (apply_one os now idr st)) k = lookup (fst st) k"
  by (auto simp: apply_one_def Let_def split: prod.splits option.splits sum.splits)

lemma apply_one_keys: "distinct (keys (fst st)) \<Longrightarrow> distinct (keys (fst (apply_one os now idr st)))"
  by (cases st; cases idr)
     (simp add: apply_one_def Let_def distinct_keys_put distinct_keys_del split: option.split sum.split)

lemma apply_one_self:
  "lookup (fst (apply_one os now (k, r) st)) k = Some rn \<Longrightarrow>
     sameAs rn r \<and> (lookup (fst st) k = Some rn \<or> rn_rule rn = r)"
  by (auto simp: apply_one_def Let_def split: prod.splits option.splits sum.splits if_splits
      dest: startRule_sameAs)

lemma apply_one_keeps:
  "lookup (fst st) k = Some cur \<Longrightarrow> sameAs cur r \<Longrightarrow> apply_one os now (k, r) st = st"
  by (cases st) (simp add: apply_one_def)

lemma apply_loop_other: "k \<notin> set (keys ds) \<Longrightarrow> lookup (fst (apply_loop os now ds st)) k = lookup (fst st) k"
  by (induction ds arbitrary: st) (auto simp: apply_one_other)

lemma apply_loop_keys: "distinct (keys (fst st)) \<Longrightarrow> distinct (keys (fst (apply_loop os now ds st)))"
  by (induction ds arbitrary: st) (auto simp: apply_one_keys)

lemma apply_loop_self:
  assumes "distinct (keys ds)" and "(k, r) \<in> set ds"
    and "lookup (fst (apply_loop os now ds st)) k = Some rn"
  shows "sameAs rn r \<and> (lookup (fst st) k = Some rn \<or> rn_rule rn = r)"
  using assms
proof (induction ds arbitrary: st)
  case Nil
  then show ?case by simp
next
  case (Cons d ds)
  show ?case
  proof (cases "d = (k, r)")
    case True
    with Cons.prems(1) have "k \<notin> set (keys ds)" by simp
    with Cons.prems True have "lookup (fst (apply_one os now (k, r) st)) k = Some rn"
      by (simp add: apply_loop_other)
    then show ?thesis by (rule apply_one_self)
  next
    case False
    with Cons.prems have mem: "(k, r) \<in> set ds" by simp
    have "k \<in> set (keys ds)" using mem by (rule key_in)
    moreover have "fst d \<notin> set (keys ds)" using Cons.prems(1) by simp
    ultimately have "k \<noteq> fst d" by metis
    then have other: "lookup (fst (apply_one os now d st)) k = lookup (fst st) k"
      by (rule apply_one_other)
    have "distinct (keys ds)" using Cons.prems(1) by simp
    moreover have "lookup (fst (apply_loop os now ds (apply_one os now d st))) k = Some rn"
      using Cons.prems(3) by simp
    ultimately show ?thesis using Cons.IH [of "apply_one os now d st"] mem other by simp
  qed
qed

lemma apply_loop_keeps:
  assumes "distinct (keys ds)" and "(k, r) \<in> set ds" and "lookup (fst st) k = Some cur" and "sameAs cur r"
  shows "lookup (fst (apply_loop os now ds st)) k = Some cur"
  using assms
proof (induction ds arbitrary: st)
  case Nil
  then show ?case by simp
next
  case (Cons d ds)
  show ?case
  proof (cases "d = (k, r)")
    case True
    with Cons.prems(1) have "k \<notin> set (keys ds)" by simp
    with Cons.prems True show ?thesis by (simp add: apply_one_keeps apply_loop_other)
  next
    case False
    with Cons.prems have mem: "(k, r) \<in> set ds" by simp
    have "k \<in> set (keys ds)" using mem by (rule key_in)
    moreover have "fst d \<notin> set (keys ds)" using Cons.prems(1) by simp
    ultimately have "k \<noteq> fst d" by metis
    then have "lookup (fst (apply_one os now d st)) k = Some cur"
      using Cons.prems(3) by (simp add: apply_one_other)
    moreover have "distinct (keys ds)" using Cons.prems(1) by simp
    ultimately have "lookup (fst (apply_loop os now ds (apply_one os now d st))) k = Some cur"
      using Cons.IH [of "apply_one os now d st"] mem Cons.prems(4) by simp
    then show ?thesis by simp
  qed
qed

text \<open>Sequential view of the diff: the loop over the desired rules, then the closing of the rest.\<close>

definition keep_desired :: "rule gomap \<Rightarrow> runner gomap \<Rightarrow> runner gomap" where
  "keep_desired ds rns = filter (\<lambda>(k, cur). lookup ds k \<noteq> None) rns"

lemma applyRulesLocked_eq:
  "applyRulesLocked os ord now rs st =
     (keep_desired (desired_rules rs) (fst (apply_loop os now (ord (desired_rules rs)) st)),
      snd (apply_loop os now (ord (desired_rules rs)) st))"
  by (simp add: applyRulesLocked_def keep_desired_def Let_def case_prod_beta)

lemma keep_desired_keys: "distinct (keys m) \<Longrightarrow> distinct (keys (keep_desired ds m))"
  by (simp add: keep_desired_def distinct_map_filter)

lemma lookup_keep_desired:
  "lookup (keep_desired ds m) k = (if lookup ds k = None then None else lookup m k)"
  unfolding keep_desired_def
proof (induction m)
  case Nil
  then show ?case by simp
next
  case (Cons p m)
  then show ?case by (cases p; cases "lookup ds (fst p)") simp_all
qed

lemma go_order_facts:
  assumes "go_order ord"
  shows "set (ord m) = set m" and "distinct (keys m) \<Longrightarrow> distinct (keys (ord m))"
proof -
  have m: "mset (ord m) = mset m" using assms by (simp add: go_order_def)
  then show "set (ord m) = set m" by (rule mset_eq_setD)
  from m have "mset (keys (ord m)) = mset (keys m)" by (simp add: mset_map)
  then show "distinct (keys m) \<Longrightarrow> distinct (keys (ord m))" by (metis mset_eq_imp_distinct_iff)
qed

text \<open>The listeners after the diff: only wanted rules, each with the signature of its rule, either
  the listener it had before or one started for the rule as it is now.\<close>

lemma apply_sound:
  assumes "go_order ord"
    and rn: "lookup (fst (applyRulesLocked os ord now rs st)) rid = Some rn"
  shows "\<exists>r. lookup (desired_rules rs) rid = Some r \<and> sameAs rn r
           \<and> (lookup (fst st) rid = Some rn \<or> rn_rule rn = r)"
proof -
  let ?ds = "ord (desired_rules rs)"
  from rn obtain r where r: "lookup (desired_rules rs) rid = Some r"
    and l: "lookup (fst (apply_loop os now ?ds st)) rid = Some rn"
    unfolding applyRulesLocked_eq fst_conv lookup_keep_desired by (cases "lookup (desired_rules rs) rid") simp_all
  have "(rid, r) \<in> set ?ds"
    unfolding go_order_facts(1) [OF assms(1)] by (rule lookup_Some_in [OF r])
  from apply_loop_self [OF go_order_facts(2) [OF assms(1) distinct_desired] this l] r show ?thesis by blast
qed

lemma apply_keys:
  "distinct (keys (fst st)) \<Longrightarrow> distinct (keys (fst (applyRulesLocked os ord now rs st)))"
  unfolding applyRulesLocked_eq fst_conv by (intro keep_desired_keys apply_loop_keys)

lemma apply_keeps:
  assumes "go_order ord" and r: "lookup (desired_rules rs) rid = Some r"
    and cur: "lookup (fst st) rid = Some cur" "sameAs cur r"
  shows "lookup (fst (applyRulesLocked os ord now rs st)) rid = Some cur"
proof -
  have "(rid, r) \<in> set (ord (desired_rules rs))"
    unfolding go_order_facts(1) [OF assms(1)] by (rule lookup_Some_in [OF r])
  from apply_loop_keeps [OF go_order_facts(2) [OF assms(1) distinct_desired] this cur] r show ?thesis
    unfolding applyRulesLocked_eq fst_conv lookup_keep_desired by simp
qed

text \<open>The diff touches the notifier only by sending.\<close>

lemma apply_notifier:
  assumes step: "\<And>key msg n. P n \<Longrightarrow> P (send now key msg n)" and "P (snd st)"
  shows "P (snd (applyRulesLocked os ord now rs st))"
proof -
  have one: "P (snd (apply_one os now d st))" if "P (snd st)" for d st
    using that by (cases st; cases d)
      (simp add: apply_one_def Let_def step split: option.split sum.split)
  have "P (snd (apply_loop os now ds st))" if "P (snd st)" for ds st
    using that by (induction ds arbitrary: st) (simp_all add: one)
  with assms(2) show ?thesis unfolding applyRulesLocked_eq by simp
qed

subsection \<open>When the ports are free\<close>

text \<open>An operating system that refuses a port exactly when this process holds it.\<close>

definition exclusive :: "os \<Rightarrow> bool" where
  "exclusive os \<longleftrightarrow> (\<forall>h p n. os h p n = None \<longleftrightarrow> (p, n) \<notin> set h)"

definition rule_port :: "rule \<Rightarrow> string \<times> int" where
  "rule_port r = (Proto r, Listen r)"

definition rn_port :: "runner \<Rightarrow> string \<times> int" where
  "rn_port rn = (rn_proto rn, rn_listen rn)"

definition served :: "rule gomap \<Rightarrow> runner gomap \<Rightarrow> bool" where
  "served ds rns \<longleftrightarrow> (\<forall>k r. lookup ds k = Some r \<longrightarrow> (\<exists>rn. lookup rns k = Some rn \<and> sameAs rn r))"

text \<open>No listener of another rule is in the way of the rules \<open>ds\<close>.\<close>

definition unobstructed :: "rule gomap \<Rightarrow> runner gomap \<Rightarrow> bool" where
  "unobstructed ds rns \<longleftrightarrow>
     (\<forall>(k, r) \<in> set ds. \<forall>j rn. lookup rns j = Some rn \<longrightarrow> j \<noteq> k \<longrightarrow> rn_port rn \<noteq> rule_port r)"

lemma set_held: "set (held rns) = rn_port ` snd ` set rns"
  by (force simp: held_def rn_port_def)

lemma in_held: "distinct (keys rns) \<Longrightarrow> p \<in> set (held rns) \<longleftrightarrow> (\<exists>j rn. lookup rns j = Some rn \<and> rn_port rn = p)"
proof -
  assume d: "distinct (keys rns)"
  have "p \<in> set (held rns) \<longleftrightarrow> (\<exists>j rn. (j, rn) \<in> set rns \<and> rn_port rn = p)"
    unfolding set_held by (simp add: image_iff Bex_def) (metis prod.collapse snd_conv)
  also have "\<dots> \<longleftrightarrow> (\<exists>j rn. lookup rns j = Some rn \<and> rn_port rn = p)"
    using d by (simp add: map_of_eq_Some_iff)
  finally show ?thesis .
qed

lemma startRule_free:
  assumes "exclusive os" and "rule_port r \<notin> set h" and "Proto r \<in> {''tcp'', ''udp''}"
  shows "\<exists>rn. startRule os h r = Inr rn \<and> rn_port rn = rule_port r \<and> sameAs rn r"
proof -
  have "os h (Proto r) (Listen r) = None"
    using assms(1,2) by (simp add: exclusive_def rule_port_def)
  with assms(3) show ?thesis
    by (auto simp: startRule_def rule_port_def rn_port_def sameAs_def)
qed

lemma sameAs_port: "sameAs rn r \<Longrightarrow> rn_port rn = rule_port r"
  by (simp add: sameAs_def rn_port_def rule_port_def)

lemma apply_one_starts:
  assumes "exclusive os" and "distinct (keys (fst st))" and "unobstructed [(k, r)] (fst st)"
    and "Proto r \<in> {''tcp'', ''udp''}"
  shows "\<exists>rn. lookup (fst (apply_one os now (k, r) st)) k = Some rn \<and> sameAs rn r"
proof (cases st)
  case (Pair rns n)
  show ?thesis
  proof (cases "lookup rns k")
    case None
    then have "rule_port r \<notin> set (held rns)"
      using assms(2,3) Pair in_held [of rns] by (fastforce simp: unobstructed_def)
    with startRule_free [OF assms(1) this assms(4)] None Pair show ?thesis
      by (auto simp: apply_one_def)
  next
    case (Some cur)
    have "rule_port r \<notin> set (held (del k rns))"
    proof
      assume "rule_port r \<in> set (held (del k rns))"
      then obtain j rn where "lookup (del k rns) j = Some rn" "rn_port rn = rule_port r"
        using assms(2) Pair in_held [of "del k rns"] by auto
      with assms(3) Pair show False by (auto simp: unobstructed_def split: if_splits)
    qed
    from startRule_free [OF assms(1) this assms(4)] Some Pair show ?thesis
      by (cases "sameAs cur r") (auto simp: apply_one_def Let_def)
  qed
qed

lemma apply_one_fst_lookup:
  assumes "lookup (fst (apply_one os now (k, r) st)) j = Some rn"
  shows "(j \<noteq> k \<and> lookup (fst st) j = Some rn) \<or> (j = k \<and> sameAs rn r)"
  using assms apply_one_other [of j "(k, r)" os now st] apply_one_self [of os now k r st rn]
  by (cases "j = k") simp_all

definition apart :: "rule gomap \<Rightarrow> bool" where
  "apart ds \<longleftrightarrow> distinct (keys ds) \<and> distinct (map (\<lambda>(k, r). rule_port r) ds)"

lemma apply_loop_live:
  assumes "exclusive os" and "distinct (keys (fst st))" and "apart ds" and "unobstructed ds (fst st)"
    and "\<forall>(k, r) \<in> set ds. Proto r \<in> {''tcp'', ''udp''}"
    and "(k, r) \<in> set ds"
  shows "\<exists>rn. lookup (fst (apply_loop os now ds st)) k = Some rn \<and> sameAs rn r"
  using assms
proof (induction ds arbitrary: st)
  case Nil
  then show ?case by simp
next
  case (Cons d ds)
  obtain k1 r1 where d: "d = (k1, r1)" by (cases d)
  let ?st = "apply_one os now d st"
  have un1: "unobstructed [(k1, r1)] (fst st)" and un: "unobstructed ds (fst st)"
    using Cons.prems(4) d by (auto simp: unobstructed_def)
  have port: "\<forall>(j, q) \<in> set ds. rule_port q \<noteq> rule_port r1"
    using Cons.prems(3) d by (force simp: apart_def)
  have un2: "unobstructed ds (fst ?st)"
    unfolding unobstructed_def
  proof (clarify)
    fix a b j rn
    assume ab: "(a, b) \<in> set ds" "lookup (fst ?st) j = Some rn" "j \<noteq> a" "rn_port rn = rule_port b"
    from apply_one_fst_lookup [of os now k1 r1 st j rn] ab(2) d
    consider "j \<noteq> k1" "lookup (fst st) j = Some rn" | "sameAs rn r1" by auto
    then show False
    proof cases
      case 1
      with un ab show ?thesis by (auto simp: unobstructed_def)
    next
      case 2
      with port ab sameAs_port [OF 2] show ?thesis by auto
    qed
  qed
  have k1: "k1 \<notin> set (keys ds)" using Cons.prems(3) d by (simp add: apart_def)
  show ?case
  proof (cases "d = (k, r)")
    case True
    have "\<exists>rn. lookup (fst ?st) k = Some rn \<and> sameAs rn r"
      using apply_one_starts [OF Cons.prems(1,2) un1] Cons.prems(5) True d by auto
    moreover have "lookup (fst (apply_loop os now ds ?st)) k = lookup (fst ?st) k"
      using k1 True d by (intro apply_loop_other) simp
    ultimately show ?thesis by simp
  next
    case False
    have "\<exists>rn. lookup (fst (apply_loop os now ds ?st)) k = Some rn \<and> sameAs rn r"
    proof (rule Cons.IH [OF Cons.prems(1) _ _ un2])
      show "distinct (keys (fst ?st))" using Cons.prems(2) by (rule apply_one_keys)
      show "apart ds" using Cons.prems(3) by (simp add: apart_def)
      show "\<forall>(k, r) \<in> set ds. Proto r \<in> {''tcp'', ''udp''}" using Cons.prems(5) by simp
      show "(k, r) \<in> set ds" using Cons.prems(6) False by auto
    qed
    then show ?thesis by simp
  qed
qed

lemma apart_order: "go_order ord \<Longrightarrow> apart ds \<Longrightarrow> apart (ord ds)"
  unfolding apart_def go_order_def by (metis mset_map mset_eq_imp_distinct_iff)

lemma apply_serves:
  assumes "go_order ord" and "exclusive os" and "distinct (keys (fst st))"
    and "apart (desired_rules rs)" and "unobstructed (desired_rules rs) (fst st)"
    and "\<forall>r \<in> set rs. wanted r \<longrightarrow> Proto r \<in> {''tcp'', ''udp''}"
  shows "served (desired_rules rs) (fst (applyRulesLocked os ord now rs st))"
  unfolding served_def
proof (intro allI impI)
  fix k r
  assume r: "lookup (desired_rules rs) k = Some r"
  note o = go_order_facts(1) [OF assms(1)]
  have "\<exists>rn. lookup (fst (apply_loop os now (ord (desired_rules rs)) st)) k = Some rn \<and> sameAs rn r"
  proof (rule apply_loop_live [OF assms(2,3) apart_order [OF assms(1,4)]])
    show "unobstructed (ord (desired_rules rs)) (fst st)"
      using assms(5) by (simp add: unobstructed_def o)
    show "(k, r) \<in> set (ord (desired_rules rs))" unfolding o by (rule lookup_Some_in [OF r])
    show "\<forall>(k, r) \<in> set (ord (desired_rules rs)). Proto r \<in> {''tcp'', ''udp''}"
      unfolding o
    proof (rule ballI, rule case_prodI2)
      fix p a b
      assume "p \<in> set (desired_rules rs)" and "p = (a, b)"
      then have "lookup (desired_rules rs) a = Some b"
        by (intro in_lookup_Some distinct_desired) simp
      from desired_rules_SomeD [OF this] assms(6) show "Proto b \<in> {''tcp'', ''udp''}" by blast
    qed
  qed
  then show "\<exists>rn. lookup (fst (applyRulesLocked os ord now rs st)) k = Some rn \<and> sameAs rn r"
    unfolding applyRulesLocked_eq fst_conv lookup_keep_desired using r by simp
qed

text \<open>Rules whose ports the check keeps apart are apart as listeners.\<close>

lemma apart_desired:
  assumes "ports_ok rs" and "ids_ok rs"
  shows "apart (desired_rules rs)"
  unfolding apart_def
proof
  show "distinct (keys (desired_rules rs))" by simp
  have sub: "inj_on (\<lambda>(k, r). rule_port r) (set (desired_rules rs))"
  proof (rule inj_onI, clarify)
    fix a q b r
    assume ab: "(a, q) \<in> set (desired_rules rs)" "(b, r) \<in> set (desired_rules rs)"
      and p: "rule_port q = rule_port r"
    then have "lookup (desired_rules rs) a = Some q" "lookup (desired_rules rs) b = Some r"
      by (auto intro: in_lookup_Some distinct_desired)
    then have q: "q \<in> set rs" "wanted q" "ID q = a" and r: "r \<in> set rs" "wanted r" "ID r = b"
      using desired_rules_SomeD by blast+
    from q(1) r(1) obtain i j where ij: "i < length rs" "rs ! i = q" "j < length rs" "rs ! j = r"
      by (auto simp: in_set_conv_nth)
    moreover have "clash q r" using q(2) r(2) by (simp add: clash_def wanted_def)
    moreover have "Listen q = Listen r" using p by (simp add: rule_port_def)
    ultimately have "i = j" using assms(1) by (auto simp: ports_ok_def)
    with ij q r show "a = b \<and> q = r" by auto
  qed
  have "distinct (desired_rules rs)" using distinct_desired [of rs] by (simp add: distinct_map)
  with sub show "distinct (map (\<lambda>(k, r). rule_port r) (desired_rules rs))" by (simp add: distinct_map)
qed

end
