(* ===== verification/Lockout.thy ===== *)
theory Lockout
  imports Clock
begin

text \<open>
  Brute-force protection: the table of failed authentications by source address that the tunnel
  (\<open>sweepAuthFails\<close>, \<open>recordAuthFail\<close> in \<open>server/server.go\<close>) and the panel login (\<open>sweepFails\<close> and
  the failure branch of \<open>handleLogin\<close> in \<open>panel/panel.go\<close>) each keep. Both are interpretations of
  the locale \<open>lockout\<close>, whose main result bounds the guesses of one source per time window.
\<close>

record fail_track =
  ft_count :: nat
  ft_lastFail :: int
  ft_until :: int

definition fresh_track :: fail_track where
  "fresh_track = \<lparr>ft_count = 0, ft_lastFail = zero_time, ft_until = zero_time\<rparr>"

type_synonym fails = "fail_track gomap"

definition track :: "fails \<Rightarrow> string \<Rightarrow> fail_track" where
  "track m h = (case lookup m h of None \<Rightarrow> fresh_track | Some f \<Rightarrow> f)"

text \<open>The test both handlers make before they look at the credentials.\<close>

definition blocked :: "int \<Rightarrow> string \<Rightarrow> fails \<Rightarrow> bool" where
  "blocked now h m = (case lookup m h of None \<Rightarrow> False | Some f \<Rightarrow> now < ft_until f)"

section \<open>The tunnel\<close>

definition authMaxFails :: nat where
  "authMaxFails = 10"

definition authBlockFor :: int where
  "authBlockFor = 10 * Minute"

definition sweepAuthFails :: "int \<Rightarrow> fails \<Rightarrow> fails" where
  "sweepAuthFails now m =
     filter (\<lambda>(ip, f). \<not> (now > ft_until f \<and> time_sub now (ft_lastFail f) > authBlockFor)) m"

text \<open>\<open>recordAuthFail\<close>; the flag says that this failure locked the source (and sent a notice).\<close>

definition recordAuthFail :: "int \<Rightarrow> string \<Rightarrow> fails \<Rightarrow> fails \<times> bool" where
  "recordAuthFail now host m =
     (let m1 = (if lookup m host = None then put host fresh_track m else m);
          f = track m1 host;
          f1 = f\<lparr>ft_count := ft_count f + 1, ft_lastFail := now\<rparr>
      in if ft_count f1 \<ge> authMaxFails
         then (put host (f1\<lparr>ft_until := now + authBlockFor, ft_count := 0\<rparr>) m1, True)
         else (put host f1 m1, False))"

section \<open>The panel\<close>

definition panelMaxFails :: nat where
  "panelMaxFails = 5"

definition panelBlockFor :: int where
  "panelBlockFor = 10 * Minute"

definition sweepFails :: "int \<Rightarrow> fails \<Rightarrow> fails" where
  "sweepFails now m =
     filter (\<lambda>(ip, ft). \<not> (now > ft_until ft \<and> time_sub now (ft_lastFail ft) > panelBlockFor)) m"

definition recordLoginFail :: "int \<Rightarrow> string \<Rightarrow> fails \<Rightarrow> fails" where
  "recordLoginFail now ip m =
     (let m1 = (if lookup m ip = None then put ip fresh_track m else m);
          ft = track m1 ip;
          ft1 = ft\<lparr>ft_count := ft_count ft + 1, ft_lastFail := now\<rparr>
      in if ft_count ft1 \<ge> panelMaxFails
         then put ip (ft1\<lparr>ft_until := now + panelBlockFor, ft_count := 0\<rparr>) m1
         else put ip ft1 m1)"

section \<open>The contract\<close>

text \<open>One source, failing whenever it is let through, at the given times: how many guesses pass.\<close>

fun guesses ::
  "(int \<Rightarrow> string \<Rightarrow> fails \<Rightarrow> fails) \<Rightarrow> (int \<Rightarrow> fails \<Rightarrow> fails) \<Rightarrow> string \<Rightarrow> int list \<Rightarrow> fails \<Rightarrow> nat" where
  "guesses fail sweep h [] m = 0"
| "guesses fail sweep h (t # ts) m =
     (let m1 = sweep t m in
      if blocked t h m1 then guesses fail sweep h ts m1
      else Suc (guesses fail sweep h ts (fail t h m1)))"

locale lockout =
  fixes fail :: "int \<Rightarrow> string \<Rightarrow> fails \<Rightarrow> fails"
    and sweep :: "int \<Rightarrow> fails \<Rightarrow> fails"
    and limit :: nat
    and window :: int
  assumes limit_pos: "0 < limit"
    and window_pos: "0 < window"
    and fail_keys: "distinct (keys m) \<Longrightarrow> distinct (keys (fail now h m))"
    and sweep_keys: "distinct (keys m) \<Longrightarrow> distinct (keys (sweep now m))"
    and fail_self: "lookup (fail now h m) h =
      Some (if ft_count (track m h) + 1 \<ge> limit
            then \<lparr>ft_count = 0, ft_lastFail = now, ft_until = now + window\<rparr>
            else \<lparr>ft_count = ft_count (track m h) + 1, ft_lastFail = now, ft_until = ft_until (track m h)\<rparr>)"
    and fail_other: "h' \<noteq> h \<Longrightarrow> lookup (fail now h m) h' = lookup m h'"
    and sweep_lookup: "distinct (keys m) \<Longrightarrow> lookup (sweep now m) h =
      (case lookup m h of
         None \<Rightarrow> None
       | Some f \<Rightarrow> if now > ft_until f \<and> now - ft_lastFail f > window then None else Some f)"
begin

text \<open>Sweeping never changes who is blocked.\<close>

lemma sweep_blocked: "distinct (keys m) \<Longrightarrow> blocked now h (sweep now m) = blocked now h m"
  by (auto simp: blocked_def sweep_lookup split: option.splits)

lemma fail_other_blocked: "h' \<noteq> h \<Longrightarrow> blocked now h' (fail t h m) = blocked now h' m"
  by (simp add: blocked_def fail_other)

text \<open>Inside a window that starts after the last recorded failure nothing is forgotten.\<close>

lemma guesses_locked:
  assumes "distinct (keys m)" "lookup m h = Some f" "a + window \<le> ft_until f"
    and "\<forall>t \<in> set ts. t < a + window"
  shows "guesses fail sweep h ts m = 0"
  using assms
proof (induction ts arbitrary: m)
  case Nil
  then show ?case by simp
next
  case (Cons t ts)
  then have "lookup (sweep t m) h = Some f" by (auto simp: sweep_lookup)
  moreover from this Cons.prems have "blocked t h (sweep t m)" by (auto simp: blocked_def)
  ultimately show ?case using Cons sweep_keys by auto
qed

lemma guesses_counting:
  assumes "distinct (keys m)" "lookup m h = Some f" "a \<le> ft_lastFail f" "ft_count f < limit"
    and "\<forall>t \<in> set ts. a \<le> t \<and> t < a + window"
  shows "guesses fail sweep h ts m \<le> limit - ft_count f"
  using assms
proof (induction ts arbitrary: m f)
  case Nil
  then show ?case by simp
next
  case (Cons t ts)
  have sw: "lookup (sweep t m) h = Some f" using Cons.prems by (auto simp: sweep_lookup)
  have d: "distinct (keys (sweep t m))" using Cons.prems sweep_keys by blast
  show ?case
  proof (cases "blocked t h (sweep t m)")
    case True
    with Cons.IH [OF d sw] Cons.prems show ?thesis by simp
  next
    case False
    let ?m2 = "fail t h (sweep t m)"
    have d2: "distinct (keys ?m2)" using d fail_keys by blast
    have tr: "track (sweep t m) h = f" using sw by (simp add: track_def)
    show ?thesis
    proof (cases "ft_count f + 1 \<ge> limit")
      case True
      then have "lookup ?m2 h = Some \<lparr>ft_count = 0, ft_lastFail = t, ft_until = t + window\<rparr>"
        using fail_self [of t h "sweep t m"] tr by simp
      from guesses_locked [OF d2 this, of a ts] Cons.prems True False show ?thesis by simp
    next
      case less: False
      then have "lookup ?m2 h = Some \<lparr>ft_count = ft_count f + 1, ft_lastFail = t, ft_until = ft_until f\<rparr>"
        using fail_self [of t h "sweep t m"] tr by simp
      from Cons.IH [OF d2 this] Cons.prems less False show ?thesis by simp
    qed
  qed
qed

definition counts_ok :: "fails \<Rightarrow> bool" where
  "counts_ok m \<longleftrightarrow> distinct (keys m) \<and> (\<forall>h f. lookup m h = Some f \<longrightarrow> ft_count f < limit)"

lemma counts_ok_empty: "counts_ok []"
  by (simp add: counts_ok_def)

lemma counts_ok_sweep: "counts_ok m \<Longrightarrow> counts_ok (sweep now m)"
  by (auto simp: counts_ok_def sweep_keys sweep_lookup split: option.splits if_splits)

lemma counts_ok_fail: "counts_ok m \<Longrightarrow> counts_ok (fail now h m)"
proof -
  assume ok: "counts_ok m"
  have "ft_count f < limit" if "lookup (fail now h m) h' = Some f" for h' f
    using that ok limit_pos fail_self [of now h m] fail_other [of h' h now m]
    by (cases "h' = h") (auto simp: counts_ok_def split: if_splits)
  with ok show ?thesis by (auto simp: counts_ok_def fail_keys)
qed

text \<open>The bound: at most \<open>limit\<close> guesses get through in any interval of length \<open>window\<close>.\<close>

lemma guesses_bound:
  assumes ok: "counts_ok m" and ts: "\<forall>t \<in> set ts. a \<le> t \<and> t < a + window"
  shows "guesses fail sweep h ts m \<le> limit"
  using assms
proof (induction ts arbitrary: m)
  case Nil
  then show ?case by simp
next
  case (Cons t ts)
  have ok1: "counts_ok (sweep t m)" using Cons.prems counts_ok_sweep by blast
  show ?case
  proof (cases "blocked t h (sweep t m)")
    case True
    with Cons.IH [OF ok1] Cons.prems show ?thesis by simp
  next
    case False
    let ?m1 = "sweep t m" and ?m2 = "fail t h (sweep t m)"
    have ok2: "counts_ok ?m2" using ok1 counts_ok_fail by blast
    then have d2: "distinct (keys ?m2)" by (simp add: counts_ok_def)
    show ?thesis
    proof (cases "ft_count (track ?m1 h) + 1 \<ge> limit")
      case True
      then have "lookup ?m2 h = Some \<lparr>ft_count = 0, ft_lastFail = t, ft_until = t + window\<rparr>"
        using fail_self [of t h ?m1] by simp
      from guesses_locked [OF d2 this, of a ts] Cons.prems False limit_pos show ?thesis by simp
    next
      case less: False
      then have "lookup ?m2 h = Some \<lparr>ft_count = ft_count (track ?m1 h) + 1, ft_lastFail = t,
          ft_until = ft_until (track ?m1 h)\<rparr>"
        using fail_self [of t h ?m1] by simp
      from guesses_counting [OF d2 this, of a ts] Cons.prems less False show ?thesis by simp
    qed
  qed
qed

text \<open>And it is a lock: \<open>limit\<close> failures in a row block the source for the whole window.\<close>

lemma fails_block:
  "ts \<noteq> [] \<Longrightarrow> ft_count (track m h) + length ts = limit \<Longrightarrow> now < last ts + window \<Longrightarrow>
     blocked now h (foldl (\<lambda>m t. fail t h m) m ts)"
proof (induction ts arbitrary: m)
  case Nil
  then show ?case by simp
next
  case (Cons t ts)
  show ?case
  proof (cases "ts = []")
    case True
    with Cons.prems show ?thesis by (simp add: blocked_def fail_self)
  next
    case False
    then obtain n where "length ts = Suc n" by (cases ts) auto
    with Cons.prems have "\<not> limit \<le> ft_count (track m h) + 1" by simp
    then have "ft_count (track (fail t h m) h) = ft_count (track m h) + 1"
      using fail_self [of t h m] by (simp add: track_def [of "fail t h m"])
    with Cons False show ?thesis by simp
  qed
qed

end

lemma keys_filter_distinct: "distinct (keys m) \<Longrightarrow> distinct (keys (filter P m))"
  by (rule distinct_map_filter)

lemma lookup_filter:
  "distinct (keys m) \<Longrightarrow> lookup (filter P m) k =
     (case lookup m k of None \<Rightarrow> None | Some v \<Rightarrow> if P (k, v) then Some v else None)"
proof (induction m)
  case Nil
  then show ?case by simp
next
  case (Cons x m)
  obtain a b where x: "x = (a, b)" by fastforce
  have "lookup m a = None" using Cons.prems x by (simp add: map_of_eq_None_iff)
  with Cons x show ?case by (auto split: option.splits)
qed

lemma block_windows: "0 < authBlockFor" "authBlockFor < 2 ^ 63 - 1" "0 < panelBlockFor" "panelBlockFor < 2 ^ 63 - 1"
  by (simp_all add: authBlockFor_def panelBlockFor_def Minute_def Second_def)

interpretation tunnel_lock:
  lockout "\<lambda>now h m. fst (recordAuthFail now h m)" sweepAuthFails authMaxFails authBlockFor
proof (unfold_locales, goal_cases)
  case 7
  then show ?case
    using block_windows by (auto simp: sweepAuthFails_def lookup_filter time_sub_greater split: option.splits)
qed (auto simp: authMaxFails_def block_windows recordAuthFail_def Let_def track_def fresh_track_def
      sweepAuthFails_def keys_filter_distinct split: option.splits)

interpretation panel_lock: lockout recordLoginFail sweepFails panelMaxFails panelBlockFor
proof (unfold_locales, goal_cases)
  case 7
  then show ?case
    using block_windows by (auto simp: sweepFails_def lookup_filter time_sub_greater split: option.splits)
qed (auto simp: panelMaxFails_def block_windows recordLoginFail_def Let_def track_def fresh_track_def
      sweepFails_def keys_filter_distinct split: option.splits)

end
