(* ===== verification/ServerState.thy ===== *)
theory ServerState
  imports Rules Lockout
begin

text \<open>
  The state of the server (\<open>Server\<close> in \<open>server/server.go\<close>) and the operations that read it or
  change one part of it: saving, pushing reverse rules to the clients (\<open>server/reverse.go\<close>),
  opening streams, the statistics, history and health tables (\<open>server/history.go\<close>,
  \<open>server/health.go\<close>) and the views of the panel (\<open>server/state.go\<close>).

  A session is a number; \<open>s_closed\<close> holds the sessions the server has closed and \<open>s_pushes\<close> what it
  has written on control streams, oldest first. The record \<open>env\<close> holds what one operation takes
  from outside: the clock, the JSON encoder, the file system's faults, the operating system's
  answers to binds, the order of a map iteration, random bytes and which pushes are written.
\<close>

section \<open>State\<close>

record client_conn =
  cn_Name :: string
  cn_Addr :: string
  cn_Version :: string
  cn_Session :: nat
  cn_Since :: int
  cn_cs :: bool
  cn_status :: "reverse_status gomap"

record stat =
  BytesIn :: int
  BytesOut :: int
  Conns :: int
  ConnsTotal :: int

definition zero_stat :: stat where
  "zero_stat = \<lparr>BytesIn = 0, BytesOut = 0, Conns = 0, ConnsTotal = 0\<rparr>"

record health_status =
  he_OK :: bool
  he_Err :: string
  he_Checked :: int

record hist_point =
  hp_T :: int
  hp_In :: int
  hp_Out :: int

record server =
  s_path :: string
  s_files :: files
  s_fingerprint :: "string option"
  s_cfg :: server_cfg
  s_clients :: "client_conn gomap"
  s_runners :: "runner gomap"
  s_stats :: "stat gomap"
  s_hist :: "hist_point list gomap"
  s_health :: "health_status gomap"
  s_notifier :: notifier
  s_authFails :: fails
  s_blVer :: "64 word"
  s_rr :: "64 word"
  s_started :: int
  s_stopping :: bool
  s_closed :: "nat set"
  s_pushes :: "(nat \<times> reverse_rule list) list"

record env =
  e_now :: int
  e_enc :: "server_cfg \<Rightarrow> string"
  e_io :: save_io
  e_os :: os
  e_ord :: "rule gomap \<Rightarrow> rule gomap"
  e_rand :: bytes
  e_written :: "nat \<Rightarrow> reverse_rule list \<Rightarrow> bool"

datatype srv_error =
    NotFound
  | Conflict string
  | BadRule rule_error
  | SaveFailed cfg_error
  | EmptyClientName
  | BadEntries acl_error
  | BadWhitelist acl_error
  | BadBlacklist acl_error
  | BadImportedRule string rule_error
  | EmptyPassword
  | BadNotifyFormat
  | CertFailed string

text \<open>\<open>New\<close>; \<open>certs\<close> is the outcome of \<open>LoadOrGenerate\<close>, a certificate fingerprint.\<close>

definition New :: "int \<Rightarrow> (string + string) \<Rightarrow> server_cfg \<Rightarrow> string \<Rightarrow> files \<Rightarrow> srv_error + server" where
  "New now certs cfg cfgPath fs =
     (let s = \<lparr>s_path = cfgPath, s_files = fs, s_fingerprint = None, s_cfg = cfg, s_clients = [],
               s_runners = [], s_stats = [], s_hist = [], s_health = [],
               s_notifier = newNotifier (NotifyURL cfg) (NotifyFormat cfg), s_authFails = [],
               s_blVer = 0, s_rr = 0, s_started = now, s_stopping = False, s_closed = {}, s_pushes = []\<rparr>
      in if \<not> NoTLS cfg then
           (case certs of Inl e \<Rightarrow> Inl (CertFailed e) | Inr fp \<Rightarrow> Inr (s\<lparr>s_fingerprint := Some fp\<rparr>))
         else Inr s)"

definition TlsFingerprint :: "server \<Rightarrow> string" where
  "TlsFingerprint s = (case s_fingerprint s of None \<Rightarrow> [] | Some fp \<Rightarrow> fp)"

section \<open>Saving and pushing\<close>

text \<open>\<open>s.cfg.Save(s.CfgPath)\<close>.\<close>

definition save_cfg :: "env \<Rightarrow> server \<Rightarrow> server \<times> srv_error option" where
  "save_cfg env s =
     (let (fs, e) = save (e_io env) (s_path s) (e_enc env (s_cfg s)) (s_files s)
      in (s\<lparr>s_files := fs\<rparr>, map_option SaveFailed e))"

text \<open>\<open>s.applyRulesLocked()\<close>.\<close>

definition apply_rules :: "env \<Rightarrow> server \<Rightarrow> server" where
  "apply_rules env s =
     (let (rns, n) = applyRulesLocked (e_os env) (e_ord env) (e_now env) (Rules (s_cfg s)) (s_runners s, s_notifier s)
      in s\<lparr>s_runners := rns, s_notifier := n\<rparr>)"

definition to_reverse :: "rule \<Rightarrow> reverse_rule" where
  "to_reverse r =
     \<lparr>rr_ID = ID r, rr_Name = Name r, rr_Proto = Proto r, rr_Listen = Listen r, rr_Target = Target r,
      rr_AllowFrom = AllowFrom r, rr_MaxMbps = MaxMbps r, rr_MaxConns = MaxConns r,
      rr_IdleMin = IdleMin r, rr_ProxyProto = ProxyProto r\<rparr>"

definition reverse_rules :: "rule list \<Rightarrow> string \<Rightarrow> reverse_rule list" where
  "reverse_rules rs name =
     map to_reverse (filter (\<lambda>r. SideOf r = ''client'' \<and> Client r = name \<and> Enabled r) rs)"

text \<open>A push whose write fails is only logged.\<close>

definition pushRulesTo :: "env \<Rightarrow> client_conn \<Rightarrow> server \<Rightarrow> server" where
  "pushRulesTo env cc s =
     (let rules = reverse_rules (Rules (s_cfg s)) (cn_Name cc) in
      if \<not> cn_cs cc then s
      else if e_written env (cn_Session cc) rules
           then s\<lparr>s_pushes := s_pushes s @ [(cn_Session cc, rules)]\<rparr>
      else s)"

definition broadcastRules :: "env \<Rightarrow> server \<Rightarrow> server" where
  "broadcastRules env s = foldl (\<lambda>s cc. pushRulesTo env cc s) s (map snd (s_clients s))"

text \<open>The rules a session was told last.\<close>

definition told :: "server \<Rightarrow> nat \<Rightarrow> reverse_rule list option" where
  "told s sess = lookup (rev (s_pushes s)) sess"

section \<open>Streams to a client\<close>

datatype ('e) open_error = Offline string | OpenFailed 'e | HeaderFailed 'e

text \<open>\<open>openStreamTo\<close>; the list is the streams it closed again.\<close>

definition openStreamTo ::
  "(nat \<Rightarrow> 'e + 'st) \<Rightarrow> ('st \<Rightarrow> stream_header \<Rightarrow> 'e option) \<Rightarrow> string \<Rightarrow> stream_header \<Rightarrow> server
     \<Rightarrow> ('e open_error + 'st) \<times> 'st list" where
  "openStreamTo OpenStream wr clientName hdr s =
     (case lookup (s_clients s) clientName of
        None \<Rightarrow> (Inl (Offline clientName), [])
      | Some cc \<Rightarrow>
          (case OpenStream (cn_Session cc) of
             Inl e \<Rightarrow> (Inl (OpenFailed e), [])
           | Inr stream \<Rightarrow>
               (case wr stream hdr of
                  Some e \<Rightarrow> (Inl (HeaderFailed e), [stream])
                | None \<Rightarrow> (Inr stream, []))))"

section \<open>Statistics, history, health\<close>

definition stat_of :: "server \<Rightarrow> string \<Rightarrow> stat" where
  "stat_of s rid = (case lookup (s_stats s) rid of None \<Rightarrow> zero_stat | Some st \<Rightarrow> st)"

definition statFor :: "string \<Rightarrow> server \<Rightarrow> server" where
  "statFor rid s =
     (case lookup (s_stats s) rid of
        None \<Rightarrow> s\<lparr>s_stats := put rid zero_stat (s_stats s)\<rparr>
      | Some st \<Rightarrow> s)"

definition histMax :: nat where
  "histMax = 2880"

definition hist_append :: "hist_point \<Rightarrow> hist_point list \<Rightarrow> hist_point list" where
  "hist_append p pts =
     (let pts1 = pts @ [p] in if length pts1 > histMax then drop (length pts1 - histMax) pts1 else pts1)"

definition sample_one :: "int \<Rightarrow> string \<times> stat \<Rightarrow> hist_point list gomap \<Rightarrow> hist_point list gomap" where
  "sample_one now kst h =
     (let (k, st) = kst; pts = (case lookup h k of None \<Rightarrow> [] | Some pts \<Rightarrow> pts)
      in put k (hist_append \<lparr>hp_T = now, hp_In = BytesIn st, hp_Out = BytesOut st\<rparr> pts) h)"

definition sampleHistory :: "int \<Rightarrow> server \<Rightarrow> server" where
  "sampleHistory t s =
     s\<lparr>s_hist := foldl (\<lambda>h kst. sample_one (Unix t) kst h) (s_hist s) (s_stats s)\<rparr>"

definition GetHistory :: "server \<Rightarrow> string \<Rightarrow> hist_point list" where
  "GetHistory s rid = (case lookup (s_hist s) rid of None \<Rightarrow> [] | Some pts \<Rightarrow> pts)"

text \<open>
  \<open>probeRule\<close> and \<open>probeAll\<close>: \<open>dial\<close> is the dialler of one attempt for a rule, the errors are their
  texts. The probes run concurrently; the list of rules is in the order in which they finish.
\<close>

definition probeRule ::
  "(nat \<Rightarrow> string + 'st) \<Rightarrow> ('st \<Rightarrow> stream_header \<Rightarrow> string option) \<Rightarrow> (string open_error \<Rightarrow> string)
     \<Rightarrow> (nat \<Rightarrow> string \<Rightarrow> string + 'c) \<Rightarrow> rule \<Rightarrow> server \<Rightarrow> (bool \<times> string) \<times> server" where
  "probeRule OpenStream wr txt dial r s =
     (if SideOf r = ''server'' \<and> Client r \<noteq> [] then
        (case fst (openStreamTo OpenStream wr (Client r)
                     \<lparr>h_ID = ID r, h_Target = Target r, h_UDP = False, h_Visitor = [], h_DstAddr = [],
                      h_ProxyProto = 0\<rparr> s) of
           Inl e \<Rightarrow> ((False, txt e), s)
         | Inr stream \<Rightarrow> ((True, []), s))
      else
        (case dialBalanced dial (Target r) (s_rr s) of
           (Conn c, rr) \<Rightarrow> ((True, []), s\<lparr>s_rr := rr\<rparr>)
         | (NoTargets, rr) \<Rightarrow> ((False, ''no targets''), s\<lparr>s_rr := rr\<rparr>)
         | (DialFailed e, rr) \<Rightarrow> ((False, e), s\<lparr>s_rr := rr\<rparr>)
         | (IndexPanic, rr) \<Rightarrow> ((False, ''panic''), s\<lparr>s_rr := rr\<rparr>)))"

definition probe_targets :: "server \<Rightarrow> rule list" where
  "probe_targets s = filter (\<lambda>r. Enabled r \<and> Proto r = ''tcp'') (Rules (s_cfg s))"

definition probe_record :: "int \<Rightarrow> (rule \<Rightarrow> server \<Rightarrow> (bool \<times> string) \<times> server) \<Rightarrow> rule \<Rightarrow> server \<Rightarrow> server" where
  "probe_record now probe r s =
     (let ((ok, err), s1) = probe r s
      in s1\<lparr>s_health := put (ID r) \<lparr>he_OK = ok, he_Err = err, he_Checked = now\<rparr> (s_health s1)\<rparr>)"

definition probeAll ::
  "int \<Rightarrow> (rule list \<Rightarrow> rule list) \<Rightarrow> (rule \<Rightarrow> server \<Rightarrow> (bool \<times> string) \<times> server) \<Rightarrow> server \<Rightarrow> server" where
  "probeAll now finish probe s = foldl (\<lambda>s r. probe_record now probe r s) s (finish (probe_targets s))"

end
