(* ===== verification/ServerOps.thy ===== *)
theory ServerOps
  imports ServerState
begin

text \<open>
  The operations of the panel on the server's configuration (\<open>server/state.go\<close>). Every one returns
  the new state and the error, \<open>None\<close> being \<open>nil\<close>; a failed save runs the rollback the source has,
  where it has one.
\<close>

definition with_cfg :: "(server_cfg \<Rightarrow> server_cfg) \<Rightarrow> server \<Rightarrow> server" where
  "with_cfg f s = s\<lparr>s_cfg := f (s_cfg s)\<rparr>"

definition set_rules :: "rule list \<Rightarrow> server_cfg \<Rightarrow> server_cfg" where
  "set_rules rs cfg = cfg\<lparr>Rules := rs\<rparr>"

lemma with_cfg_simps [simp]:
  "s_cfg (with_cfg f s) = f (s_cfg s)" "s_path (with_cfg f s) = s_path s"
  "s_files (with_cfg f s) = s_files s" "s_clients (with_cfg f s) = s_clients s"
  "s_runners (with_cfg f s) = s_runners s" "s_notifier (with_cfg f s) = s_notifier s"
  "s_pushes (with_cfg f s) = s_pushes s" "s_closed (with_cfg f s) = s_closed s"
  "s_blVer (with_cfg f s) = s_blVer s" "s_authFails (with_cfg f s) = s_authFails s"
  "s_stats (with_cfg f s) = s_stats s"
  by (simp_all add: with_cfg_def)

lemma Rules_set_rules [simp]: "Rules (set_rules rs cfg) = rs" "Clients (set_rules rs cfg) = Clients cfg"
  by (simp_all add: set_rules_def)

section \<open>Rules\<close>

definition AddRule :: "env \<Rightarrow> rule \<Rightarrow> server \<Rightarrow> server \<times> srv_error option" where
  "AddRule env r s =
     (let rules = Rules (s_cfg s) in
      case validateRule r (Clients (s_cfg s)) of
        Some e \<Rightarrow> (s, Some (BadRule e))
      | None \<Rightarrow>
          (case portConflict rules (-1) (Listen r) r [] of
             Some cur \<Rightarrow> (s, Some (Conflict (Name cur)))
           | None \<Rightarrow>
               (let r1 = r\<lparr>ID := short_token (e_rand env), Enabled := True\<rparr>;
                    s1 = with_cfg (set_rules (rules @ [r1])) s
                in case save_cfg env s1 of
                     (s2, Some e) \<Rightarrow> (with_cfg (\<lambda>c. set_rules (butlast (Rules c)) c) s2, Some e)
                   | (s2, None) \<Rightarrow> (broadcastRules env (apply_rules env s2), None))))"

definition UpdateRule :: "env \<Rightarrow> string \<Rightarrow> rule \<Rightarrow> server \<Rightarrow> server \<times> srv_error option" where
  "UpdateRule env rid nr s =
     (let rules = Rules (s_cfg s) in
      case find_index (\<lambda>r. ID r = rid) rules of
        None \<Rightarrow> (s, Some NotFound)
      | Some idx \<Rightarrow>
          (let old = rules ! idx;
               nr1 = nr\<lparr>ID := rid, Enabled := Enabled old\<rparr>
           in case validateRule nr1 (Clients (s_cfg s)) of
                Some e \<Rightarrow> (s, Some (BadRule e))
              | None \<Rightarrow>
                  (case portConflict rules (int idx) (Listen nr1) nr1 rid of
                     Some cur \<Rightarrow> (s, Some (Conflict (Name cur)))
                   | None \<Rightarrow>
                       (case save_cfg env (with_cfg (set_rules (rules[idx := nr1])) s) of
                          (s2, Some e) \<Rightarrow> (with_cfg (\<lambda>c. set_rules ((Rules c)[idx := old]) c) s2, Some e)
                        | (s2, None) \<Rightarrow> (broadcastRules env (apply_rules env s2), None)))))"

text \<open>The rule and its listener are gone whether or not the save succeeds.\<close>

definition DeleteRule :: "env \<Rightarrow> string \<Rightarrow> server \<Rightarrow> server \<times> srv_error option" where
  "DeleteRule env rid s =
     (let rules = Rules (s_cfg s) in
      case find_index (\<lambda>r. ID r = rid) rules of
        None \<Rightarrow> (s, Some NotFound)
      | Some i \<Rightarrow>
          (let s1 = with_cfg (set_rules (remove_nth i rules)) s;
               s2 = s1\<lparr>s_runners := del rid (s_runners s1)\<rparr>;
               (s3, err) = save_cfg env s2
           in (broadcastRules env s3, err)))"

definition SetRuleEnabled :: "env \<Rightarrow> string \<Rightarrow> bool \<Rightarrow> server \<Rightarrow> server \<times> srv_error option" where
  "SetRuleEnabled env rid on s =
     (let rules = Rules (s_cfg s) in
      case find_index (\<lambda>r. ID r = rid) rules of
        None \<Rightarrow> (s, Some NotFound)
      | Some i \<Rightarrow>
          (let old = Enabled (rules ! i);
               set_on = \<lambda>b c. set_rules ((Rules c)[i := (Rules c ! i)\<lparr>Enabled := b\<rparr>]) c
           in case save_cfg env (with_cfg (set_on on) s) of
                (s2, Some e) \<Rightarrow> (with_cfg (set_on old) s2, Some e)
              | (s2, None) \<Rightarrow> (broadcastRules env (apply_rules env s2), None)))"

section \<open>Clients\<close>

definition close_session :: "nat \<Rightarrow> server \<Rightarrow> server" where
  "close_session n s = s\<lparr>s_closed := insert n (s_closed s)\<rparr>"

definition AddClient :: "env \<Rightarrow> string \<Rightarrow> string \<Rightarrow> server \<Rightarrow> server \<times> srv_error option" where
  "AddClient env name note s =
     (let clients = Clients (s_cfg s) in
      if name = [] then (s, Some EmptyClientName)
      else if list_ex (\<lambda>c. cu_Name c = name) clients then (s, Some (Conflict name))
      else save_cfg env
             (with_cfg (\<lambda>c. c\<lparr>Clients := clients @ [\<lparr>cu_Name = name, cu_Token = RandToken (e_rand env),
                                                      cu_Note = note\<rparr>]\<rparr>) s))"

definition DeleteClient :: "env \<Rightarrow> string \<Rightarrow> server \<Rightarrow> server \<times> srv_error option" where
  "DeleteClient env name s =
     (let clients = Clients (s_cfg s) in
      case find_index (\<lambda>c. cu_Name c = name) clients of
        None \<Rightarrow> (s, Some NotFound)
      | Some i \<Rightarrow>
          (case List.find (\<lambda>r. Client r = name) (Rules (s_cfg s)) of
             Some r \<Rightarrow> (s, Some (Conflict (Name r)))
           | None \<Rightarrow>
               (let s1 = with_cfg (\<lambda>c. c\<lparr>Clients := remove_nth i clients\<rparr>) s;
                    s2 = (case lookup (s_clients s1) name of
                            None \<Rightarrow> s1
                          | Some cc \<Rightarrow> close_session (cn_Session cc) s1)
                in save_cfg env s2)))"

section \<open>Access lists, password, notifications\<close>

definition SetIPWhitelist :: "env \<Rightarrow> string list \<Rightarrow> server \<Rightarrow> server \<times> srv_error option" where
  "SetIPWhitelist env entries s =
     (case NewACL entries of
        Inl e \<Rightarrow> (s, Some (BadEntries e))
      | Inr _ \<Rightarrow>
          (let old = IPWhitelist (s_cfg s) in
           case save_cfg env (with_cfg (\<lambda>c. c\<lparr>IPWhitelist := entries\<rparr>) s) of
             (s2, Some e) \<Rightarrow> (with_cfg (\<lambda>c. c\<lparr>IPWhitelist := old\<rparr>) s2, Some e)
           | (s2, None) \<Rightarrow> (s2, None)))"

definition SetIPBlacklist :: "env \<Rightarrow> string list \<Rightarrow> server \<Rightarrow> server \<times> srv_error option" where
  "SetIPBlacklist env entries s =
     (case NewACL entries of
        Inl e \<Rightarrow> (s, Some (BadEntries e))
      | Inr _ \<Rightarrow>
          (let old = IPBlacklist (s_cfg s) in
           case save_cfg env (with_cfg (\<lambda>c. c\<lparr>IPBlacklist := entries\<rparr>) s) of
             (s2, Some e) \<Rightarrow> (with_cfg (\<lambda>c. c\<lparr>IPBlacklist := old\<rparr>) s2, Some e)
           | (s2, None) \<Rightarrow> (s2\<lparr>s_blVer := s_blVer s2 + 1\<rparr>, None)))"

definition SetPassword :: "env \<Rightarrow> string \<Rightarrow> server \<Rightarrow> server \<times> srv_error option" where
  "SetPassword env pw s =
     (if pw = [] then (s, Some EmptyPassword)
      else (let old = Password (s_cfg s) in
            case save_cfg env (with_cfg (\<lambda>c. c\<lparr>Password := pw\<rparr>) s) of
              (s2, Some e) \<Rightarrow> (with_cfg (\<lambda>c. c\<lparr>Password := old\<rparr>) s2, Some e)
            | (s2, None) \<Rightarrow> (s2, None)))"

definition set_notifier :: "string \<Rightarrow> string \<Rightarrow> server \<Rightarrow> server" where
  "set_notifier url format s = s\<lparr>s_notifier := notifier_set url format (s_notifier s)\<rparr>"

definition SetNotify :: "env \<Rightarrow> string \<Rightarrow> string \<Rightarrow> server \<Rightarrow> server \<times> srv_error option" where
  "SetNotify env url format s =
     (if url \<noteq> [] \<and> format \<noteq> ''dingtalk'' \<and> format \<noteq> ''feishu'' \<and> format \<noteq> ''generic''
      then (s, Some BadNotifyFormat)
      else (let oldURL = NotifyURL (s_cfg s); oldFmt = NotifyFormat (s_cfg s);
                s1 = set_notifier url format
                       (with_cfg (\<lambda>c. c\<lparr>NotifyURL := url, NotifyFormat := format\<rparr>) s)
            in case save_cfg env s1 of
                 (s2, Some e) \<Rightarrow>
                   (set_notifier oldURL oldFmt
                      (with_cfg (\<lambda>c. c\<lparr>NotifyURL := oldURL, NotifyFormat := oldFmt\<rparr>) s2), Some e)
               | (s2, None) \<Rightarrow> (s2, None)))"

section \<open>Export and import\<close>

definition ExportConfig :: "server \<Rightarrow> server_cfg" where
  "ExportConfig s = s_cfg s"

text \<open>The fields an import takes over from \<open>inc\<close>; the others keep their present values.\<close>

definition import_fields :: "server_cfg \<Rightarrow> server_cfg \<Rightarrow> server_cfg" where
  "import_fields inc c =
     c\<lparr>Password := Password inc, NoAuth := NoAuth inc, IPWhitelist := IPWhitelist inc,
       IPBlacklist := IPBlacklist inc, NotifyURL := NotifyURL inc, NotifyFormat := NotifyFormat inc,
       LogFile := LogFile inc, Clients := Clients inc, Rules := Rules inc\<rparr>"

definition restoreCfg ::
  "server_cfg \<Rightarrow> client_user list \<Rightarrow> rule list \<Rightarrow> string list \<Rightarrow> string list \<Rightarrow> server \<Rightarrow> server" where
  "restoreCfg old clients rules wl bl s =
     set_notifier (NotifyURL old) (NotifyFormat old)
       (with_cfg (\<lambda>c. c\<lparr>Password := Password old, NoAuth := NoAuth old, IPWhitelist := wl,
                        IPBlacklist := bl, NotifyURL := NotifyURL old, NotifyFormat := NotifyFormat old,
                        LogFile := LogFile old, Clients := clients, Rules := rules\<rparr>) s)"

fun first_bad_rule :: "client_user list \<Rightarrow> rule list \<Rightarrow> (rule \<times> rule_error) option" where
  "first_bad_rule clients [] = None"
| "first_bad_rule clients (r # rs) =
     (case validateRule r clients of Some e \<Rightarrow> Some (r, e) | None \<Rightarrow> first_bad_rule clients rs)"

definition kick_unlisted :: "server \<Rightarrow> server" where
  "kick_unlisted s =
     foldl (\<lambda>s (name, cc). if list_ex (\<lambda>c. cu_Name c = name) (Clients (s_cfg s)) then s
                           else close_session (cn_Session cc) s) s (s_clients s)"

definition ImportConfig :: "env \<Rightarrow> server_cfg \<Rightarrow> server \<Rightarrow> server \<times> srv_error option" where
  "ImportConfig env inc s =
     (let old = s_cfg s;
          restore = restoreCfg old (Clients old) (Rules old) (IPWhitelist old) (IPBlacklist old);
          s1 = with_cfg (import_fields inc) s
      in case NewACL (IPWhitelist (s_cfg s1)) of
           Inl e \<Rightarrow> (restore s1, Some (BadWhitelist e))
         | Inr _ \<Rightarrow>
             (case NewACL (IPBlacklist (s_cfg s1)) of
                Inl e \<Rightarrow> (restore s1, Some (BadBlacklist e))
              | Inr _ \<Rightarrow>
                  (case first_bad_rule (Clients (s_cfg s1)) (Rules (s_cfg s1)) of
                     Some (r, e) \<Rightarrow> (restore s1, Some (BadImportedRule (Name r) e))
                   | None \<Rightarrow>
                       (case save_cfg env s1 of
                          (s2, Some e) \<Rightarrow> (restore s2, Some e)
                        | (s2, None) \<Rightarrow>
                            (let s3 = kick_unlisted (set_notifier (NotifyURL inc) (NotifyFormat inc) s2)
                             in (broadcastRules env (apply_rules env s3), None))))))"

end
