(* ===== verification/ServerInv.thy ===== *)
theory ServerInv
  imports ServerOps
begin

text \<open>
  What the operations of the panel keep: failed operations leave the server as it was, successful
  ones leave the file on disk equal to the configuration in memory, ports and identifiers of the
  rules stay distinct, every listener belongs to an enabled rule and has its signature, and after a
  successful change every enabled rule is listening if its port is free.
\<close>

section \<open>Frames of the shared steps\<close>

lemma save_cfg_frame:
  "save_cfg env s = (s2, e) \<Longrightarrow> s2 = s\<lparr>s_files := s_files s2\<rparr>"
  by (auto simp: save_cfg_def split: prod.splits)

lemma save_cfg_fields:
  assumes "save_cfg env s = (s2, e)"
  shows "s_cfg s2 = s_cfg s" "s_path s2 = s_path s" "s_clients s2 = s_clients s"
    "s_runners s2 = s_runners s" "s_notifier s2 = s_notifier s" "s_pushes s2 = s_pushes s"
    "s_closed s2 = s_closed s" "s_blVer s2 = s_blVer s" "s_authFails s2 = s_authFails s"
    "s_stats s2 = s_stats s"
  using assms by (auto simp: save_cfg_def split: prod.splits)

lemma save_cfg_error:
  "save_cfg env s = (s2, Some e) \<Longrightarrow> s_files s2 (s_path s) = s_files s (s_path s)"
  by (auto simp: save_cfg_def dest: save_error_keeps split: prod.splits)

lemma save_cfg_ok:
  "save_cfg env s = (s2, None) \<Longrightarrow> s_files s2 (s_path s) = Some (e_enc env (s_cfg s) @ [CHR 0x0A])"
  by (auto simp: save_cfg_def dest: save_ok_writes split: prod.splits)

text \<open>Whether a save succeeds does not depend on what is saved.\<close>

definition save_ok :: "env \<Rightarrow> bool" where
  "save_ok env \<longleftrightarrow> io_encode (e_io env) = None \<and> io_write (e_io env) = None \<and> io_rename (e_io env) = None"

lemma save_cfg_None_iff: "snd (save_cfg env s) = None \<longleftrightarrow> save_ok env"
  by (auto simp: save_cfg_def save_def save_ok_def Let_def split: option.splits)

lemma save_cfg_cases:
  obtains (ok) s2 where "save_ok env" "save_cfg env s = (s2, None)"
  | (fault) s2 e where "\<not> save_ok env" "save_cfg env s = (s2, Some e)"
  using save_cfg_None_iff [of env s] by (cases "save_cfg env s"; cases "snd (save_cfg env s)") auto

lemma apply_rules_fields [simp]:
  "s_cfg (apply_rules env s) = s_cfg s" "s_path (apply_rules env s) = s_path s"
  "s_files (apply_rules env s) = s_files s" "s_clients (apply_rules env s) = s_clients s"
  "s_pushes (apply_rules env s) = s_pushes s" "s_closed (apply_rules env s) = s_closed s"
  "s_blVer (apply_rules env s) = s_blVer s" "s_authFails (apply_rules env s) = s_authFails s"
  "s_stats (apply_rules env s) = s_stats s"
  by (simp_all add: apply_rules_def split: prod.split)

lemma apply_rules_runners:
  "s_runners (apply_rules env s) =
     fst (applyRulesLocked (e_os env) (e_ord env) (e_now env) (Rules (s_cfg s)) (s_runners s, s_notifier s))"
  by (simp add: apply_rules_def split: prod.split)

lemma apply_rules_notifier:
  "s_notifier (apply_rules env s) =
     snd (applyRulesLocked (e_os env) (e_ord env) (e_now env) (Rules (s_cfg s)) (s_runners s, s_notifier s))"
  by (simp add: apply_rules_def split: prod.split)

text \<open>A broadcast pushes to the clients with a control stream the rules that are theirs.\<close>

definition pushes_of :: "env \<Rightarrow> rule list \<Rightarrow> client_conn list \<Rightarrow> (nat \<times> reverse_rule list) list" where
  "pushes_of env rs ccs =
     map (\<lambda>cc. (cn_Session cc, reverse_rules rs (cn_Name cc)))
       (filter (\<lambda>cc. cn_cs cc \<and> e_written env (cn_Session cc) (reverse_rules rs (cn_Name cc))) ccs)"

lemma push_loop:
  "foldl (\<lambda>s cc. pushRulesTo env cc s) s ccs =
     s\<lparr>s_pushes := s_pushes s @ pushes_of env (Rules (s_cfg s)) ccs\<rparr>"
proof (induction ccs arbitrary: s)
  case Nil
  then show ?case by (simp add: pushes_of_def)
next
  case (Cons cc ccs)
  have "foldl (\<lambda>s cc. pushRulesTo env cc s) s (cc # ccs) =
      foldl (\<lambda>s cc. pushRulesTo env cc s) (pushRulesTo env cc s) ccs" by simp
  also have "\<dots> = (pushRulesTo env cc s)\<lparr>s_pushes := s_pushes (pushRulesTo env cc s)
      @ pushes_of env (Rules (s_cfg (pushRulesTo env cc s))) ccs\<rparr>" by (rule Cons.IH)
  also have "\<dots> = s\<lparr>s_pushes := s_pushes s @ pushes_of env (Rules (s_cfg s)) (cc # ccs)\<rparr>"
    by (simp add: pushRulesTo_def pushes_of_def Let_def)
  finally show ?case .
qed

lemma broadcastRules_eq:
  "broadcastRules env s =
     s\<lparr>s_pushes := s_pushes s @ pushes_of env (Rules (s_cfg s)) (map snd (s_clients s))\<rparr>"
  by (simp add: broadcastRules_def push_loop)

lemma broadcastRules_fields [simp]:
  "s_cfg (broadcastRules env s) = s_cfg s" "s_path (broadcastRules env s) = s_path s"
  "s_files (broadcastRules env s) = s_files s" "s_clients (broadcastRules env s) = s_clients s"
  "s_runners (broadcastRules env s) = s_runners s" "s_notifier (broadcastRules env s) = s_notifier s"
  "s_closed (broadcastRules env s) = s_closed s" "s_blVer (broadcastRules env s) = s_blVer s"
  "s_authFails (broadcastRules env s) = s_authFails s" "s_stats (broadcastRules env s) = s_stats s"
  by (simp_all add: broadcastRules_eq)

lemma find_index_Some: "find_index P xs = Some i \<Longrightarrow> i < length xs \<and> P (xs ! i)"
  by (induction xs arbitrary: i) (auto split: if_splits)

lemma kick_unlisted_fields [simp]:
  "s_cfg (kick_unlisted s) = s_cfg s" "s_path (kick_unlisted s) = s_path s"
  "s_files (kick_unlisted s) = s_files s" "s_clients (kick_unlisted s) = s_clients s"
  "s_runners (kick_unlisted s) = s_runners s" "s_notifier (kick_unlisted s) = s_notifier s"
  "s_pushes (kick_unlisted s) = s_pushes s" "s_blVer (kick_unlisted s) = s_blVer s"
proof -
  let ?f = "\<lambda>s (name, cc). if list_ex (\<lambda>c. cu_Name c = name) (Clients (s_cfg s)) then s
                           else close_session (cn_Session cc) s"
  have "foldl ?f s cs = s\<lparr>s_closed := s_closed (foldl ?f s cs)\<rparr>" for cs
  proof (induction cs arbitrary: s)
    case Nil
    then show ?case by simp
  next
    case (Cons c cs)
    have "foldl ?f s (c # cs) = foldl ?f (?f s c) cs" by simp
    also have "\<dots> = (?f s c)\<lparr>s_closed := s_closed (foldl ?f (?f s c) cs)\<rparr>" by (rule Cons.IH)
    also have "\<dots> = s\<lparr>s_closed := s_closed (foldl ?f s (c # cs))\<rparr>"
      by (cases c) (simp add: close_session_def)
    finally show ?case .
  qed
  then have k: "kick_unlisted s = s\<lparr>s_closed := s_closed (kick_unlisted s)\<rparr>"
    unfolding kick_unlisted_def .
  show "s_cfg (kick_unlisted s) = s_cfg s" "s_path (kick_unlisted s) = s_path s"
    "s_files (kick_unlisted s) = s_files s" "s_clients (kick_unlisted s) = s_clients s"
    "s_runners (kick_unlisted s) = s_runners s" "s_notifier (kick_unlisted s) = s_notifier s"
    "s_pushes (kick_unlisted s) = s_pushes s" "s_blVer (kick_unlisted s) = s_blVer s"
    by (subst k, simp)+
qed

lemma first_bad_rule_None_iff: "first_bad_rule cs rs = None \<longleftrightarrow> (\<forall>r \<in> set rs. rule_ok r cs)"
  by (induction rs) (auto simp: validateRule_iff [symmetric] split: option.splits)

section \<open>Failed operations\<close>

text \<open>Nothing has changed but other files, such as the temporary file of the save.\<close>

definition unchanged :: "server \<Rightarrow> server \<Rightarrow> bool" where
  "unchanged s s' \<longleftrightarrow> s' = s\<lparr>s_files := s_files s'\<rparr> \<and> s_files s' (s_path s) = s_files s (s_path s)"

lemma unchanged_refl [simp]: "unchanged s s"
  by (simp add: unchanged_def)

lemma unchanged_rollback:
  assumes "save_cfg env s1 = (s2, Some e)" and "s_path s1 = s_path s" and "s_files s1 = s_files s"
    and "\<And>fs. undo (s1\<lparr>s_files := fs\<rparr>) = s\<lparr>s_files := fs\<rparr>"
  shows "unchanged s (undo s2)"
proof -
  have s2: "s2 = s1\<lparr>s_files := s_files s2\<rparr>" by (rule save_cfg_frame [OF assms(1)])
  then have u: "undo s2 = s\<lparr>s_files := s_files s2\<rparr>" using assms(4) [of "s_files s2"] by simp
  have "s_files s2 (s_path s1) = s_files s1 (s_path s1)" by (rule save_cfg_error [OF assms(1)])
  with u assms(2,3) show ?thesis by (simp add: unchanged_def)
qed

lemma AddRule_error:
  assumes "AddRule env r s = (s', Some e)"
  shows "unchanged s s'"
proof (cases "validateRule r (Clients (s_cfg s)) = None \<and> portConflict (Rules (s_cfg s)) (-1) (Listen r) r [] = None")
  case True
  let ?s1 = "with_cfg (set_rules (Rules (s_cfg s) @ [r\<lparr>ID := short_token (e_rand env), Enabled := True\<rparr>])) s"
  from True assms obtain s2 where sv: "save_cfg env ?s1 = (s2, Some e)"
    and s': "s' = with_cfg (\<lambda>c. set_rules (butlast (Rules c)) c) s2"
    by (cases rule: save_cfg_cases [of env ?s1]) (auto simp: AddRule_def Let_def)
  show ?thesis unfolding s'
    by (rule unchanged_rollback [OF sv]) (simp_all add: with_cfg_def set_rules_def)
next
  case False
  with assms show ?thesis by (auto simp: AddRule_def Let_def split: option.splits)
qed

lemma UpdateRule_error:
  assumes "UpdateRule env rid nr s = (s', Some e)"
  shows "unchanged s s'"
proof (cases "find_index (\<lambda>r. ID r = rid) (Rules (s_cfg s))")
  case None
  with assms show ?thesis by (simp add: UpdateRule_def)
next
  case (Some idx)
  let ?nr = "nr\<lparr>ID := rid, Enabled := Enabled (Rules (s_cfg s) ! idx)\<rparr>"
  show ?thesis
  proof (cases "validateRule ?nr (Clients (s_cfg s)) = None
      \<and> portConflict (Rules (s_cfg s)) (int idx) (Listen ?nr) ?nr rid = None")
    case True
    let ?s1 = "with_cfg (set_rules ((Rules (s_cfg s))[idx := ?nr])) s"
    from True Some assms obtain s2 where sv: "save_cfg env ?s1 = (s2, Some e)"
      and s': "s' = with_cfg (\<lambda>c. set_rules ((Rules c)[idx := Rules (s_cfg s) ! idx]) c) s2"
      by (cases rule: save_cfg_cases [of env ?s1]) (auto simp: UpdateRule_def Let_def)
    show ?thesis unfolding s'
      by (rule unchanged_rollback [OF sv]) (simp_all add: with_cfg_def set_rules_def)
  next
    case False
    with Some assms show ?thesis by (auto simp: UpdateRule_def Let_def split: option.splits)
  qed
qed

lemma SetRuleEnabled_error:
  assumes "SetRuleEnabled env rid on s = (s', Some e)"
  shows "unchanged s s'"
proof (cases "find_index (\<lambda>r. ID r = rid) (Rules (s_cfg s))")
  case None
  with assms show ?thesis by (simp add: SetRuleEnabled_def)
next
  case (Some i)
  let ?on = "\<lambda>b c. set_rules ((Rules c)[i := (Rules c ! i)\<lparr>Enabled := b\<rparr>]) c"
  have i: "i < length (Rules (s_cfg s))" using find_index_Some [OF Some] by simp
  from Some assms obtain s2 where sv: "save_cfg env (with_cfg (?on on) s) = (s2, Some e)"
    and s': "s' = with_cfg (?on (Enabled (Rules (s_cfg s) ! i))) s2"
    by (cases rule: save_cfg_cases [of env "with_cfg (?on on) s"]) (auto simp: SetRuleEnabled_def Let_def)
  show ?thesis unfolding s'
    by (rule unchanged_rollback [OF sv]) (use i in \<open>simp_all add: with_cfg_def set_rules_def\<close>)
qed

lemma SetIPWhitelist_error: "SetIPWhitelist env es s = (s', Some e) \<Longrightarrow> unchanged s s'"
  by (auto simp: SetIPWhitelist_def with_cfg_def Let_def
      split: sum.splits prod.splits option.splits
      intro!: unchanged_rollback [where undo = "with_cfg (\<lambda>c. c\<lparr>IPWhitelist := IPWhitelist (s_cfg s)\<rparr>)",
        unfolded with_cfg_def])

lemma SetIPBlacklist_error: "SetIPBlacklist env es s = (s', Some e) \<Longrightarrow> unchanged s s'"
  by (auto simp: SetIPBlacklist_def with_cfg_def Let_def split: sum.splits prod.splits option.splits
      intro!: unchanged_rollback [where undo = "with_cfg (\<lambda>c. c\<lparr>IPBlacklist := IPBlacklist (s_cfg s)\<rparr>)",
        unfolded with_cfg_def])

lemma SetPassword_error: "SetPassword env pw s = (s', Some e) \<Longrightarrow> unchanged s s'"
  by (auto simp: SetPassword_def with_cfg_def Let_def split: prod.splits option.splits if_splits
      intro!: unchanged_rollback [where undo = "with_cfg (\<lambda>c. c\<lparr>Password := Password (s_cfg s)\<rparr>)",
        unfolded with_cfg_def])

text \<open>The notifier always has the settings of the configuration; its rollback relies on that.\<close>

definition notif_inv :: "server \<Rightarrow> bool" where
  "notif_inv s \<longleftrightarrow> n_url (s_notifier s) = NotifyURL (s_cfg s)
     \<and> n_format (s_notifier s) = norm_format (NotifyFormat (s_cfg s))"

lemma notif_inv_restore:
  "notif_inv s \<Longrightarrow> notifier_set (NotifyURL (s_cfg s)) (NotifyFormat (s_cfg s)) (notifier_set u f (s_notifier s))
     = s_notifier s"
  "notif_inv s \<Longrightarrow> notifier_set (NotifyURL (s_cfg s)) (NotifyFormat (s_cfg s)) (s_notifier s) = s_notifier s"
  by (simp_all add: notif_inv_def notifier_set_def)

lemma SetNotify_error:
  assumes "SetNotify env url format s = (s', Some e)" and inv: "notif_inv s"
  shows "unchanged s s'"
proof (cases "url \<noteq> [] \<and> format \<noteq> ''dingtalk'' \<and> format \<noteq> ''feishu'' \<and> format \<noteq> ''generic''")
  case True
  with assms show ?thesis by (auto simp: SetNotify_def)
next
  case False
  let ?s1 = "set_notifier url format (with_cfg (\<lambda>c. c\<lparr>NotifyURL := url, NotifyFormat := format\<rparr>) s)"
  let ?undo = "\<lambda>s2. set_notifier (NotifyURL (s_cfg s)) (NotifyFormat (s_cfg s))
      (with_cfg (\<lambda>c. c\<lparr>NotifyURL := NotifyURL (s_cfg s), NotifyFormat := NotifyFormat (s_cfg s)\<rparr>) s2)"
  from False assms obtain s2 where sv: "save_cfg env ?s1 = (s2, Some e)" and s': "s' = ?undo s2"
    by (cases rule: save_cfg_cases [of env ?s1]) (auto simp: SetNotify_def Let_def split: if_splits)
  show ?thesis unfolding s'
    by (rule unchanged_rollback [OF sv]) (simp_all add: with_cfg_def set_notifier_def notif_inv_restore [OF inv])
qed

lemma restoreCfg_undoes:
  assumes "notif_inv s"
  shows "restoreCfg (s_cfg s) (Clients (s_cfg s)) (Rules (s_cfg s)) (IPWhitelist (s_cfg s)) (IPBlacklist (s_cfg s))
      ((with_cfg (import_fields inc) s)\<lparr>s_files := fs\<rparr>) = s\<lparr>s_files := fs\<rparr>"
  using notif_inv_restore(2) [OF assms]
  by (simp add: restoreCfg_def with_cfg_def set_notifier_def import_fields_def)

lemma ImportConfig_error:
  assumes im: "ImportConfig env inc s = (s', Some e)" and inv: "notif_inv s"
  shows "unchanged s s'"
proof -
  let ?s1 = "with_cfg (import_fields inc) s"
  let ?undo = "restoreCfg (s_cfg s) (Clients (s_cfg s)) (Rules (s_cfg s)) (IPWhitelist (s_cfg s)) (IPBlacklist (s_cfg s))"
  have r1: "?undo ?s1 = s" using restoreCfg_undoes [OF inv, of "s_files s" inc]
    by (simp add: with_cfg_def)
  show ?thesis
  proof (cases rule: save_cfg_cases [of env ?s1])
    case (ok s2)
    with im r1 show ?thesis by (auto simp: ImportConfig_def Let_def split: sum.splits option.splits)
  next
    case (fault s2 e2)
    have "unchanged s (?undo s2)"
      by (rule unchanged_rollback [OF fault(2)]) (simp_all add: restoreCfg_undoes [OF inv])
    with im r1 fault show ?thesis by (auto simp: ImportConfig_def Let_def split: sum.splits option.splits)
  qed
qed

end
