(* ===== verification/ServerSteps.thy ===== *)
theory ServerSteps
  imports ServerInv
begin

text \<open>
  Successful operations of the panel, the invariant of the server and its preservation by every
  step. The steps are an inductive relation, so the invariant holds in every reachable state.
\<close>

section \<open>What a commit does\<close>

text \<open>The tail the rule operations share: save, diff the listeners, push to the clients.\<close>

definition committed :: "env \<Rightarrow> server \<Rightarrow> server \<Rightarrow> bool" where
  "committed env s1 s' \<longleftrightarrow>
     (\<exists>s2. save_cfg env s1 = (s2, None) \<and> s' = broadcastRules env (apply_rules env s2))"

definition saved :: "env \<Rightarrow> server \<Rightarrow> bool" where
  "saved env s \<longleftrightarrow> s_files s (s_path s) = Some (e_enc env (s_cfg s) @ [CHR 0x0A])"

definition runners_after :: "env \<Rightarrow> rule list \<Rightarrow> server \<Rightarrow> runner gomap" where
  "runners_after env rs s =
     fst (applyRulesLocked (e_os env) (e_ord env) (e_now env) rs (s_runners s, s_notifier s))"

definition notifier_after :: "env \<Rightarrow> rule list \<Rightarrow> server \<Rightarrow> notifier" where
  "notifier_after env rs s =
     snd (applyRulesLocked (e_os env) (e_ord env) (e_now env) rs (s_runners s, s_notifier s))"

lemma committed_facts:
  assumes "committed env s1 s'"
  shows "s_cfg s' = s_cfg s1" "s_path s' = s_path s1" "s_clients s' = s_clients s1"
    "s_closed s' = s_closed s1" "saved env s'"
    "s_runners s' = runners_after env (Rules (s_cfg s1)) s1"
    "s_notifier s' = notifier_after env (Rules (s_cfg s1)) s1"
    "s_pushes s' = s_pushes s1 @ pushes_of env (Rules (s_cfg s1)) (map snd (s_clients s1))"
proof -
  from assms obtain s2 where s2: "save_cfg env s1 = (s2, None)" "s' = broadcastRules env (apply_rules env s2)"
    by (auto simp: committed_def)
  note f = save_cfg_fields [OF s2(1)] save_cfg_ok [OF s2(1)]
  show "s_cfg s' = s_cfg s1" "s_path s' = s_path s1" "s_clients s' = s_clients s1"
    "s_closed s' = s_closed s1" "saved env s'"
    "s_runners s' = runners_after env (Rules (s_cfg s1)) s1"
    "s_notifier s' = notifier_after env (Rules (s_cfg s1)) s1"
    "s_pushes s' = s_pushes s1 @ pushes_of env (Rules (s_cfg s1)) (map snd (s_clients s1))"
    using f by (simp_all add: s2(2) saved_def runners_after_def notifier_after_def
        apply_rules_runners apply_rules_notifier broadcastRules_eq)
qed

definition added :: "env \<Rightarrow> rule \<Rightarrow> rule" where
  "added env r = r\<lparr>ID := short_token (e_rand env), Enabled := True\<rparr>"

definition updated :: "string \<Rightarrow> rule \<Rightarrow> rule \<Rightarrow> rule" where
  "updated rid old nr = nr\<lparr>ID := rid, Enabled := Enabled old\<rparr>"

lemma rule_ok_ident [simp]:
  "rule_ok (r\<lparr>ID := i\<rparr>) cs = rule_ok r cs" "rule_ok (r\<lparr>Enabled := b\<rparr>) cs = rule_ok r cs"
  "rule_ok (r\<lparr>ID := i, Enabled := b\<rparr>) cs = rule_ok r cs"
  by (simp_all add: rule_ok_def)

lemma SideOf_ident [simp]:
  "SideOf (r\<lparr>ID := i\<rparr>) = SideOf r" "SideOf (r\<lparr>Enabled := b\<rparr>) = SideOf r"
  "SideOf (r\<lparr>ID := i, Enabled := b\<rparr>) = SideOf r"
  by (simp_all add: SideOf_def)

lemma clash_ident [simp]:
  "clash (r\<lparr>ID := i\<rparr>) q = clash r q" "clash (r\<lparr>Enabled := b\<rparr>) q = clash r q"
  "clash (r\<lparr>ID := i, Enabled := b\<rparr>) q = clash r q"
  "clash q (r\<lparr>ID := i\<rparr>) = clash q r" "clash q (r\<lparr>Enabled := b\<rparr>) = clash q r" "clash q (r\<lparr>ID := i, Enabled := b\<rparr>) = clash q r"
  by (simp_all add: clash_def)

lemma added_simps [simp]:
  "ID (added env r) = short_token (e_rand env)" "Enabled (added env r)" "Listen (added env r) = Listen r"
  "rule_ok (added env r) cs = rule_ok r cs" "clash (added env r) q = clash r q" "clash q (added env r) = clash q r"
  by (simp_all add: added_def)

lemma updated_simps [simp]:
  "ID (updated rid old nr) = rid" "Enabled (updated rid old nr) = Enabled old"
  "Listen (updated rid old nr) = Listen nr" "rule_ok (updated rid old nr) cs = rule_ok nr cs"
  "clash (updated rid old nr) q = clash nr q" "clash q (updated rid old nr) = clash q nr"
  by (simp_all add: updated_def)

section \<open>The rule operations\<close>

definition free_port :: "rule \<Rightarrow> rule list \<Rightarrow> bool" where
  "free_port r rs \<longleftrightarrow> (\<forall>q \<in> set rs. Listen q = Listen r \<and> ID q \<noteq> [] \<longrightarrow> \<not> clash r q)"

lemma portConflict_add: "portConflict rs (-1) (Listen r) r [] = None \<longleftrightarrow> free_port r rs"
  unfolding portConflict_def port_scan_None_iff free_port_def all_set_conv_all_nth by auto

lemma AddRule_cases:
  "snd (AddRule env r s) = None \<longleftrightarrow> rule_ok r (Clients (s_cfg s)) \<and> free_port r (Rules (s_cfg s)) \<and> save_ok env"
  unfolding portConflict_add [symmetric] validateRule_iff [symmetric]
  using save_cfg_None_iff [of env "with_cfg (set_rules (Rules (s_cfg s) @ [added env r])) s"]
  by (auto simp: AddRule_def Let_def added_def split: option.splits prod.splits)

lemma AddRule_commits:
  "AddRule env r s = (s', None) \<Longrightarrow>
     committed env (with_cfg (set_rules (Rules (s_cfg s) @ [added env r])) s) s'"
  by (auto simp: AddRule_def Let_def added_def committed_def split: option.splits prod.splits)

definition other_ports :: "nat \<Rightarrow> rule \<Rightarrow> rule list \<Rightarrow> bool" where
  "other_ports i r rs \<longleftrightarrow>
     (\<forall>j < length rs. j \<noteq> i \<longrightarrow> Listen (rs ! j) = Listen r \<longrightarrow> ID (rs ! j) \<noteq> ID r \<longrightarrow> \<not> clash r (rs ! j))"

lemma portConflict_update:
  "portConflict rs (int i) (Listen r) r (ID r) = None \<longleftrightarrow> other_ports i r rs"
  by (auto simp: portConflict_def port_scan_None_iff other_ports_def)

lemma UpdateRule_cases:
  "snd (UpdateRule env rid nr s) = None \<longleftrightarrow>
     (\<exists>i. find_index (\<lambda>r. ID r = rid) (Rules (s_cfg s)) = Some i
        \<and> rule_ok nr (Clients (s_cfg s))
        \<and> other_ports i (updated rid (Rules (s_cfg s) ! i) nr) (Rules (s_cfg s)) \<and> save_ok env)"
proof (cases "find_index (\<lambda>r. ID r = rid) (Rules (s_cfg s))")
  case None
  then show ?thesis by (simp add: UpdateRule_def)
next
  case (Some i)
  let ?nr = "updated rid (Rules (s_cfg s) ! i) nr"
  have "rule_ok nr (Clients (s_cfg s)) \<longleftrightarrow> validateRule ?nr (Clients (s_cfg s)) = None"
    by (simp add: validateRule_iff)
  moreover have "other_ports i ?nr (Rules (s_cfg s)) \<longleftrightarrow>
      portConflict (Rules (s_cfg s)) (int i) (Listen ?nr) ?nr rid = None"
    using portConflict_update [of "Rules (s_cfg s)" i ?nr] by simp
  ultimately show ?thesis
    using Some save_cfg_None_iff [of env "with_cfg (set_rules ((Rules (s_cfg s))[i := ?nr])) s"]
    by (auto simp: UpdateRule_def Let_def updated_def split: option.splits prod.splits)
qed

lemma UpdateRule_commits:
  assumes "UpdateRule env rid nr s = (s', None)"
  shows "\<exists>i. find_index (\<lambda>r. ID r = rid) (Rules (s_cfg s)) = Some i
           \<and> committed env (with_cfg (set_rules
               ((Rules (s_cfg s))[i := updated rid (Rules (s_cfg s) ! i) nr])) s) s'"
  using assms
  by (auto simp: UpdateRule_def Let_def updated_def committed_def split: option.splits prod.splits)

lemma SetRuleEnabled_commits:
  assumes "SetRuleEnabled env rid on s = (s', None)"
  shows "\<exists>i. find_index (\<lambda>r. ID r = rid) (Rules (s_cfg s)) = Some i
           \<and> committed env (with_cfg (set_rules
               ((Rules (s_cfg s))[i := (Rules (s_cfg s) ! i)\<lparr>Enabled := on\<rparr>])) s) s'"
  using assms
  by (auto simp: SetRuleEnabled_def Let_def committed_def with_cfg_def set_rules_def
      split: option.splits prod.splits)

lemma SetRuleEnabled_cases:
  "snd (SetRuleEnabled env rid on s) = None \<longleftrightarrow>
     (\<exists>r \<in> set (Rules (s_cfg s)). ID r = rid) \<and> save_ok env"
proof (cases "find_index (\<lambda>r. ID r = rid) (Rules (s_cfg s))")
  case None
  then have "\<forall>r \<in> set (Rules (s_cfg s)). ID r \<noteq> rid" by (simp add: find_index_None_iff)
  with None show ?thesis by (simp add: SetRuleEnabled_def)
next
  case (Some i)
  then have "\<exists>r \<in> set (Rules (s_cfg s)). ID r = rid"
    using find_index_Some [OF Some] by (auto intro: bexI [of _ "Rules (s_cfg s) ! i"])
  with Some show ?thesis
    by (cases rule: save_cfg_cases [of env "with_cfg (\<lambda>c. set_rules
          ((Rules c)[i := (Rules c ! i)\<lparr>Enabled := on\<rparr>]) c) s"])
       (auto simp: SetRuleEnabled_def Let_def)
qed

lemma DeleteRule_effect:
  assumes "DeleteRule env rid s = (s', err)"
  shows "(err = Some NotFound \<and> s' = s \<and> (\<forall>r \<in> set (Rules (s_cfg s)). ID r \<noteq> rid))
       \<or> (\<exists>i. find_index (\<lambda>r. ID r = rid) (Rules (s_cfg s)) = Some i
            \<and> s_cfg s' = set_rules (remove_nth i (Rules (s_cfg s))) (s_cfg s)
            \<and> s_runners s' = del rid (s_runners s) \<and> s_notifier s' = s_notifier s
            \<and> s_clients s' = s_clients s \<and> s_path s' = s_path s \<and> s_closed s' = s_closed s
            \<and> (err = None \<longleftrightarrow> save_ok env) \<and> (err = None \<longrightarrow> saved env s'))"
proof (cases "find_index (\<lambda>r. ID r = rid) (Rules (s_cfg s))")
  case None
  with assms show ?thesis by (auto simp: DeleteRule_def find_index_None_iff)
next
  case (Some i)
  let ?s1 = "with_cfg (set_rules (remove_nth i (Rules (s_cfg s)))) s"
  let ?s2 = "?s1\<lparr>s_runners := del rid (s_runners ?s1)\<rparr>"
  obtain s3 e where sv: "save_cfg env ?s2 = (s3, e)" by fastforce
  note f = save_cfg_fields [OF sv]
  have s': "s' = broadcastRules env s3" and e: "err = e"
    using assms Some sv by (simp_all add: DeleteRule_def Let_def)
  have "err = None \<longleftrightarrow> save_ok env" using save_cfg_None_iff [of env ?s2] sv e by simp
  moreover have "err = None \<longrightarrow> saved env s'"
    using save_cfg_ok [of env ?s2 s3] sv e f s' by (auto simp: saved_def)
  ultimately show ?thesis using Some f s' by simp
qed

section \<open>The invariant\<close>

definition rules_inv :: "server_cfg \<Rightarrow> bool" where
  "rules_inv cfg \<longleftrightarrow> ports_ok (Rules cfg) \<and> ids_ok (Rules cfg) \<and> (\<forall>r \<in> set (Rules cfg). rule_ok r (Clients cfg))"

definition runners_inv :: "server \<Rightarrow> bool" where
  "runners_inv s \<longleftrightarrow> distinct (keys (s_runners s))
     \<and> (\<forall>k rn. lookup (s_runners s) k = Some rn \<longrightarrow>
          (\<exists>r \<in> set (Rules (s_cfg s)). ID r = k \<and> wanted r \<and> sameAs rn r))"

definition server_inv :: "server \<Rightarrow> bool" where
  "server_inv s \<longleftrightarrow> rules_inv (s_cfg s) \<and> runners_inv s \<and> notif_inv s \<and> debounce_inv (s_notifier s)"

lemma unchanged_inv: "unchanged s s' \<Longrightarrow> server_inv s' = server_inv s"
proof -
  assume "unchanged s s'"
  then obtain fs where "s' = s\<lparr>s_files := fs\<rparr>" unfolding unchanged_def by blast
  then show ?thesis by (simp add: server_inv_def runners_inv_def notif_inv_def)
qed

lemma runners_after_inv:
  assumes "go_order (e_ord env)" and "distinct (keys (s_runners s))"
    and "s_runners s' = runners_after env (Rules (s_cfg s')) s"
  shows "runners_inv s'"
  unfolding runners_inv_def
proof (intro conjI allI impI)
  show "distinct (keys (s_runners s'))"
    unfolding assms(3) runners_after_def by (rule apply_keys) (simp add: assms(2))
  fix k rn
  assume "lookup (s_runners s') k = Some rn"
  then obtain r where "lookup (desired_rules (Rules (s_cfg s'))) k = Some r" "sameAs rn r"
    unfolding assms(3) runners_after_def using apply_sound [OF assms(1)] by blast
  then show "\<exists>r \<in> set (Rules (s_cfg s')). ID r = k \<and> wanted r \<and> sameAs rn r"
    using desired_rules_SomeD by blast
qed

lemma notifier_after_inv:
  assumes "debounce_inv (s_notifier s)"
  shows "debounce_inv (notifier_after env rs s)" "n_url (notifier_after env rs s) = n_url (s_notifier s)"
    "n_format (notifier_after env rs s) = n_format (s_notifier s)"
proof -
  show "debounce_inv (notifier_after env rs s)"
    unfolding notifier_after_def by (rule apply_notifier) (simp_all add: assms debounce_inv_send)
  show "n_url (notifier_after env rs s) = n_url (s_notifier s)"
    unfolding notifier_after_def by (rule apply_notifier [where P = "\<lambda>n. n_url n = _"]) simp_all
  show "n_format (notifier_after env rs s) = n_format (s_notifier s)"
    unfolding notifier_after_def by (rule apply_notifier [where P = "\<lambda>n. n_format n = _"]) simp_all
qed

lemma committed_inv:
  assumes "committed env (with_cfg (set_rules rs) s) s'" and "server_inv s" and "go_order (e_ord env)"
    and "rules_inv (set_rules rs (s_cfg s))"
  shows "server_inv s'"
proof -
  note c = committed_facts [OF assms(1)]
  have cfg: "s_cfg s' = set_rules rs (s_cfg s)" using c(1) by simp
  have d: "distinct (keys (s_runners s))" using assms(2) by (simp add: server_inv_def runners_inv_def)
  have "runners_inv s'"
  proof (rule runners_after_inv [OF assms(3) d])
    show "s_runners s' = runners_after env (Rules (s_cfg s')) s"
      using c(6) by (simp add: cfg runners_after_def)
  qed
  moreover have n: "s_notifier s' = notifier_after env rs s" using c(7) by (simp add: notifier_after_def)
  have "debounce_inv (s_notifier s')" "notif_inv s'"
    using notifier_after_inv [of s env rs] assms(2)
    by (simp_all add: n notif_inv_def server_inv_def cfg set_rules_def)
  ultimately show ?thesis using assms(4) by (simp add: server_inv_def cfg)
qed

lemma rules_inv_add:
  assumes "rules_inv cfg" and "rule_ok r (Clients cfg)" and "free_port r (Rules cfg)"
    and fresh: "ID r' \<notin> ID ` set (Rules cfg)" "ID r' \<noteq> []"
    and same: "Listen r' = Listen r" "\<forall>q. clash r' q = clash r q" "\<forall>cs. rule_ok r' cs = rule_ok r cs"
  shows "rules_inv (set_rules (Rules cfg @ [r']) cfg)"
proof -
  have ids: "\<forall>q \<in> set (Rules cfg). ID q \<noteq> []" using assms(1) by (simp add: rules_inv_def ids_ok_def)
  have "ports_ok (Rules cfg @ [r'])"
    using assms(1,3) ids same by (intro ports_ok_snoc) (auto simp: rules_inv_def free_port_def)
  moreover have "ids_ok (Rules cfg @ [r'])"
    using assms(1) fresh by (auto simp: rules_inv_def ids_ok_def)
  ultimately show ?thesis using assms(1,2) same by (simp add: rules_inv_def)
qed

lemma rules_inv_update:
  assumes "rules_inv cfg" and i: "i < length (Rules cfg)" and "ID r = ID (Rules cfg ! i)"
    and "rule_ok r (Clients cfg)" and "other_ports i r (Rules cfg)"
  shows "rules_inv (set_rules ((Rules cfg)[i := r]) cfg)"
proof -
  have "ids_ok (Rules cfg)" using assms(1) by (simp add: rules_inv_def)
  then have d: "ID (Rules cfg ! j) \<noteq> ID r" if "j < length (Rules cfg)" "j \<noteq> i" for j
    using that i assms(3) by (auto simp: ids_ok_def distinct_conv_nth)
  have "ports_ok ((Rules cfg)[i := r])"
    using assms(1,5) i d by (intro ports_ok_update) (auto simp: rules_inv_def other_ports_def)
  moreover have "ids_ok ((Rules cfg)[i := r])"
    using assms(1,3) i by (intro ids_ok_update) (simp_all add: rules_inv_def)
  moreover have "\<forall>q \<in> set ((Rules cfg)[i := r]). rule_ok q (Clients cfg)"
    using assms(1,4) set_update_subset_insert [of "Rules cfg" i r] by (auto simp: rules_inv_def)
  ultimately show ?thesis by (simp add: rules_inv_def)
qed

section \<open>Reachable states\<close>

text \<open>
  The steps of the server's configuration. An added rule gets an identifier no rule has (32 random
  bits, not checked by the source); an import is a step of its own below, because it accepts rules
  whose ports clash.
\<close>

inductive srv_step :: "server \<Rightarrow> server \<Rightarrow> bool" where
  add: "AddRule env r s = (s', e) \<Longrightarrow> go_order (e_ord env) \<Longrightarrow> e_rand env \<noteq> [] \<Longrightarrow>
     short_token (e_rand env) \<notin> ID ` set (Rules (s_cfg s)) \<Longrightarrow> srv_step s s'"
| update: "UpdateRule env rid nr s = (s', e) \<Longrightarrow> go_order (e_ord env) \<Longrightarrow> srv_step s s'"
| delete: "DeleteRule env rid s = (s', e) \<Longrightarrow> srv_step s s'"
| enable: "SetRuleEnabled env rid on s = (s', e) \<Longrightarrow> go_order (e_ord env) \<Longrightarrow> srv_step s s'"
| add_client: "AddClient env name note s = (s', e) \<Longrightarrow> srv_step s s'"
| delete_client: "DeleteClient env name s = (s', e) \<Longrightarrow> srv_step s s'"
| whitelist: "SetIPWhitelist env entries s = (s', e) \<Longrightarrow> srv_step s s'"
| blacklist: "SetIPBlacklist env entries s = (s', e) \<Longrightarrow> srv_step s s'"
| password: "SetPassword env pw s = (s', e) \<Longrightarrow> srv_step s s'"
| notify: "SetNotify env url format s = (s', e) \<Longrightarrow> srv_step s s'"
| import: "ImportConfig env inc s = (s', e) \<Longrightarrow> go_order (e_ord env) \<Longrightarrow>
     ports_ok (Rules inc) \<Longrightarrow> ids_ok (Rules inc) \<Longrightarrow> srv_step s s'"

inductive srv_reach :: "server \<Rightarrow> server \<Rightarrow> bool" for s0 where
  start: "srv_reach s0 s0"
| step: "srv_reach s0 s \<Longrightarrow> srv_step s s' \<Longrightarrow> srv_reach s0 s'"

lemma AddRule_inv:
  assumes "AddRule env r s = (s', e)" and "go_order (e_ord env)" and "e_rand env \<noteq> []"
    and "short_token (e_rand env) \<notin> ID ` set (Rules (s_cfg s))" and inv: "server_inv s"
  shows "server_inv s'"
proof (cases e)
  case (Some a)
  with assms AddRule_error unchanged_inv show ?thesis by blast
next
  case None
  have ok: "rule_ok r (Clients (s_cfg s))" "free_port r (Rules (s_cfg s))"
    using AddRule_cases [of env r s] assms(1) None by simp_all
  have "rules_inv (set_rules (Rules (s_cfg s) @ [added env r]) (s_cfg s))"
    using inv assms(3,4) ok short_token_nonempty
    by (intro rules_inv_add [where r = r]) (simp_all add: server_inv_def)
  with AddRule_commits assms(1,2) None inv show ?thesis by (blast intro: committed_inv)
qed

lemma UpdateRule_inv:
  assumes "UpdateRule env rid nr s = (s', e)" and "go_order (e_ord env)" and inv: "server_inv s"
  shows "server_inv s'"
proof (cases e)
  case (Some a)
  with assms UpdateRule_error unchanged_inv show ?thesis by blast
next
  case None
  then obtain i where i: "find_index (\<lambda>r. ID r = rid) (Rules (s_cfg s)) = Some i"
    and c: "committed env (with_cfg (set_rules ((Rules (s_cfg s))[i := updated rid (Rules (s_cfg s) ! i) nr])) s) s'"
    using UpdateRule_commits assms(1) by blast
  have "rules_inv (set_rules ((Rules (s_cfg s))[i := updated rid (Rules (s_cfg s) ! i) nr]) (s_cfg s))"
    using UpdateRule_cases [of env rid nr s] assms(1) None i inv find_index_Some [OF i]
    by (intro rules_inv_update) (simp_all add: server_inv_def)
  with c assms(2) inv show ?thesis by (blast intro: committed_inv)
qed

lemma SetRuleEnabled_inv:
  assumes "SetRuleEnabled env rid on s = (s', e)" and "go_order (e_ord env)" and inv: "server_inv s"
  shows "server_inv s'"
proof (cases e)
  case (Some a)
  with assms SetRuleEnabled_error unchanged_inv show ?thesis by blast
next
  case None
  then obtain i where i: "find_index (\<lambda>r. ID r = rid) (Rules (s_cfg s)) = Some i"
    and c: "committed env (with_cfg (set_rules
               ((Rules (s_cfg s))[i := (Rules (s_cfg s) ! i)\<lparr>Enabled := on\<rparr>])) s) s'"
    using SetRuleEnabled_commits assms(1) by blast
  note l = find_index_Some [OF i]
  have "other_ports i ((Rules (s_cfg s) ! i)\<lparr>Enabled := on\<rparr>) (Rules (s_cfg s))"
    using inv l by (auto simp: other_ports_def server_inv_def rules_inv_def ports_ok_def)
  then have "rules_inv (set_rules ((Rules (s_cfg s))[i := (Rules (s_cfg s) ! i)\<lparr>Enabled := on\<rparr>]) (s_cfg s))"
    using l inv by (intro rules_inv_update) (simp_all add: server_inv_def rules_inv_def)
  with c assms(2) inv show ?thesis by (blast intro: committed_inv)
qed

lemma DeleteRule_inv:
  assumes "DeleteRule env rid s = (s', e)" and inv: "server_inv s"
  shows "server_inv s'"
  using DeleteRule_effect [OF assms(1)]
proof (elim disjE exE conjE)
  assume "s' = s"
  with inv show ?thesis by simp
next
  fix i
  assume i: "find_index (\<lambda>r. ID r = rid) (Rules (s_cfg s)) = Some i"
    and cfg: "s_cfg s' = set_rules (remove_nth i (Rules (s_cfg s))) (s_cfg s)"
    and rn: "s_runners s' = del rid (s_runners s)" and n: "s_notifier s' = s_notifier s"
  note l = find_index_Some [OF i]
  have "rules_inv (s_cfg s')"
    using inv set_remove_nth_subset [of i "Rules (s_cfg s)"]
    by (auto simp: cfg server_inv_def rules_inv_def intro: ports_ok_remove ids_ok_remove)
  moreover have "runners_inv s'"
    unfolding runners_inv_def
  proof (intro conjI allI impI)
    show "distinct (keys (s_runners s'))"
      using inv by (simp add: rn server_inv_def runners_inv_def distinct_keys_del)
    fix k x
    assume "lookup (s_runners s') k = Some x"
    then have k: "k \<noteq> rid" "lookup (s_runners s) k = Some x" by (auto simp: rn split: if_splits)
    with inv obtain r where r: "r \<in> set (Rules (s_cfg s))" "ID r = k" "wanted r" "sameAs x r"
      unfolding server_inv_def runners_inv_def by blast
    have "set (Rules (s_cfg s)) = insert (Rules (s_cfg s) ! i) (set (remove_nth i (Rules (s_cfg s))))"
      using mset_remove_nth [of i "Rules (s_cfg s)"] l by (metis set_mset_add_mset_insert set_mset_mset)
    with r k l have "r \<in> set (remove_nth i (Rules (s_cfg s)))" by auto
    with r show "\<exists>r \<in> set (Rules (s_cfg s')). ID r = k \<and> wanted r \<and> sameAs x r" by (auto simp: cfg)
  qed
  ultimately show ?thesis
    using inv by (simp add: server_inv_def n notif_inv_def cfg set_rules_def)
qed

lemma rule_ok_more_clients: "rule_ok r cs \<Longrightarrow> set cs \<subseteq> set cs' \<Longrightarrow> rule_ok r cs'"
  by (auto simp: rule_ok_def)

text \<open>Operations that change other fields of the configuration.\<close>

lemma field_inv:
  assumes "s_cfg s' = f (s_cfg s)" "s_runners s' = s_runners s" "s_notifier s' = s_notifier s"
    and "Rules (f (s_cfg s)) = Rules (s_cfg s)" "NotifyURL (f (s_cfg s)) = NotifyURL (s_cfg s)"
    "NotifyFormat (f (s_cfg s)) = NotifyFormat (s_cfg s)"
    and "\<forall>r \<in> set (Rules (s_cfg s)). rule_ok r (Clients (s_cfg s)) \<longrightarrow> rule_ok r (Clients (f (s_cfg s)))"
    and "server_inv s"
  shows "server_inv s'"
  using assms by (auto simp: server_inv_def rules_inv_def runners_inv_def notif_inv_def)

lemma AddClient_inv:
  assumes "AddClient env name note s = (s', e)" and "server_inv s"
  shows "server_inv s'"
proof (cases "name = [] \<or> list_ex (\<lambda>c. cu_Name c = name) (Clients (s_cfg s))")
  case True
  with assms show ?thesis by (auto simp: AddClient_def Let_def split: if_splits)
next
  case False
  let ?f = "\<lambda>c. c\<lparr>Clients := Clients (s_cfg s) @ [\<lparr>cu_Name = name, cu_Token = RandToken (e_rand env), cu_Note = note\<rparr>]\<rparr>"
  from False assms(1) have sv: "save_cfg env (with_cfg ?f s) = (s', e)" by (simp add: AddClient_def Let_def)
  note f = save_cfg_fields [OF sv]
  show ?thesis
    by (rule field_inv [where f = ?f, OF _ _ _ _ _ _ _ assms(2)])
       (simp_all add: f, auto intro: rule_ok_more_clients)
qed

lemma DeleteClient_effect:
  assumes "DeleteClient env name s = (s', e)"
  shows "(s' = s \<and> e \<noteq> None) \<or> (\<exists>i. i < length (Clients (s_cfg s)) \<and> cu_Name (Clients (s_cfg s) ! i) = name
     \<and> (\<forall>r \<in> set (Rules (s_cfg s)). Client r \<noteq> name)
     \<and> s_cfg s' = (s_cfg s)\<lparr>Clients := remove_nth i (Clients (s_cfg s))\<rparr>
     \<and> s_runners s' = s_runners s \<and> s_notifier s' = s_notifier s \<and> s_clients s' = s_clients s
     \<and> s_path s' = s_path s
     \<and> s_closed s' = s_closed s \<union> cn_Session ` set_option (lookup (s_clients s) name)
     \<and> (e = None \<longleftrightarrow> save_ok env) \<and> (e = None \<longrightarrow> saved env s'))"
proof (cases "find_index (\<lambda>c. cu_Name c = name) (Clients (s_cfg s))")
  case None
  with assms have "s' = s \<and> e = Some NotFound" by (simp add: DeleteClient_def)
  then show ?thesis by simp
next
  case (Some i)
  note l = find_index_Some [OF Some]
  show ?thesis
  proof (cases "List.find (\<lambda>r. Client r = name) (Rules (s_cfg s))")
    case (Some r)
    with \<open>find_index _ _ = Some i\<close> assms have "s' = s \<and> e = Some (Conflict (Name r))"
      by (simp add: DeleteClient_def)
    then show ?thesis by simp
  next
    case None
    define s1 where "s1 = with_cfg (\<lambda>c. c\<lparr>Clients := remove_nth i (Clients (s_cfg s))\<rparr>) s"
    define s2 where "s2 = (case lookup (s_clients s1) name of None \<Rightarrow> s1 | Some cc \<Rightarrow> close_session (cn_Session cc) s1)"
    have sv: "save_cfg env s2 = (s', e)"
      unfolding s2_def s1_def using assms None Some by (simp add: DeleteClient_def Let_def)
    note f = save_cfg_fields [OF sv]
    have s2: "s_cfg s2 = (s_cfg s)\<lparr>Clients := remove_nth i (Clients (s_cfg s))\<rparr>"
      "s_runners s2 = s_runners s" "s_notifier s2 = s_notifier s"
      "s_clients s2 = s_clients s" "s_path s2 = s_path s"
      "s_closed s2 = s_closed s \<union> cn_Session ` set_option (lookup (s_clients s) name)"
      by (simp_all add: s2_def s1_def close_session_def split: option.split)
    have "e = None \<longleftrightarrow> save_ok env" using save_cfg_None_iff [of env s2] sv by simp
    moreover have "e = None \<longrightarrow> saved env s'"
      using save_cfg_ok [of env s2 s'] sv f(1,2) by (auto simp: saved_def)
    moreover have "\<forall>r \<in> set (Rules (s_cfg s)). Client r \<noteq> name"
      using None unfolding find_None_iff by blast
    ultimately show ?thesis
      using l f s2 by (intro disjI2 exI [of _ i]) simp
  qed
qed

lemma DeleteClient_inv:
  assumes "DeleteClient env name s = (s', e)" and inv: "server_inv s"
  shows "server_inv s'"
  using DeleteClient_effect [OF assms(1)]
proof (elim disjE exE conjE)
  assume "s' = s"
  with inv show ?thesis by simp
next
  fix i
  let ?cs = "Clients (s_cfg s)"
  let ?f = "\<lambda>c. c\<lparr>Clients := remove_nth i ?cs\<rparr>"
  assume i: "i < length ?cs" "cu_Name (?cs ! i) = name"
    and free: "\<forall>r \<in> set (Rules (s_cfg s)). Client r \<noteq> name"
    and s': "s_cfg s' = ?f (s_cfg s)" "s_runners s' = s_runners s" "s_notifier s' = s_notifier s"
  have "set ?cs = insert (?cs ! i) (set (remove_nth i ?cs))"
    using mset_remove_nth [OF i(1)] by (metis set_mset_add_mset_insert set_mset_mset)
  then have "\<forall>r \<in> set (Rules (s_cfg s)). rule_ok r ?cs \<longrightarrow> rule_ok r (remove_nth i ?cs)"
    using free i(2) by (auto simp: rule_ok_def)
  then show ?thesis
    by (intro field_inv [where f = ?f, OF s' _ _ _ _ inv]) simp_all
qed

lemma SetIPWhitelist_inv:
  assumes "SetIPWhitelist env es s = (s', e)" and "server_inv s"
  shows "server_inv s'"
proof (cases e)
  case None
  with assms(1) have "save_cfg env (with_cfg (\<lambda>c. c\<lparr>IPWhitelist := es\<rparr>) s) = (s', None)"
    by (auto simp: SetIPWhitelist_def Let_def split: sum.splits prod.splits option.splits)
  note f = save_cfg_fields [OF this]
  show ?thesis
    by (rule field_inv [where f = "\<lambda>c. c\<lparr>IPWhitelist := es\<rparr>", OF _ _ _ _ _ _ _ assms(2)]) (simp_all add: f)
next
  case (Some a)
  with assms show ?thesis using SetIPWhitelist_error unchanged_inv by blast
qed

lemma SetIPBlacklist_commits:
  assumes "SetIPBlacklist env es s = (s', None)"
  shows "\<exists>s2. save_cfg env (with_cfg (\<lambda>c. c\<lparr>IPBlacklist := es\<rparr>) s) = (s2, None)
     \<and> s' = s2\<lparr>s_blVer := s_blVer s2 + 1\<rparr>"
  using assms by (auto simp: SetIPBlacklist_def Let_def split: sum.splits prod.splits option.splits)

lemma SetIPBlacklist_inv:
  assumes "SetIPBlacklist env es s = (s', e)" and "server_inv s"
  shows "server_inv s'"
proof (cases e)
  case None
  with assms(1) obtain s2 where sv: "save_cfg env (with_cfg (\<lambda>c. c\<lparr>IPBlacklist := es\<rparr>) s) = (s2, None)"
    and s': "s' = s2\<lparr>s_blVer := s_blVer s2 + 1\<rparr>" using SetIPBlacklist_commits by blast
  note f = save_cfg_fields [OF sv]
  show ?thesis
    by (rule field_inv [where f = "\<lambda>c. c\<lparr>IPBlacklist := es\<rparr>", OF _ _ _ _ _ _ _ assms(2)]) (simp_all add: f s')
next
  case (Some a)
  with assms show ?thesis using SetIPBlacklist_error unchanged_inv by blast
qed

lemma SetPassword_inv:
  assumes "SetPassword env pw s = (s', e)" and "server_inv s"
  shows "server_inv s'"
proof (cases e)
  case None
  with assms(1) have "save_cfg env (with_cfg (\<lambda>c. c\<lparr>Password := pw\<rparr>) s) = (s', None)"
    by (auto simp: SetPassword_def Let_def split: prod.splits option.splits if_splits)
  note f = save_cfg_fields [OF this]
  show ?thesis
    by (rule field_inv [where f = "\<lambda>c. c\<lparr>Password := pw\<rparr>", OF _ _ _ _ _ _ _ assms(2)]) (simp_all add: f)
next
  case (Some a)
  with assms show ?thesis using SetPassword_error unchanged_inv by blast
qed

lemma set_notifier_fields [simp]:
  "s_cfg (set_notifier u f s) = s_cfg s" "s_runners (set_notifier u f s) = s_runners s"
  "s_notifier (set_notifier u f s) = notifier_set u f (s_notifier s)"
  "s_blVer (set_notifier u f s) = s_blVer s" "s_path (set_notifier u f s) = s_path s" "s_files (set_notifier u f s) = s_files s"
  "s_clients (set_notifier u f s) = s_clients s" "s_pushes (set_notifier u f s) = s_pushes s"
  by (simp_all add: set_notifier_def)

lemma notifier_set_fields [simp]:
  "n_url (notifier_set u f n) = u" "n_format (notifier_set u f n) = norm_format f"
  by (simp_all add: notifier_set_def)

lemma server_inv_notif: "server_inv s \<Longrightarrow> notif_inv s"
  by (simp add: server_inv_def)

lemma SetNotify_inv:
  assumes "SetNotify env url format s = (s', e)" and inv: "server_inv s"
  shows "server_inv s'"
proof (cases e)
  case None
  let ?f = "\<lambda>c. c\<lparr>NotifyURL := url, NotifyFormat := format\<rparr>"
  from None assms(1) have "save_cfg env (set_notifier url format (with_cfg ?f s)) = (s', None)"
    by (auto simp: SetNotify_def Let_def split: prod.splits option.splits if_splits)
  note f = save_cfg_fields [OF this]
  show ?thesis using inv
    by (simp add: server_inv_def rules_inv_def runners_inv_def notif_inv_def f debounce_inv_set)
next
  case (Some a)
  with assms show ?thesis using SetNotify_error unchanged_inv server_inv_notif by blast
qed

lemma ImportConfig_commits:
  assumes "ImportConfig env inc s = (s', None)"
  shows "(\<forall>r \<in> set (Rules inc). rule_ok r (Clients inc))
     \<and> (\<exists>s2. save_cfg env (with_cfg (import_fields inc) s) = (s2, None)
          \<and> s' = broadcastRules env (apply_rules env (kick_unlisted
                   (set_notifier (NotifyURL inc) (NotifyFormat inc) s2))))"
  using assms first_bad_rule_None_iff [of "Clients inc" "Rules inc"]
  by (auto simp: ImportConfig_def import_fields_def Let_def split: sum.splits option.splits prod.splits)

lemma ImportConfig_effect:
  assumes "ImportConfig env inc s = (s', None)"
  shows "s_cfg s' = import_fields inc (s_cfg s)" "s_path s' = s_path s" "s_clients s' = s_clients s"
    "saved env s'" "s_blVer s' = s_blVer s"
    "s_runners s' = fst (applyRulesLocked (e_os env) (e_ord env) (e_now env) (Rules inc)
       (s_runners s, notifier_set (NotifyURL inc) (NotifyFormat inc) (s_notifier s)))"
    "s_notifier s' = snd (applyRulesLocked (e_os env) (e_ord env) (e_now env) (Rules inc)
       (s_runners s, notifier_set (NotifyURL inc) (NotifyFormat inc) (s_notifier s)))"
    "s_pushes s' = s_pushes s @ pushes_of env (Rules inc) (map snd (s_clients s))"
proof -
  from ImportConfig_commits [OF assms] obtain s2 where
    sv: "save_cfg env (with_cfg (import_fields inc) s) = (s2, None)"
    and s': "s' = broadcastRules env (apply_rules env (kick_unlisted
                   (set_notifier (NotifyURL inc) (NotifyFormat inc) s2)))" by blast
  note f = save_cfg_fields [OF sv] save_cfg_ok [OF sv]
  have r: "Rules (import_fields inc c) = Rules inc" for c by (simp add: import_fields_def)
  show "s_cfg s' = import_fields inc (s_cfg s)" "s_path s' = s_path s" "s_clients s' = s_clients s"
    "saved env s'" "s_blVer s' = s_blVer s"
    "s_runners s' = fst (applyRulesLocked (e_os env) (e_ord env) (e_now env) (Rules inc)
       (s_runners s, notifier_set (NotifyURL inc) (NotifyFormat inc) (s_notifier s)))"
    "s_notifier s' = snd (applyRulesLocked (e_os env) (e_ord env) (e_now env) (Rules inc)
       (s_runners s, notifier_set (NotifyURL inc) (NotifyFormat inc) (s_notifier s)))"
    "s_pushes s' = s_pushes s @ pushes_of env (Rules inc) (map snd (s_clients s))"
    using f by (simp_all add: s' saved_def apply_rules_runners apply_rules_notifier broadcastRules_eq r)
qed

lemma ImportConfig_inv:
  assumes im: "ImportConfig env inc s = (s', e)" and ord: "go_order (e_ord env)"
    and "ports_ok (Rules inc)" "ids_ok (Rules inc)" and inv: "server_inv s"
  shows "server_inv s'"
proof (cases e)
  case None
  note i = ImportConfig_effect [OF im [unfolded None]]
  let ?n = "notifier_set (NotifyURL inc) (NotifyFormat inc) (s_notifier s)"
  let ?s = "s\<lparr>s_notifier := ?n\<rparr>"
  have "rules_inv (s_cfg s')"
    using assms(3,4) ImportConfig_commits [OF im [unfolded None]]
    by (simp add: i(1) rules_inv_def import_fields_def)
  moreover have "runners_inv s'"
  proof (rule runners_after_inv [OF ord, of ?s])
    show "distinct (keys (s_runners ?s))" using inv by (simp add: server_inv_def runners_inv_def)
    show "s_runners s' = runners_after env (Rules (s_cfg s')) ?s"
      using i by (simp add: runners_after_def import_fields_def)
  qed
  moreover have n: "s_notifier s' = notifier_after env (Rules inc) ?s"
    using i(7) by (simp add: notifier_after_def)
  have "debounce_inv (s_notifier s') \<and> notif_inv s'"
    using notifier_after_inv [of ?s env "Rules inc"] inv
    by (simp add: n notif_inv_def i(1) import_fields_def server_inv_def debounce_inv_set)
  ultimately show ?thesis by (simp add: server_inv_def)
next
  case (Some a)
  with im inv show ?thesis using ImportConfig_error unchanged_inv server_inv_notif by blast
qed

lemmas op_invs = AddRule_inv UpdateRule_inv DeleteRule_inv SetRuleEnabled_inv AddClient_inv
  DeleteClient_inv SetIPWhitelist_inv SetIPBlacklist_inv SetPassword_inv SetNotify_inv ImportConfig_inv

lemma srv_step_inv: "srv_step s s' \<Longrightarrow> server_inv s \<Longrightarrow> server_inv s'"
  by (induction rule: srv_step.induct) (erule (5) op_invs | erule (4) op_invs | erule (3) op_invs
      | erule (2) op_invs | erule (1) op_invs)+

lemma srv_reach_inv: "srv_reach s0 s \<Longrightarrow> server_inv s0 \<Longrightarrow> server_inv s"
  by (induction rule: srv_reach.induct) (auto intro: srv_step_inv)

lemma New_inv:
  "New now certs cfg path fs = Inr s \<Longrightarrow> rules_inv cfg \<Longrightarrow> server_inv s"
  by (auto simp: New_def Let_def server_inv_def runners_inv_def notif_inv_def newNotifier_def
      debounce_inv_new [unfolded newNotifier_def] split: if_splits sum.splits)

end
