(* ===== verification/ServerLive.thy ===== *)
theory ServerLive
  imports ServerSteps
begin

text \<open>
  What a successful change reaches: every enabled rule of the server is listening with its present
  signature when the operating system refuses only ports this process holds, and every client with
  a control stream was last told the reverse rules that are now its own.
\<close>

section \<open>Listeners\<close>

definition listening :: "server \<Rightarrow> bool" where
  "listening s \<longleftrightarrow> (\<forall>r \<in> set (Rules (s_cfg s)). wanted r \<longrightarrow>
     (\<exists>rn. lookup (s_runners s) (ID r) = Some rn \<and> sameAs rn r))"

text \<open>No rule of \<open>rs'\<close> wants the port of a different rule of \<open>rs\<close>.\<close>

definition no_swap :: "rule list \<Rightarrow> rule list \<Rightarrow> bool" where
  "no_swap rs rs' \<longleftrightarrow> (\<forall>q \<in> set rs. \<forall>r \<in> set rs'. wanted q \<longrightarrow> wanted r \<longrightarrow> ID q \<noteq> ID r \<longrightarrow> Listen q \<noteq> Listen r)"

lemma ports_ok_wanted:
  assumes "ports_ok rs" "q \<in> set rs" "r \<in> set rs" "wanted q" "wanted r" "ID q \<noteq> ID r"
  shows "Listen q \<noteq> Listen r"
proof -
  obtain i j where ij: "i < length rs" "rs ! i = q" "j < length rs" "rs ! j = r"
    using assms(2,3) by (auto simp: in_set_conv_nth)
  have "clash q r" using assms(4,5) by (simp add: clash_def wanted_def)
  moreover have "i \<noteq> j" using ij assms(6) by auto
  ultimately show ?thesis using assms(1) ij by (auto simp: ports_ok_def)
qed

lemma no_swap_add: "ports_ok (rs @ [r]) \<Longrightarrow> no_swap rs (rs @ [r])"
  unfolding no_swap_def using ports_ok_wanted [of "rs @ [r]"] by auto

lemma no_swap_update:
  assumes "ports_ok rs" "ports_ok (rs[i := x])" "i < length rs" "ID x = ID (rs ! i)"
  shows "no_swap rs (rs[i := x])"
  unfolding no_swap_def
proof (intro ballI impI)
  fix q r
  assume q: "q \<in> set rs" and r: "r \<in> set (rs[i := x])" and w: "wanted q" "wanted r" "ID q \<noteq> ID r"
  show "Listen q \<noteq> Listen r"
  proof (cases "r \<in> set rs")
    case True
    with q w assms(1) show ?thesis by (blast dest: ports_ok_wanted)
  next
    case False
    with r have "r = x" using set_update_subset_insert [of rs i x] by auto
    obtain j where j: "j < length rs" "rs ! j = q" using q by (auto simp: in_set_conv_nth)
    with w \<open>r = x\<close> assms(4) have "j \<noteq> i" by auto
    with j have "q \<in> set (rs[i := x])" by (metis length_list_update nth_list_update_neq nth_mem)
    with r w assms(2) show ?thesis by (blast dest: ports_ok_wanted)
  qed
qed

lemma unobstructed_by:
  assumes "runners_inv s" and "no_swap (Rules (s_cfg s)) rs"
  shows "unobstructed (desired_rules rs) (s_runners s)"
  unfolding unobstructed_def
proof (rule ballI, rule case_prodI2, intro allI impI)
  fix p k r j rn
  assume "p \<in> set (desired_rules rs)" "p = (k, r)" and j: "lookup (s_runners s) j = Some rn" "j \<noteq> k"
  then have "lookup (desired_rules rs) k = Some r" by (intro in_lookup_Some distinct_desired) simp
  then have r: "r \<in> set rs" "wanted r" "ID r = k" using desired_rules_SomeD by blast+
  obtain q where q: "q \<in> set (Rules (s_cfg s))" "ID q = j" "wanted q" "sameAs rn q"
    using assms(1) j(1) unfolding runners_inv_def by blast
  have "Listen q \<noteq> Listen r" using assms(2) q r j(2) by (auto simp: no_swap_def)
  then show "rn_port rn \<noteq> rule_port r" using sameAs_port [OF q(4)] by (simp add: rule_port_def)
qed

lemma committed_listening:
  assumes c: "committed env (with_cfg (set_rules rs) s) s'" and inv: "server_inv s"
    and "rules_inv (set_rules rs (s_cfg s))" and "no_swap (Rules (s_cfg s)) rs"
    and "go_order (e_ord env)" and "exclusive (e_os env)"
  shows "listening s'"
proof -
  have rn: "s_runners s' = fst (applyRulesLocked (e_os env) (e_ord env) (e_now env) rs (s_runners s, s_notifier s))"
    and cfg: "s_cfg s' = set_rules rs (s_cfg s)"
    using committed_facts [OF c] by (simp_all add: runners_after_def)
  have ids: "ports_ok rs" "ids_ok rs" "\<forall>r \<in> set rs. rule_ok r (Clients (s_cfg s))"
    using assms(3) by (simp_all add: rules_inv_def)
  have sv: "served (desired_rules rs) (s_runners s')"
    unfolding rn
  proof (rule apply_serves [OF assms(5,6) _ apart_desired [OF ids(1,2)]])
    show "distinct (keys (fst (s_runners s, s_notifier s)))"
      using inv by (simp add: server_inv_def runners_inv_def)
    show "unobstructed (desired_rules rs) (fst (s_runners s, s_notifier s))"
      using inv assms(4) by (simp add: server_inv_def unobstructed_by)
    show "\<forall>r \<in> set rs. wanted r \<longrightarrow> Proto r \<in> {''tcp'', ''udp''}"
      using ids(3) by (simp add: rule_ok_def)
  qed
  have d: "distinct (map ID rs)" using ids(2) by (simp add: ids_ok_def)
  show ?thesis unfolding listening_def cfg Rules_set_rules
    using sv [unfolded served_def] lookup_desired [OF d] by blast
qed

lemma AddRule_listening:
  assumes "AddRule env r s = (s', None)" and inv: "server_inv s" and "go_order (e_ord env)"
    and "exclusive (e_os env)" and "e_rand env \<noteq> []"
    and "short_token (e_rand env) \<notin> ID ` set (Rules (s_cfg s))"
  shows "listening s'"
proof -
  have ok: "rule_ok r (Clients (s_cfg s))" "free_port r (Rules (s_cfg s))"
    using AddRule_cases [of env r s] assms(1) by simp_all
  have i: "rules_inv (set_rules (Rules (s_cfg s) @ [added env r]) (s_cfg s))"
    using inv assms(5,6) ok short_token_nonempty
    by (intro rules_inv_add [where r = r]) (simp_all add: server_inv_def)
  then have "no_swap (Rules (s_cfg s)) (Rules (s_cfg s) @ [added env r])"
    by (intro no_swap_add) (simp add: rules_inv_def)
  with AddRule_commits [OF assms(1)] inv i assms(3,4) show ?thesis by (blast intro: committed_listening)
qed

lemma update_listening:
  assumes "committed env (with_cfg (set_rules ((Rules (s_cfg s))[i := x])) s) s'" and inv: "server_inv s"
    and "i < length (Rules (s_cfg s))" and "ID x = ID (Rules (s_cfg s) ! i)"
    and "rule_ok x (Clients (s_cfg s))" and "other_ports i x (Rules (s_cfg s))"
    and "go_order (e_ord env)" and "exclusive (e_os env)"
  shows "listening s'"
proof -
  have r: "rules_inv (s_cfg s)" using inv by (simp add: server_inv_def)
  have i: "rules_inv (set_rules ((Rules (s_cfg s))[i := x]) (s_cfg s))"
    using r assms(3-6) by (rule rules_inv_update)
  have "no_swap (Rules (s_cfg s)) ((Rules (s_cfg s))[i := x])"
    using r i assms(3,4) by (intro no_swap_update) (simp_all add: rules_inv_def)
  with assms(1,7,8) inv i show ?thesis by (blast intro: committed_listening)
qed

lemma UpdateRule_listening:
  assumes "UpdateRule env rid nr s = (s', None)" and inv: "server_inv s" and "go_order (e_ord env)"
    and "exclusive (e_os env)"
  shows "listening s'"
proof -
  obtain i where i: "find_index (\<lambda>r. ID r = rid) (Rules (s_cfg s)) = Some i"
    and c: "committed env (with_cfg (set_rules ((Rules (s_cfg s))[i := updated rid (Rules (s_cfg s) ! i) nr])) s) s'"
    using UpdateRule_commits [OF assms(1)] by blast
  show ?thesis
    using UpdateRule_cases [of env rid nr s] assms(1) i find_index_Some [OF i]
    by (intro update_listening [OF c inv _ _ _ _ assms(3,4)]) simp_all
qed

lemma SetRuleEnabled_listening:
  assumes "SetRuleEnabled env rid on s = (s', None)" and inv: "server_inv s" and "go_order (e_ord env)"
    and "exclusive (e_os env)"
  shows "listening s'"
proof -
  obtain i where i: "find_index (\<lambda>r. ID r = rid) (Rules (s_cfg s)) = Some i"
    and c: "committed env (with_cfg (set_rules
               ((Rules (s_cfg s))[i := (Rules (s_cfg s) ! i)\<lparr>Enabled := on\<rparr>])) s) s'"
    using SetRuleEnabled_commits [OF assms(1)] by blast
  note l = find_index_Some [OF i]
  have "other_ports i ((Rules (s_cfg s) ! i)\<lparr>Enabled := on\<rparr>) (Rules (s_cfg s))"
    using inv l by (auto simp: other_ports_def server_inv_def rules_inv_def ports_ok_def)
  then show ?thesis
    using inv l by (intro update_listening [OF c inv _ _ _ _ assms(3,4)])
      (simp_all add: server_inv_def rules_inv_def)
qed

text \<open>A listener that is not restarted keeps the rule it was started with.\<close>

lemma UpdateRule_keeps_listener:
  assumes "UpdateRule env rid nr s = (s', None)" and inv: "server_inv s" and "go_order (e_ord env)"
    and rn: "lookup (s_runners s) rid = Some rn"
    and same: "Proto nr = rn_proto rn" "Listen nr = rn_listen rn" "Target nr = rn_target rn"
    "Client nr = rn_client rn" "SideOf nr = ''server''"
  shows "lookup (s_runners s') rid = Some rn"
proof -
  obtain i where i: "find_index (\<lambda>r. ID r = rid) (Rules (s_cfg s)) = Some i"
    and c: "committed env (with_cfg (set_rules ((Rules (s_cfg s))[i := updated rid (Rules (s_cfg s) ! i) nr])) s) s'"
    using UpdateRule_commits [OF assms(1)] by blast
  let ?x = "updated rid (Rules (s_cfg s) ! i) nr"
  let ?rs = "(Rules (s_cfg s))[i := ?x]"
  note l = find_index_Some [OF i]
  have r: "rules_inv (s_cfg s)" and rinv: "runners_inv s" using inv by (simp_all add: server_inv_def)
  obtain q where q: "q \<in> set (Rules (s_cfg s))" "ID q = rid" "wanted q"
    using rinv rn unfolding runners_inv_def by blast
  have "distinct (map ID (Rules (s_cfg s)))" using r by (simp add: rules_inv_def ids_ok_def)
  then have "q = Rules (s_cfg s) ! i"
    using q(1,2) l by (metis distinct_map inj_onD nth_mem)
  then have "wanted ?x" using q(3) same(5) by (simp add: wanted_def updated_def)
  moreover have "distinct (map ID ?rs)"
    using r l ids_ok_update [of "Rules (s_cfg s)" i ?x] by (simp add: rules_inv_def ids_ok_def)
  moreover have "?x \<in> set ?rs" using l by (intro set_update_memI) simp
  ultimately have "lookup (desired_rules ?rs) rid = Some ?x"
    by (intro lookup_desired [THEN iffD2]) simp_all
  moreover have "sameAs rn ?x" using same by (simp add: sameAs_def updated_def)
  moreover have "s_runners s' = fst (applyRulesLocked (e_os env) (e_ord env) (e_now env) ?rs (s_runners s, s_notifier s))"
    using committed_facts(6) [OF c] by (simp add: runners_after_def)
  ultimately show ?thesis
    using apply_keeps [OF assms(3), of ?rs rid ?x "(s_runners s, s_notifier s)" rn] rn by simp
qed

section \<open>Pushes\<close>

lemma told_append:
  assumes "distinct (keys ps)" and "(k, v) \<in> set ps"
  shows "lookup (rev (old @ ps)) k = Some v"
proof -
  have "distinct (keys (rev ps))" using assms(1) by (simp add: rev_map [symmetric])
  then have "lookup (rev ps) k = Some v" using assms(2) by (intro in_lookup_Some) simp_all
  then show ?thesis by simp
qed

lemma pushes_told:
  assumes "distinct (map cn_Session ccs)" and "cc \<in> set ccs" and "cn_cs cc"
    and "e_written env (cn_Session cc) (reverse_rules rs (cn_Name cc))"
  shows "lookup (rev (old @ pushes_of env rs ccs)) (cn_Session cc) = Some (reverse_rules rs (cn_Name cc))"
proof (rule told_append)
  show "distinct (keys (pushes_of env rs ccs))"
    using assms(1) by (simp add: pushes_of_def comp_def distinct_map_filter)
  show "(cn_Session cc, reverse_rules rs (cn_Name cc)) \<in> set (pushes_of env rs ccs)"
    using assms(2-4) by (auto simp: pushes_of_def)
qed

definition sessions_ok :: "server \<Rightarrow> bool" where
  "sessions_ok s \<longleftrightarrow> distinct (map (\<lambda>(n, cc). cn_Session cc) (s_clients s))"

text \<open>Every client that can be told has been told what is now its share of the rules.\<close>

definition all_told :: "env \<Rightarrow> server \<Rightarrow> bool" where
  "all_told env s \<longleftrightarrow> (\<forall>(n, cc) \<in> set (s_clients s).
     cn_cs cc \<longrightarrow> e_written env (cn_Session cc) (reverse_rules (Rules (s_cfg s)) (cn_Name cc)) \<longrightarrow>
       told s (cn_Session cc) = Some (reverse_rules (Rules (s_cfg s)) (cn_Name cc)))"

lemma broadcast_tells:
  assumes "sessions_ok s" and "s_clients s' = s_clients s"
    and "s_pushes s' = s_pushes s @ pushes_of env (Rules (s_cfg s')) (map snd (s_clients s))"
  shows "all_told env s'"
  unfolding all_told_def
proof (rule ballI, rule case_prodI2, intro impI)
  fix p n cc
  assume "p \<in> set (s_clients s')" "p = (n, cc)" and c: "cn_cs cc"
    "e_written env (cn_Session cc) (reverse_rules (Rules (s_cfg s')) (cn_Name cc))"
  then have cc: "cc \<in> set (map snd (s_clients s))" using assms(2) by force
  have "distinct (map cn_Session (map snd (s_clients s)))"
    using assms(1) by (simp add: sessions_ok_def comp_def case_prod_unfold)
  from pushes_told [OF this cc c, of "s_pushes s"] show
    "told s' (cn_Session cc) = Some (reverse_rules (Rules (s_cfg s')) (cn_Name cc))"
    by (simp add: told_def assms(3))
qed

lemma committed_tells:
  assumes "committed env (with_cfg f s) s'" and "sessions_ok s"
  shows "all_told env s'"
  using committed_facts [OF assms(1)] assms(2) by (intro broadcast_tells) simp_all

lemma ImportConfig_tells:
  assumes "ImportConfig env inc s = (s', None)" and "sessions_ok s"
  shows "all_told env s'"
  using ImportConfig_effect [OF assms(1)] assms(2)
  by (intro broadcast_tells) (simp_all add: import_fields_def)

end
