(* ===== verification/Visitors.thy ===== *)
theory Visitors
  imports Clock Proxy
begin

text \<open>
  The visitor table of the UDP relays that share one tunnel stream: \<open>udpTunnelRelay\<close> of
  \<open>server/forward.go\<close> and \<open>udpRelay\<close> of \<open>client/reverse.go\<close>. Both map the address of a visitor to a
  connection id, drop new visitors above the rule's limit and sweep idle entries every 64 packets.
  The locale \<open>visitor_table\<close> is their contract; its lemmas say that ids are never shared, so that a
  reply goes to the visitor whose packet it answers.
\<close>

definition udpIdle :: int where
  "udpIdle = 90 * Second"

definition udpIdleTimeout :: int where
  "udpIdleTimeout = 90 * Second"

text \<open>A \<open>*net.UDPAddr\<close> has the fields of a \<open>*net.TCPAddr\<close>; \<open>udp_key\<close> is its \<open>String\<close>.\<close>

type_synonym udp_addr = tcp_addr

definition udp_key :: "udp_addr \<Rightarrow> string" where
  "udp_key a = JoinHostPort (if IP a = [] then [] else IPString (IP a)) (Itoa (Port a))"

text \<open>\<open>udpIP\<close>, the same in both packages.\<close>

definition udpIP :: "udp_addr \<Rightarrow> addr" where
  "udpIP a = Unmap (AddrFromSlice (IP a))"

record ventry =
  ve_id :: "32 word"
  ve_addr :: udp_addr
  ve_seen :: int

record vtable =
  vt_visitors :: "ventry gomap"
  vt_next :: "32 word"
  vt_packets :: nat

definition idle_out :: "int \<Rightarrow> int \<Rightarrow> ventry \<Rightarrow> bool" where
  "idle_out timeout now e \<longleftrightarrow> time_sub now (ve_seen e) > timeout"

definition sweep_visitors :: "int \<Rightarrow> int \<Rightarrow> ventry gomap \<Rightarrow> ventry gomap" where
  "sweep_visitors timeout now vs = filter (\<lambda>(k, e). \<not> idle_out timeout now e) vs"

text \<open>The search of the reply goroutine: the visitor with the packet's connection id.\<close>

definition visitor_of :: "32 word \<Rightarrow> ventry gomap \<Rightarrow> udp_addr option" where
  "visitor_of i vs = map_option (\<lambda>(k, v). ve_addr v) (List.find (\<lambda>(k, v). ve_id v = i) vs)"

lemma udpIdle_bounds: "0 < udpIdle" "udpIdle < 2 ^ 63 - 1" "0 < udpIdleTimeout" "udpIdleTimeout < 2 ^ 63 - 1"
  by (simp_all add: udpIdle_def udpIdleTimeout_def Second_def)

lemma lookup_map_filter:
  assumes "distinct (keys m)"
  shows "lookup (filter (\<lambda>(k, e). P e) m) k
    = (case lookup m k of None \<Rightarrow> None | Some e \<Rightarrow> if P e then Some e else None)"
  using assms
proof (induction m)
  case Nil
  then show ?case by simp
next
  case (Cons x m)
  obtain a b where x: "x = (a, b)" by fastforce
  have "lookup m a = None" using Cons.prems x by (simp add: map_of_eq_None_iff)
  with Cons x show ?case by (auto split: option.splits)
qed

lemma lookup_sweep_visitors:
  assumes "distinct (keys vs)" and "0 < timeout" and "timeout < 2 ^ 63 - 1"
  shows "lookup (sweep_visitors timeout now vs) k =
    (case lookup vs k of None \<Rightarrow> None
     | Some e \<Rightarrow> if now - ve_seen e > timeout then None else Some e)"
  using assms unfolding sweep_visitors_def
  by (subst lookup_map_filter) (auto simp: idle_out_def time_sub_greater split: option.splits)

lemma keys_sweep_visitors: "distinct (keys vs) \<Longrightarrow> distinct (keys (sweep_visitors timeout now vs))"
  by (simp add: sweep_visitors_def distinct_map_filter)

lemma length_sweep_visitors: "length (sweep_visitors timeout now vs) \<le> length vs"
  by (simp add: sweep_visitors_def)

lemma less_succ_word: "(w :: 32 word) \<noteq> - 1 \<Longrightarrow> w < w + 1"
  using inc_less_eq_self_iff_eq [of w] by (simp flip: not_le)

lemma last_id_room: "unat (w :: 32 word) \<le> n \<Longrightarrow> n < 2 ^ 32 - 1 \<Longrightarrow> w \<noteq> - 1"
proof
  assume "unat w \<le> n" "n < 2 ^ 32 - 1" "w = - 1"
  moreover have "unat (- 1 :: 32 word) = 2 ^ 32 - 1"
    by (simp add: unsigned_minus_1_eq_mask mask_eq_exp_minus_1)
  ultimately show False by simp
qed

section \<open>The contract\<close>

text \<open>\<open>packet cap now src t\<close> returns the id to forward the packet under, or \<open>None\<close> to drop it.\<close>

locale visitor_table =
  fixes packet :: "int \<Rightarrow> int \<Rightarrow> udp_addr \<Rightarrow> 's \<Rightarrow> 's \<times> 32 word option"
    and vis :: "'s \<Rightarrow> ventry gomap"
    and last_id :: "'s \<Rightarrow> 32 word"
    and timeout :: int
  assumes drops: "packet cap now src t = (t', None) \<Longrightarrow>
      t' = t \<and> lookup (vis t) (udp_key src) = None \<and> 0 < cap \<and> cap \<le> int (length (vis t))"
    and known: "packet cap now src t = (t', Some i) \<Longrightarrow> lookup (vis t) (udp_key src) = Some e \<Longrightarrow>
      i = ve_id e \<and> last_id t' = last_id t"
    and fresh: "packet cap now src t = (t', Some i) \<Longrightarrow> lookup (vis t) (udp_key src) = None \<Longrightarrow>
      i = last_id t + 1 \<and> last_id t' = i \<and> (0 < cap \<longrightarrow> int (length (vis t)) < cap)"
    and keys_kept: "packet cap now src t = (t', r) \<Longrightarrow> distinct (keys (vis t)) \<Longrightarrow> distinct (keys (vis t'))"
    and self: "packet cap now src t = (t', Some i) \<Longrightarrow> distinct (keys (vis t)) \<Longrightarrow>
      lookup (vis t') (udp_key src) = Some \<lparr>ve_id = i,
        ve_addr = (case lookup (vis t) (udp_key src) of None \<Rightarrow> src | Some e \<Rightarrow> ve_addr e), ve_seen = now\<rparr>"
    and others: "packet cap now src t = (t', Some i) \<Longrightarrow> distinct (keys (vis t)) \<Longrightarrow> k \<noteq> udp_key src \<Longrightarrow>
      lookup (vis t') k = lookup (vis t) k
      \<or> (lookup (vis t') k = None \<and> (\<exists>e. lookup (vis t) k = Some e \<and> now - ve_seen e > timeout))"
    and size: "packet cap now src t = (t', Some i) \<Longrightarrow> distinct (keys (vis t)) \<Longrightarrow>
      length (vis t') \<le> (if lookup (vis t) (udp_key src) = None then Suc (length (vis t)) else length (vis t))"
begin

text \<open>Well-formed tables: the address of an entry has the entry's key, ids are below the counter
  and no two entries share one.\<close>

definition table_ok :: "'s \<Rightarrow> bool" where
  "table_ok t \<longleftrightarrow> distinct (keys (vis t))
     \<and> (\<forall>k e. lookup (vis t) k = Some e \<longrightarrow> udp_key (ve_addr e) = k \<and> ve_id e \<le> last_id t)
     \<and> (\<forall>k l e f. lookup (vis t) k = Some e \<longrightarrow> lookup (vis t) l = Some f \<longrightarrow> ve_id e = ve_id f \<longrightarrow> k = l)"

definition within_cap :: "int \<Rightarrow> 's \<Rightarrow> bool" where
  "within_cap cap t \<longleftrightarrow> (0 < cap \<longrightarrow> int (length (vis t)) \<le> cap)"

lemma packet_cap: "packet cap now src t = (t', r) \<Longrightarrow> distinct (keys (vis t)) \<Longrightarrow> within_cap cap t \<Longrightarrow> within_cap cap t'"
proof (cases r)
  case None
  assume "packet cap now src t = (t', r)" "within_cap cap t"
  with None drops show ?thesis by blast
next
  case (Some i)
  assume p: "packet cap now src t = (t', r)" and d: "distinct (keys (vis t))" and c: "within_cap cap t"
  from p Some have p': "packet cap now src t = (t', Some i)" by simp
  show ?thesis
  proof (cases "lookup (vis t) (udp_key src)")
    case None
    from fresh [OF p' this] size [OF p' d] None show ?thesis by (auto simp: within_cap_def)
  next
    case (Some e)
    with size [OF p' d] c show ?thesis by (auto simp: within_cap_def)
  qed
qed

lemma packet_table_ok:
  assumes ok: "table_ok t" and p: "packet cap now src t = (t', r)"
    and room: "last_id t \<noteq> - 1"
  shows "table_ok t'"
proof (cases r)
  case None
  with assms drops show ?thesis by blast
next
  case (Some i)
  from p Some have p': "packet cap now src t = (t', Some i)" by simp
  let ?k = "udp_key src"
  have d: "distinct (keys (vis t))" using ok by (simp add: table_ok_def)
  have old: "lookup (vis t) k = Some e" if "lookup (vis t') k = Some e" "k \<noteq> ?k" for k e
    using others [OF p' d that(2)] that by auto
  have ids: "udp_key (ve_addr e) = k \<and> ve_id e \<le> last_id t" if "lookup (vis t) k = Some e" for k e
    using ok that unfolding table_ok_def by blast
  note me = self [OF p' d]
  have lt: "last_id t < last_id t + 1"
    using room by (rule less_succ_word)
  show ?thesis
  proof (cases "lookup (vis t) ?k")
    case (Some e0)
    from known [OF p' this] have i: "i = ve_id e0" "last_id t' = last_id t" by auto
    have me': "lookup (vis t') ?k = Some \<lparr>ve_id = ve_id e0, ve_addr = ve_addr e0, ve_seen = now\<rparr>"
      using me Some i by simp
    have prev: "\<exists>e1. lookup (vis t) k = Some e1 \<and> ve_id e1 = ve_id e \<and> ve_addr e1 = ve_addr e"
      if "lookup (vis t') k = Some e" for k e
      using that old [of k e] me' Some by (cases "k = ?k") auto
    have "ve_id e = ve_id f \<longrightarrow> k = l" if "lookup (vis t') k = Some e" "lookup (vis t') l = Some f" for k l e f
      using prev [OF that(1)] prev [OF that(2)] ok unfolding table_ok_def by metis
    moreover have "udp_key (ve_addr e) = k \<and> ve_id e \<le> last_id t'" if "lookup (vis t') k = Some e" for k e
      using prev [OF that] ids i(2) by metis
    ultimately show ?thesis using keys_kept [OF p' d] unfolding table_ok_def by blast
  next
    case None
    from fresh [OF p' this] have i: "i = last_id t + 1" "last_id t' = i" by auto
    have me': "lookup (vis t') ?k = Some \<lparr>ve_id = i, ve_addr = src, ve_seen = now\<rparr>"
      using me None by simp
    have low: "ve_id e < i" if "lookup (vis t') k = Some e" "k \<noteq> ?k" for k e
      using ids [OF old [OF that]] lt i(1) by auto
    have "ve_id e = ve_id f \<longrightarrow> k = l" if "lookup (vis t') k = Some e" "lookup (vis t') l = Some f" for k l e f
    proof (cases "k = ?k \<or> l = ?k")
      case True
      with that low me' show ?thesis by (metis option.inject order_less_irrefl ventry.select_convs(1))
    next
      case False
      with old that ok show ?thesis unfolding table_ok_def by blast
    qed
    moreover have "udp_key (ve_addr e) = k \<and> ve_id e \<le> last_id t'" if "lookup (vis t') k = Some e" for k e
    proof (cases "k = ?k")
      case True
      with that me' i show ?thesis by auto
    next
      case False
      with ids [OF old [OF that]] low that i show ?thesis by (metis order_less_imp_le)
    qed
    ultimately show ?thesis using keys_kept [OF p' d] unfolding table_ok_def by blast
  qed
qed

text \<open>A reply that carries the id of an entry is delivered to that entry's visitor and no other.\<close>

lemma reply_reaches:
  assumes ok: "table_ok t" and e: "lookup (vis t) k = Some e"
  shows "visitor_of (ve_id e) (vis t) = Some (ve_addr e)"
proof -
  have d: "distinct (keys (vis t))" using ok by (simp add: table_ok_def)
  have mem: "(k, e) \<in> set (vis t)" by (rule lookup_Some_in [OF e])
  have "List.find (\<lambda>(k, v). ve_id v = ve_id e) (vis t) \<noteq> None"
    using mem unfolding find_None_iff by auto
  then obtain p where p: "List.find (\<lambda>(k, v). ve_id v = ve_id e) (vis t) = Some p" by blast
  obtain l f where lf: "p = (l, f)" by fastforce
  from p lf have "(l, f) \<in> set (vis t)" "ve_id f = ve_id e"
    by (auto simp: find_Some_iff in_set_conv_nth)
  then have "lookup (vis t) l = Some f" using d by (intro in_lookup_Some)
  then have "l = k" using ok e \<open>ve_id f = ve_id e\<close> unfolding table_ok_def by blast
  with \<open>lookup (vis t) l = Some f\<close> e p lf show ?thesis by (simp add: visitor_of_def)
qed

text \<open>The reply to a forwarded packet goes back to its sender.\<close>

lemma reply_to_sender:
  assumes "table_ok t" and p: "packet cap now src t = (t', Some i)" and "last_id t \<noteq> - 1"
  shows "\<exists>a. visitor_of i (vis t') = Some a \<and> udp_key a = udp_key src"
proof -
  have ok: "table_ok t'" using packet_table_ok [OF assms(1) p assms(3)] .
  have "distinct (keys (vis t))" using assms(1) by (simp add: table_ok_def)
  from self [OF p this] obtain e where e: "lookup (vis t') (udp_key src) = Some e" "ve_id e = i" by auto
  from reply_reaches [OF ok e(1)] e ok show ?thesis unfolding table_ok_def by auto
qed

text \<open>The counter moves by at most one a packet, so fewer than 2^32 packets never exhaust the ids.\<close>

lemma packet_counted:
  assumes ok: "table_ok t" and p: "packet cap now src t = (t', r)"
    and n: "unat (last_id t) \<le> n" "n < 2 ^ 32 - 1"
  shows "table_ok t' \<and> unat (last_id t') \<le> Suc n"
proof -
  have "last_id t \<noteq> - 1" using n by (rule last_id_room)
  note ok' = packet_table_ok [OF ok p this]
  have "unat (last_id t') \<le> Suc n"
  proof (cases r)
    case None
    with p drops n show ?thesis by fastforce
  next
    case (Some i)
    with p have p': "packet cap now src t = (t', Some i)" by simp
    show ?thesis
    proof (cases "lookup (vis t) (udp_key src)")
      case None
      with fresh [OF p'] have "last_id t' = last_id t + 1" by simp
      moreover have "unat (last_id t + 1) \<le> Suc (unat (last_id t))"
        by (simp add: unat_word_ariths)
      ultimately show ?thesis using n by simp
    next
      case (Some e)
      with known [OF p'] n show ?thesis by simp
    qed
  qed
  with ok' show ?thesis by blast
qed

text \<open>A full table of strangers drops the packet and stays as it is, whatever the time.\<close>

lemma full_table_drops:
  assumes "lookup (vis t) (udp_key src) = None" and "0 < cap" and "cap \<le> int (length (vis t))"
  shows "packet cap now src t = (t, None)"
proof -
  obtain t' r where p: "packet cap now src t = (t', r)" by fastforce
  show ?thesis
  proof (cases r)
    case None
    with p drops show ?thesis by simp
  next
    case (Some i)
    with p fresh [of cap now src t t' i] assms show ?thesis by simp
  qed
qed

end

end
