(* ===== verification/Forward.thy ===== *)
theory Forward
  imports ServerLive Visitors
begin

text \<open>
  The data paths of the server (\<open>server/forward.go\<close>): who may connect to a rule's listener and how
  that decision follows changes of the blacklist, the admission of TCP connections, the choice of
  the backend with its PROXY header or stream header, and the two UDP relays. Sockets and streams
  are numbers; what the network does is an argument of each step.
\<close>

section \<open>Listeners and their access lists\<close>

text \<open>A list that does not compile counts as no list.\<close>

definition compile_list :: "string list \<Rightarrow> acl" where
  "compile_list es = (case NewACL es of Inl e \<Rightarrow> None | Inr a \<Rightarrow> a)"

record listener =
  ls_acl :: acl
  ls_bl :: acl
  ls_blVer :: "64 word"

definition start_listener :: "server \<Rightarrow> rule \<Rightarrow> listener" where
  "start_listener s r =
     \<lparr>ls_acl = compile_list (AllowFrom r), ls_bl = compile_list (IPBlacklist (s_cfg s)), ls_blVer = s_blVer s\<rparr>"

text \<open>The check for a changed blacklist that every listener loop makes.\<close>

definition refresh_bl :: "server \<Rightarrow> listener \<Rightarrow> listener" where
  "refresh_bl s l =
     (if s_blVer s \<noteq> ls_blVer l
      then l\<lparr>ls_bl := compile_list (IPBlacklist (s_cfg s)), ls_blVer := s_blVer s\<rparr>
      else l)"

definition visitor_ip :: "string \<Rightarrow> addr option" where
  "visitor_ip remote =
     (case ParseAddrPort remote of
        Some (a, n) \<Rightarrow> Some a
      | None \<Rightarrow> map_option Unmap (ParseAddr remote))"

definition visitorAllowed :: "string \<Rightarrow> acl \<Rightarrow> acl \<Rightarrow> bool" where
  "visitorAllowed remote acl bl =
     (case visitor_ip remote of
        None \<Rightarrow> False
      | Some ip \<Rightarrow>
          if bl \<noteq> None \<and> Allows bl ip \<and> \<not> IsLoopback ip then False
          else if \<not> Allows acl ip then False
          else True)"

text \<open>One turn of \<open>acceptTCP\<close>: the listener afterwards and whether \<open>handleTCP\<close> is started.\<close>

definition accept_one :: "server \<Rightarrow> string \<Rightarrow> listener \<Rightarrow> listener \<times> bool" where
  "accept_one s remote l =
     (let l1 = refresh_bl s l in (l1, visitorAllowed remote (ls_acl l1) (ls_bl l1)))"

text \<open>What a list of entries means: it has entries, all are well formed, and one matches.\<close>

definition listed :: "string list \<Rightarrow> addr \<Rightarrow> bool" where
  "listed es ip \<longleftrightarrow> es \<noteq> [] \<and> (\<forall>e \<in> set es. entry_ok e) \<and> (\<exists>e \<in> set es. entry_matches e ip)"

definition unrestricted :: "string list \<Rightarrow> bool" where
  "unrestricted es \<longleftrightarrow> es = [] \<or> (\<exists>e \<in> set es. \<not> entry_ok e)"

lemma compile_list_None_iff: "compile_list es = None \<longleftrightarrow> unrestricted es"
  using NewACL_Inl_iff [of es] NewACL_nil_iff [of es]
  by (cases "NewACL es") (auto simp: compile_list_def unrestricted_def)

lemma compile_list_Allows: "Allows (compile_list es) ip \<longleftrightarrow> unrestricted es \<or> listed es ip"
proof (cases "NewACL es")
  case (Inl e)
  then have "unrestricted es" using NewACL_Inl_iff [of es] by (auto simp: unrestricted_def)
  with Inl show ?thesis by (simp add: compile_list_def)
next
  case (Inr a)
  have "\<forall>e \<in> set es. entry_ok e" using NewACL_ok_iff [of es] Inr by blast
  with NewACL_Allows [OF Inr, of ip] Inr show ?thesis
    by (auto simp: compile_list_def unrestricted_def listed_def)
qed

lemma compile_list_hits: "compile_list es \<noteq> None \<and> Allows (compile_list es) ip \<longleftrightarrow> listed es ip"
  using compile_list_None_iff [of es] compile_list_Allows [of es ip]
  by (auto simp: unrestricted_def listed_def)

lemma visitorAllowed_iff:
  "visitorAllowed remote (compile_list allow) (compile_list bl) \<longleftrightarrow>
     (\<exists>ip. visitor_ip remote = Some ip \<and> (listed bl ip \<longrightarrow> IsLoopback ip)
         \<and> (unrestricted allow \<or> listed allow ip))"
proof (cases "visitor_ip remote")
  case None
  then show ?thesis by (simp add: visitorAllowed_def)
next
  case (Some ip)
  have "visitorAllowed remote (compile_list allow) (compile_list bl) \<longleftrightarrow>
      \<not> ((compile_list bl \<noteq> None \<and> Allows (compile_list bl) ip) \<and> \<not> IsLoopback ip)
      \<and> Allows (compile_list allow) ip"
    by (simp add: visitorAllowed_def Some)
  also have "\<dots> \<longleftrightarrow> \<not> (listed bl ip \<and> \<not> IsLoopback ip) \<and> (unrestricted allow \<or> listed allow ip)"
    using compile_list_hits [of bl ip] compile_list_Allows [of allow ip] by blast
  finally have v: "visitorAllowed remote (compile_list allow) (compile_list bl) \<longleftrightarrow>
      \<not> (listed bl ip \<and> \<not> IsLoopback ip) \<and> (unrestricted allow \<or> listed allow ip)" .
  show ?thesis unfolding v Some by simp
qed

text \<open>A listener is in step with the server when its version says so only if its list is current.\<close>

definition in_step :: "server \<Rightarrow> listener \<Rightarrow> bool" where
  "in_step s l \<longleftrightarrow> (ls_blVer l = s_blVer s \<longrightarrow> ls_bl l = compile_list (IPBlacklist (s_cfg s)))"

lemma refresh_current: "in_step s l \<Longrightarrow> ls_bl (refresh_bl s l) = compile_list (IPBlacklist (s_cfg s))"
  by (simp add: refresh_bl_def in_step_def)

lemma refresh_acl [simp]: "ls_acl (refresh_bl s l) = ls_acl l"
  by (simp add: refresh_bl_def)

lemma start_in_step: "in_step s (start_listener s r)"
  by (simp add: in_step_def start_listener_def)

lemma refresh_in_step: "in_step s l \<Longrightarrow> in_step s (refresh_bl s l)"
  by (simp add: refresh_bl_def in_step_def)

lemma accept_one_current:
  assumes "in_step s l" and "ls_acl l = compile_list (AllowFrom r)"
  shows "snd (accept_one s remote l) \<longleftrightarrow>
     (\<exists>ip. visitor_ip remote = Some ip \<and> (listed (IPBlacklist (s_cfg s)) ip \<longrightarrow> IsLoopback ip)
         \<and> (unrestricted (AllowFrom r) \<or> listed (AllowFrom r) ip))"
  by (simp only: accept_one_def Let_def snd_conv refresh_acl refresh_current [OF assms(1)] assms(2)
      visitorAllowed_iff)

lemma SetIPBlacklist_in_step:
  assumes "SetIPBlacklist env es s = (s', None)" and "ls_blVer l \<noteq> s_blVer s + 1"
  shows "in_step s' l"
proof -
  from SetIPBlacklist_commits [OF assms(1)] obtain s2 where
    sv: "save_cfg env (with_cfg (\<lambda>c. c\<lparr>IPBlacklist := es\<rparr>) s) = (s2, None)"
    and s': "s' = s2\<lparr>s_blVer := s_blVer s2 + 1\<rparr>" by blast
  have "s_blVer s2 = s_blVer s" using save_cfg_fields(8) [OF sv] by simp
  then show ?thesis using assms(2) s' by (simp add: in_step_def)
qed

lemma ImportConfig_stale:
  assumes "ImportConfig env inc s = (s', None)" and "ls_blVer l = s_blVer s"
  shows "refresh_bl s' l = l"
  using ImportConfig_effect(5) [OF assms(1)] assms(2) by (simp add: refresh_bl_def)

section \<open>TCP connections\<close>

definition upd_stat :: "string \<Rightarrow> (stat \<Rightarrow> stat) \<Rightarrow> server \<Rightarrow> server" where
  "upd_stat rid f s = s\<lparr>s_stats := put rid (f (stat_of s rid)) (s_stats s)\<rparr>"

definition proxyHeaderFor :: "int \<Rightarrow> tcp_addr \<Rightarrow> tcp_addr \<Rightarrow> bytes option" where
  "proxyHeaderFor version src dst = (case ProxyHeader version src dst of Inl e \<Rightarrow> None | Inr b \<Rightarrow> Some b)"

record visitor =
  vc_remote :: string
  vc_local :: string
  vc_src :: tcp_addr
  vc_dst :: tcp_addr

text \<open>How \<open>handleTCP\<close> ends: before the relay, or relaying to a connection it dialled after writing
  a header to it, or to a stream of the tunnel.\<close>

datatype tcp_result = OverLimit | NoBackend | HeaderLost | Direct nat "bytes option" | Tunnelled nat stream_header

definition tunnel_header :: "rule \<Rightarrow> visitor \<Rightarrow> stream_header" where
  "tunnel_header r v =
     (let hdr = \<lparr>h_ID = ID r, h_Target = Target r, h_UDP = False, h_Visitor = [], h_DstAddr = [],
                 h_ProxyProto = 0\<rparr>
      in if ProxyProto r > 0
         then hdr\<lparr>h_ProxyProto := ProxyProto r, h_Visitor := vc_remote v, h_DstAddr := vc_local v\<rparr>
         else hdr)"

text \<open>The environment of a data path: dialling, writing to a backend, opening a stream and writing
  its header.\<close>

record net =
  n_dial :: "nat \<Rightarrow> string \<Rightarrow> string + nat"
  n_write :: "nat \<Rightarrow> bytes \<Rightarrow> bool"
  n_open :: "nat \<Rightarrow> string + nat"
  n_header :: "nat \<Rightarrow> stream_header \<Rightarrow> string option"

definition tcp_backend :: "net \<Rightarrow> rule \<Rightarrow> visitor \<Rightarrow> 64 word \<Rightarrow> server \<Rightarrow> tcp_result \<times> 64 word" where
  "tcp_backend net r v rr s =
     (if Client r = [] then
        (case dialBalanced (n_dial net) (Target r) rr of
           (Conn c, rr1) \<Rightarrow>
             (if ProxyProto r > 0 then
                (case proxyHeaderFor (ProxyProto r) (vc_src v) (vc_dst v) of
                   Some hdr \<Rightarrow> if n_write net c hdr then (Direct c (Some hdr), rr1) else (HeaderLost, rr1)
                 | None \<Rightarrow> (Direct c None, rr1))
              else (Direct c None, rr1))
         | (_, rr1) \<Rightarrow> (NoBackend, rr1))
      else
        (case fst (openStreamTo (n_open net) (n_header net) (Client r) (tunnel_header r v) s) of
           Inl e \<Rightarrow> (NoBackend, rr)
         | Inr stream \<Rightarrow> (Tunnelled stream (tunnel_header r v), rr)))"

definition relaying :: "tcp_result \<Rightarrow> bool" where
  "relaying res = (case res of Direct c h \<Rightarrow> True | Tunnelled c h \<Rightarrow> True | _ \<Rightarrow> False)"

text \<open>\<open>handleTCP\<close> up to the relay, undisturbed by other connections, and its end.\<close>

definition handleTCP_start :: "net \<Rightarrow> rule \<Rightarrow> visitor \<Rightarrow> 64 word \<Rightarrow> server \<Rightarrow> server \<times> tcp_result \<times> 64 word" where
  "handleTCP_start net r v rr s =
     (let s1 = upd_stat (ID r) (\<lambda>st. st\<lparr>Conns := Conns st + 1\<rparr>) (statFor (ID r) s) in
      if MaxConns r > 0 \<and> Conns (stat_of s1 (ID r)) > MaxConns r
      then (upd_stat (ID r) (\<lambda>st. st\<lparr>Conns := Conns st - 1\<rparr>) s1, OverLimit, rr)
      else
        (let s2 = upd_stat (ID r) (\<lambda>st. st\<lparr>ConnsTotal := ConnsTotal st + 1\<rparr>) s1;
             (res, rr1) = tcp_backend net r v rr s2
         in (if relaying res then s2 else upd_stat (ID r) (\<lambda>st. st\<lparr>Conns := Conns st - 1\<rparr>) s2, res, rr1)))"

definition handleTCP_end :: "rule \<Rightarrow> int \<Rightarrow> int \<Rightarrow> server \<Rightarrow> server" where
  "handleTCP_end r bin bout s =
     upd_stat (ID r) (\<lambda>st. st\<lparr>BytesIn := BytesIn st + bin, BytesOut := BytesOut st + bout,
                              Conns := Conns st - 1\<rparr>) s"

lemma stat_of_upd [simp]:
  "stat_of (upd_stat rid f s) k = (if k = rid then f (stat_of s rid) else stat_of s k)"
  by (simp add: stat_of_def upd_stat_def)

lemma stat_of_statFor [simp]: "stat_of (statFor rid s) k = stat_of s k"
  by (simp add: stat_of_def statFor_def split: option.split)

lemma handleTCP_start_stats:
  assumes "handleTCP_start net r v rr s = (s', res, rr')"
  shows "Conns (stat_of s' (ID r)) = Conns (stat_of s (ID r)) + (if relaying res then 1 else 0)"
    and "relaying res \<Longrightarrow> 0 < MaxConns r \<Longrightarrow> Conns (stat_of s' (ID r)) \<le> MaxConns r"
    and "k \<noteq> ID r \<Longrightarrow> stat_of s' k = stat_of s k"
proof -
  let ?s1 = "upd_stat (ID r) (\<lambda>st. st\<lparr>Conns := Conns st + 1\<rparr>) (statFor (ID r) s)"
  let ?s2 = "upd_stat (ID r) (\<lambda>st. st\<lparr>ConnsTotal := ConnsTotal st + 1\<rparr>) ?s1"
  have "Conns (stat_of s' (ID r)) = Conns (stat_of s (ID r)) + (if relaying res then 1 else 0)
     \<and> (relaying res \<longrightarrow> 0 < MaxConns r \<longrightarrow> Conns (stat_of s' (ID r)) \<le> MaxConns r)
     \<and> (k \<noteq> ID r \<longrightarrow> stat_of s' k = stat_of s k)"
  proof (cases "MaxConns r > 0 \<and> Conns (stat_of ?s1 (ID r)) > MaxConns r")
    case True
    with assms have "s' = upd_stat (ID r) (\<lambda>st. st\<lparr>Conns := Conns st - 1\<rparr>) ?s1" "res = OverLimit"
      by (simp_all add: handleTCP_start_def Let_def)
    then show ?thesis by (simp add: relaying_def)
  next
    case False
    obtain q z where b: "tcp_backend net r v rr ?s2 = (q, z)" by fastforce
    from assms [unfolded handleTCP_start_def Let_def] have
      "(if relaying q then ?s2 else upd_stat (ID r) (\<lambda>st. st\<lparr>Conns := Conns st - 1\<rparr>) ?s2, q, z) = (s', res, rr')"
      by (simp only: False b if_False prod.case)
    then have "s' = (if relaying res then ?s2 else upd_stat (ID r) (\<lambda>st. st\<lparr>Conns := Conns st - 1\<rparr>) ?s2)"
      by (simp split: if_splits)
    with False show ?thesis by auto
  qed
  then show "Conns (stat_of s' (ID r)) = Conns (stat_of s (ID r)) + (if relaying res then 1 else 0)"
    "relaying res \<Longrightarrow> 0 < MaxConns r \<Longrightarrow> Conns (stat_of s' (ID r)) \<le> MaxConns r"
    "k \<noteq> ID r \<Longrightarrow> stat_of s' k = stat_of s k" by blast+
qed

text \<open>A tunnelled connection reaches the client with the rule's target and, when asked for, the
  visitor's addresses.\<close>

lemma tcp_backend_tunnel:
  "tcp_backend net r v rr s = (Tunnelled st hdr, rr') \<Longrightarrow>
     Client r \<noteq> [] \<and> (\<exists>cc. lookup (s_clients s) (Client r) = Some cc \<and> n_open net (cn_Session cc) = Inr st)
     \<and> h_ID hdr = ID r \<and> h_Target hdr = Target r \<and> \<not> h_UDP hdr
     \<and> (0 < ProxyProto r \<longrightarrow> h_Visitor hdr = vc_remote v \<and> h_ProxyProto hdr = ProxyProto r)"
  by (auto simp: tcp_backend_def openStreamTo_def tunnel_header_def Let_def
      split: if_splits sum.splits option.splits prod.splits dialled.splits)

end
