(* ===== verification/UdpRelay.thy ===== *)
theory UdpRelay
  imports Forward
begin

text \<open>
  The UDP relays of the server: \<open>udpLocalRelay\<close> and \<open>udpTunnelRelay\<close> of \<open>server/forward.go\<close> and the
  far end of a reverse rule, \<open>udpBackendFromStream\<close> of \<open>server/reverse.go\<close>. Each is a state and the
  steps of its goroutines: a packet from a visitor, a reply, the end of a backend. Sockets are
  numbers; the connection counters are the relay's contribution to \<open>Conns\<close>.
\<close>

section \<open>Local forwarding\<close>

record local_relay =
  lr_listener :: listener
  lr_backends :: "nat gomap"
  lr_rr :: "64 word"
  lr_conns :: int
  lr_in :: int
  lr_out :: int

definition denied :: "listener \<Rightarrow> udp_addr \<Rightarrow> bool" where
  "denied l src \<longleftrightarrow>
     \<not> Allows (ls_acl l) (udpIP src) \<or> (ls_bl l \<noteq> None \<and> Allows (ls_bl l) (udpIP src))"

text \<open>\<open>getBackend\<close>: the socket of the visitor, dialled when there is none.\<close>

definition getBackend :: "(nat \<Rightarrow> string \<Rightarrow> string + nat) \<Rightarrow> rule \<Rightarrow> string \<Rightarrow> local_relay \<Rightarrow> local_relay \<times> nat option" where
  "getBackend dial r key t =
     (case lookup (lr_backends t) key of
        Some b \<Rightarrow> (t, Some b)
      | None \<Rightarrow>
          (case DialUDPBalanced (\<lambda>_ a. Inr a) dial (Target r) (lr_rr t) of
             (Conn b, rr) \<Rightarrow> (t\<lparr>lr_rr := rr, lr_backends := put key b (lr_backends t), lr_conns := lr_conns t + 1\<rparr>, Some b)
           | (_, rr) \<Rightarrow> (t\<lparr>lr_rr := rr\<rparr>, None)))"

text \<open>One packet; the result is what was written to which backend.\<close>

definition local_packet ::
  "server \<Rightarrow> (nat \<Rightarrow> string \<Rightarrow> string + nat) \<Rightarrow> (nat \<Rightarrow> bool) \<Rightarrow> rule \<Rightarrow> udp_addr \<Rightarrow> bytes \<Rightarrow> local_relay
     \<Rightarrow> local_relay \<times> (nat \<times> bytes) option" where
  "local_packet s dial wr r src payload t0 =
     (let t = t0\<lparr>lr_listener := refresh_bl s (lr_listener t0)\<rparr>; key = udp_key src in
      if denied (lr_listener t) src then (t, None)
      else if MaxConns r > 0 \<and> int (length (lr_backends t)) \<ge> MaxConns r \<and> lookup (lr_backends t) key = None
      then (t, None)
      else (case getBackend dial r key t of
              (t1, None) \<Rightarrow> (t1, None)
            | (t1, Some b) \<Rightarrow>
                if wr b then (t1\<lparr>lr_in := lr_in t1 + int (length payload)\<rparr>, Some (b, payload))
                else (t1, None)))"

text \<open>The end of the goroutine that reads from a visitor's backend.\<close>

definition local_end :: "string \<Rightarrow> local_relay \<Rightarrow> local_relay" where
  "local_end key t = t\<lparr>lr_backends := del key (lr_backends t), lr_conns := lr_conns t - 1\<rparr>"

inductive local_step :: "rule \<Rightarrow> local_relay \<Rightarrow> local_relay \<Rightarrow> bool" for r where
  packet: "local_packet s dial wr r src payload t = (t', sent) \<Longrightarrow> local_step r t t'"
| reply: "lookup (lr_backends t) key = Some b \<Longrightarrow> local_step r t (t\<lparr>lr_out := lr_out t + n\<rparr>)"
| ended: "lookup (lr_backends t) key = Some b \<Longrightarrow> local_step r t (local_end key t)"

definition local_inv :: "rule \<Rightarrow> local_relay \<Rightarrow> bool" where
  "local_inv r t \<longleftrightarrow> distinct (keys (lr_backends t)) \<and> lr_conns t = int (length (lr_backends t))
     \<and> (0 < MaxConns r \<longrightarrow> int (length (lr_backends t)) \<le> MaxConns r)"

lemma getBackend_cases:
  assumes "getBackend dial r key t = (t', res)"
  shows "(res \<noteq> None \<and> t' = t) \<or> (lr_backends t' = lr_backends t \<and> lr_conns t' = lr_conns t \<and> res = None)
     \<or> (lookup (lr_backends t) key = None \<and> (\<exists>b. res = Some b \<and> lr_backends t' = put key b (lr_backends t))
        \<and> lr_conns t' = lr_conns t + 1)"
  using assms
  by (cases "lookup (lr_backends t) key")
     (auto simp: getBackend_def split: prod.splits dialled.splits)

lemma local_packet_inv:
  assumes "local_packet s dial wr r src payload t = (t', sent)" and "local_inv r t"
  shows "local_inv r t'"
proof -
  let ?t = "t\<lparr>lr_listener := refresh_bl s (lr_listener t)\<rparr>"
  let ?key = "udp_key src"
  have inv: "local_inv r ?t" using assms(2) by (simp add: local_inv_def)
  show ?thesis
  proof (cases "denied (lr_listener ?t) src
      \<or> (MaxConns r > 0 \<and> int (length (lr_backends ?t)) \<ge> MaxConns r \<and> lookup (lr_backends ?t) ?key = None)")
    case True
    with assms(1) have "t' = ?t"
      by (cases "denied (lr_listener ?t) src") (simp_all add: local_packet_def Let_def)
    with inv show ?thesis by simp
  next
    case False
    obtain t1 res where g: "getBackend dial r ?key ?t = (t1, res)" by fastforce
    have "lr_backends t' = lr_backends t1 \<and> lr_conns t' = lr_conns t1"
      using assms(1) False g by (auto simp: local_packet_def Let_def split: option.splits if_splits)
    moreover have "local_inv r t1"
      using getBackend_cases [OF g] inv False
      by (auto simp: local_inv_def length_put_new)
    ultimately show ?thesis by (simp add: local_inv_def)
  qed
qed

lemma length_del_old: "distinct (keys m) \<Longrightarrow> lookup m k = Some v \<Longrightarrow> Suc (length (del k m)) = length m"
proof (induction m)
  case Nil
  then show ?case by simp
next
  case (Cons x m)
  obtain a b where x: "x = (a, b)" by fastforce
  have "del k m = m" if "k \<notin> set (keys m)" for k using that by (simp add: AList.delete_id)
  with Cons x show ?case by (cases "a = k") auto
qed

lemma local_step_inv: "local_step r t t' \<Longrightarrow> local_inv r t \<Longrightarrow> local_inv r t'"
proof (induction rule: local_step.induct)
  case (packet s dial wr src payload t t' sent)
  then show ?case by (rule local_packet_inv)
next
  case (reply t key b n)
  then show ?case by (simp add: local_inv_def)
next
  case (ended t key b)
  then show ?case
    using length_del_old [of "lr_backends t" key b]
    by (auto simp: local_inv_def local_end_def distinct_keys_del)
qed

definition local_start :: "server \<Rightarrow> rule \<Rightarrow> local_relay" where
  "local_start s r =
     \<lparr>lr_listener = start_listener s r, lr_backends = [], lr_rr = 0, lr_conns = 0, lr_in = 0, lr_out = 0\<rparr>"

lemma local_reach_inv: "(local_step r)\<^sup>*\<^sup>* (local_start s r) t \<Longrightarrow> local_inv r t"
proof (induction rule: rtranclp_induct)
  case base
  show ?case by (simp add: local_inv_def local_start_def)
next
  case (step t t')
  then show ?case by (blast intro: local_step_inv)
qed

text \<open>The end of the relay: its socket is closed, the goroutine that waited for it closes every backend,
  and each reader then takes its visitor out. All connections are given back.\<close>

definition local_stop :: "local_relay \<Rightarrow> local_relay" where
  "local_stop t = foldl (\<lambda>t key. local_end key t) t (keys (lr_backends t))"

lemma local_stop_gives_back:
  assumes "local_inv r t"
  shows "lr_conns (local_stop t) = 0 \<and> lookup (lr_backends (local_stop t)) = Map.empty"
proof -
  have "lr_conns (foldl (\<lambda>t key. local_end key t) t ks) = lr_conns t - int (length ks)
     \<and> lookup (lr_backends (foldl (\<lambda>t key. local_end key t) t ks)) = (lookup (lr_backends t)) |` (- set ks)" for ks t
    by (induction ks arbitrary: t) (auto simp: local_end_def restrict_map_def fun_eq_iff)
  moreover have "lookup (lr_backends t) |` (- set (keys (lr_backends t))) = Map.empty"
    by (auto simp: restrict_map_def fun_eq_iff map_of_eq_None_iff)
  ultimately show ?thesis using assms by (simp add: local_stop_def local_inv_def)
qed

section \<open>Through the tunnel\<close>

record tun_relay = vtable +
  tr_conns :: int
  tr_listener :: listener
  tr_stream :: "nat option"
  tr_in :: int
  tr_out :: int

text \<open>The part of the loop under the lock: look up or admit the visitor, stamp it, sweep.\<close>

definition tunnel_admit :: "int \<Rightarrow> int \<Rightarrow> udp_addr \<Rightarrow> tun_relay \<Rightarrow> tun_relay \<times> 32 word option" where
  "tunnel_admit cap now src t =
     (let key = udp_key src in
      case (case lookup (vt_visitors t) key of
              Some v \<Rightarrow> Some (v, t)
            | None \<Rightarrow>
                if cap > 0 \<and> int (length (vt_visitors t)) \<ge> cap then None
                else (let i = vt_next t + 1; v = \<lparr>ve_id = i, ve_addr = src, ve_seen = zero_time\<rparr>
                      in Some (v, t\<lparr>vt_next := i, vt_visitors := put key v (vt_visitors t),
                                    tr_conns := tr_conns t + 1\<rparr>))) of
        None \<Rightarrow> (t, None)
      | Some (v, t1) \<Rightarrow>
          (let t2 = t1\<lparr>vt_visitors := put key (v\<lparr>ve_seen := now\<rparr>) (vt_visitors t1),
                       vt_packets := vt_packets t1 + 1\<rparr>;
               t3 = (if vt_packets t2 mod 64 = 0
                     then (let vs = sweep_visitors udpIdle now (vt_visitors t2)
                           in t2\<lparr>vt_visitors := vs,
                                 tr_conns := tr_conns t2 - int (length (vt_visitors t2) - length vs)\<rparr>)
                     else t2)
           in (t3, Some (ve_id v))))"

text \<open>\<open>ensure\<close>: the current stream, opened when there is none.\<close>

definition ensure_stream :: "net \<Rightarrow> rule \<Rightarrow> server \<Rightarrow> tun_relay \<Rightarrow> tun_relay \<times> nat option" where
  "ensure_stream net r s t =
     (case tr_stream t of
        Some sc \<Rightarrow> (t, Some sc)
      | None \<Rightarrow>
          (case fst (openStreamTo (n_open net) (n_header net) (Client r)
                       \<lparr>h_ID = ID r, h_Target = Target r, h_UDP = True, h_Visitor = [], h_DstAddr = [],
                        h_ProxyProto = 0\<rparr> s) of
             Inl e \<Rightarrow> (t, None)
           | Inr sc \<Rightarrow> (t\<lparr>tr_stream := Some sc\<rparr>, Some sc)))"

definition tunnel_packet ::
  "net \<Rightarrow> server \<Rightarrow> rule \<Rightarrow> int \<Rightarrow> udp_addr \<Rightarrow> bytes \<Rightarrow> tun_relay \<Rightarrow> tun_relay \<times> (nat \<times> bytes) option" where
  "tunnel_packet net s r now src payload t0 =
     (let t = t0\<lparr>tr_listener := refresh_bl s (tr_listener t0)\<rparr> in
      if denied (tr_listener t) src then (t, None)
      else (case tunnel_admit (MaxConns r) now src t of
              (t1, None) \<Rightarrow> (t1, None)
            | (t1, Some i) \<Rightarrow>
                (case ensure_stream net r s t1 of
                   (t2, None) \<Rightarrow> (t2, None)
                 | (t2, Some sc) \<Rightarrow>
                     (case WriteUDPPacket \<lparr>ConnID = i, Payload = payload\<rparr> of
                        Inl e \<Rightarrow> (t2, None)
                      | Inr b \<Rightarrow>
                          if n_write net sc b then (t2\<lparr>tr_in := tr_in t2 + int (length payload)\<rparr>, Some (sc, b))
                          else (t2, None)))))"

text \<open>One turn of the reply goroutine, and what it does when the stream breaks.\<close>

definition tunnel_reply :: "udp_packet \<Rightarrow> tun_relay \<Rightarrow> (udp_addr \<times> bytes) option" where
  "tunnel_reply pkt t = map_option (\<lambda>a. (a, Payload pkt)) (visitor_of (ConnID pkt) (vt_visitors t))"

definition tunnel_broken :: "nat \<Rightarrow> tun_relay \<Rightarrow> tun_relay" where
  "tunnel_broken sc t = (if tr_stream t = Some sc then t\<lparr>tr_stream := None\<rparr> else t)"

text \<open>The end of the relay: its stream is closed, its visitors stay counted.\<close>

definition tunnel_stop :: "tun_relay \<Rightarrow> tun_relay" where
  "tunnel_stop t = t\<lparr>tr_stream := None\<rparr>"

lemma tunnel_stop_keeps_count: "tr_conns (tunnel_stop t) = tr_conns t"
  by (simp add: tunnel_stop_def)

lemma tunnel_admit_full:
  "tunnel_admit cap now src t = (t', None) \<longleftrightarrow>
     t' = t \<and> lookup (vt_visitors t) (udp_key src) = None \<and> 0 < cap \<and> cap \<le> int (length (vt_visitors t))"
  by (auto simp: tunnel_admit_def Let_def split: option.splits if_splits)

text \<open>The entry an admitted packet leaves: before the sweep, the table has it and is otherwise the same.\<close>

lemma tunnel_admit_Some:
  assumes "tunnel_admit cap now src t = (t', Some i)"
  shows "\<exists>v vs. v = (case lookup (vt_visitors t) (udp_key src) of
                       Some e \<Rightarrow> e | None \<Rightarrow> \<lparr>ve_id = vt_next t + 1, ve_addr = src, ve_seen = zero_time\<rparr>)
     \<and> i = ve_id v
     \<and> vs = put (udp_key src) (v\<lparr>ve_seen := now\<rparr>) (case lookup (vt_visitors t) (udp_key src) of
              Some e \<Rightarrow> vt_visitors t | None \<Rightarrow> put (udp_key src) v (vt_visitors t))
     \<and> (vt_visitors t' = vs \<or> vt_visitors t' = sweep_visitors udpIdle now vs)
     \<and> vt_next t' = (if lookup (vt_visitors t) (udp_key src) = None then vt_next t + 1 else vt_next t)
     \<and> (lookup (vt_visitors t) (udp_key src) = None \<longrightarrow> 0 < cap \<longrightarrow> int (length (vt_visitors t)) < cap)
     \<and> tr_conns t' - int (length (vt_visitors t')) = tr_conns t - int (length (vt_visitors t))"
proof (cases "lookup (vt_visitors t) (udp_key src)")
  case None
  have len: "length (put (udp_key src) x (vt_visitors t)) = Suc (length (vt_visitors t))" for x
    using None by (rule length_put_new)
  have le: "length (sweep_visitors udpIdle now (put (udp_key src) x (vt_visitors t))) \<le> Suc (length (vt_visitors t))"
    for x using length_sweep_visitors [of udpIdle now "put (udp_key src) x (vt_visitors t)"] len by simp
  show ?thesis using assms None
    by (auto simp: tunnel_admit_def Let_def len of_nat_diff [OF le] split: if_splits)
next
  case (Some e)
  have len: "length (put (udp_key src) x (vt_visitors t)) = length (vt_visitors t)" for x
    using Some by (intro length_put_old) simp
  have le: "length (sweep_visitors udpIdle now (put (udp_key src) x (vt_visitors t))) \<le> length (vt_visitors t)"
    for x using length_sweep_visitors [of udpIdle now "put (udp_key src) x (vt_visitors t)"] len by simp
  show ?thesis using assms Some
    by (auto simp: tunnel_admit_def Let_def len of_nat_diff [OF le] split: if_splits)
qed

lemma tunnel_admit_lookup:
  assumes p: "tunnel_admit cap now src t = (t', Some i)" and d: "distinct (keys (vt_visitors t))"
  shows "distinct (keys (vt_visitors t'))"
    and "lookup (vt_visitors t') (udp_key src) = Some \<lparr>ve_id = i,
        ve_addr = (case lookup (vt_visitors t) (udp_key src) of None \<Rightarrow> src | Some e \<Rightarrow> ve_addr e), ve_seen = now\<rparr>"
    and "k \<noteq> udp_key src \<Longrightarrow> lookup (vt_visitors t') k = lookup (vt_visitors t) k
      \<or> (lookup (vt_visitors t') k = None \<and> (\<exists>e. lookup (vt_visitors t) k = Some e \<and> now - ve_seen e > udpIdle))"
    and "length (vt_visitors t') \<le> (if lookup (vt_visitors t) (udp_key src) = None
      then Suc (length (vt_visitors t)) else length (vt_visitors t))"
proof -
  let ?k = "udp_key src" and ?m = "vt_visitors t"
  obtain v vs where v_def: "v = (case lookup ?m ?k of
        Some e \<Rightarrow> e | None \<Rightarrow> \<lparr>ve_id = vt_next t + 1, ve_addr = src, ve_seen = zero_time\<rparr>)"
    and vs_def: "vs = put ?k (v\<lparr>ve_seen := now\<rparr>) (case lookup ?m ?k of Some e \<Rightarrow> ?m | None \<Rightarrow> put ?k v ?m)"
    and t': "i = ve_id v" "vt_visitors t' = vs \<or> vt_visitors t' = sweep_visitors udpIdle now vs"
    using tunnel_admit_Some [OF p] by (elim exE conjE) (rule that)
  have dvs: "distinct (keys vs)" using d by (auto simp: vs_def distinct_keys_put split: option.split)
  have lvs: "lookup vs = (lookup ?m)(?k \<mapsto> v\<lparr>ve_seen := now\<rparr>)"
    by (auto simp: vs_def split: option.split)
  have ve: "v\<lparr>ve_seen := now\<rparr> = \<lparr>ve_id = i, ve_addr = (case lookup ?m ?k of None \<Rightarrow> src | Some e \<Rightarrow> ve_addr e),
      ve_seen = now\<rparr>"
    using t'(1) by (auto simp: v_def split: option.split)
  note sw = lookup_sweep_visitors [OF dvs udpIdle_bounds(1,2), of now]
  show "distinct (keys (vt_visitors t'))"
    using t'(2) dvs keys_sweep_visitors [OF dvs, of udpIdle now] by (elim disjE) simp_all
  have "lookup vs ?k = Some (v\<lparr>ve_seen := now\<rparr>)" unfolding lvs by simp
  moreover have "lookup (sweep_visitors udpIdle now vs) ?k = Some (v\<lparr>ve_seen := now\<rparr>)"
    unfolding sw lvs using udpIdle_bounds(1) by simp
  ultimately show "lookup (vt_visitors t') ?k = Some \<lparr>ve_id = i,
        ve_addr = (case lookup ?m ?k of None \<Rightarrow> src | Some e \<Rightarrow> ve_addr e), ve_seen = now\<rparr>"
    unfolding ve [symmetric] using t'(2) by (elim disjE) simp_all
  show "lookup (vt_visitors t') k = lookup ?m k
      \<or> (lookup (vt_visitors t') k = None \<and> (\<exists>e. lookup ?m k = Some e \<and> now - ve_seen e > udpIdle))"
    if "k \<noteq> ?k"
    using t'(2)
  proof
    assume "vt_visitors t' = vs"
    with lvs that show ?thesis by simp
  next
    assume "vt_visitors t' = sweep_visitors udpIdle now vs"
    then have "lookup (vt_visitors t') k = (case lookup ?m k of None \<Rightarrow> None
       | Some e \<Rightarrow> if now - ve_seen e > udpIdle then None else Some e)"
      using sw [of k] that by (simp add: lvs)
    then show ?thesis by (cases "lookup ?m k") auto
  qed
  have "length vs \<le> (if lookup ?m ?k = None then Suc (length ?m) else length ?m)"
    by (auto simp: vs_def length_put_old length_put_new split: option.split)
  then show "length (vt_visitors t') \<le> (if lookup ?m ?k = None then Suc (length ?m) else length ?m)"
    using t'(2) length_sweep_visitors [of udpIdle now vs] by (elim disjE) simp_all
qed

interpretation tunnel_table: visitor_table tunnel_admit vt_visitors vt_next udpIdle
proof (unfold_locales, goal_cases)
  case (1 cap now src t t')
  then show ?case by (simp add: tunnel_admit_full)
next
  case (2 cap now src t t' i e)
  then show ?case using tunnel_admit_Some [OF 2(1)] by auto
next
  case (3 cap now src t t' i)
  then show ?case using tunnel_admit_Some [OF 3(1)] by auto
next
  case (4 cap now src t t' r)
  then show ?case
    using tunnel_admit_full [of cap now src t t'] tunnel_admit_lookup(1) by (cases r) blast+
next
  case (5 cap now src t t' i)
  then show ?case by (rule tunnel_admit_lookup(2))
next
  case (6 cap now src t t' i k)
  then show ?case using tunnel_admit_lookup(3) by blast
next
  case (7 cap now src t t' i)
  then show ?case by (rule tunnel_admit_lookup(4))
qed

lemma tunnel_admit_conns:
  "tunnel_admit cap now src t = (t', r) \<Longrightarrow> tr_conns t' - int (length (vt_visitors t')) = tr_conns t - int (length (vt_visitors t))"
  using tunnel_admit_Some [of cap now src t t'] tunnel_admit_full [of cap now src t t'] by (cases r) auto

section \<open>A relay from its start\<close>

text \<open>\<open>tunnel_reach r n t\<close>: the relay of rule \<open>r\<close> gets to \<open>t\<close> with at most \<open>n\<close> packets handled.\<close>

definition tunnel_start :: "server \<Rightarrow> rule \<Rightarrow> tun_relay" where
  "tunnel_start s r =
     \<lparr>vt_visitors = [], vt_next = 0, vt_packets = 0, tr_conns = 0, tr_listener = start_listener s r,
      tr_stream = None, tr_in = 0, tr_out = 0\<rparr>"

inductive tunnel_reach :: "rule \<Rightarrow> nat \<Rightarrow> tun_relay \<Rightarrow> bool" for r where
  start: "tunnel_reach r 0 (tunnel_start s r)"
| packet: "tunnel_reach r n t \<Longrightarrow> tunnel_packet net s r now src payload t = (t', sent) \<Longrightarrow>
     tunnel_reach r (Suc n) t'"
| reply: "tunnel_reach r n t \<Longrightarrow> tunnel_reply pkt t = Some (a, b) \<Longrightarrow>
     tunnel_reach r n (t\<lparr>tr_out := tr_out t + int (length b)\<rparr>)"
| broken: "tunnel_reach r n t \<Longrightarrow> tunnel_reach r n (tunnel_broken sc t)"
| stop: "tunnel_reach r n t \<Longrightarrow> tunnel_reach r n (tunnel_stop t)"

definition relay_ok :: "rule \<Rightarrow> tun_relay \<Rightarrow> bool" where
  "relay_ok r t \<longleftrightarrow> tunnel_table.table_ok t \<and> tunnel_table.within_cap (MaxConns r) t
     \<and> tr_conns t = int (length (vt_visitors t))"

lemma relay_ok_cong:
  "vt_visitors t' = vt_visitors t \<Longrightarrow> vt_next t' = vt_next t \<Longrightarrow> tr_conns t' = tr_conns t \<Longrightarrow>
     relay_ok r t' = relay_ok r t"
  by (simp add: relay_ok_def tunnel_table.table_ok_def tunnel_table.within_cap_def)

text \<open>What a packet does to the table is the locked part alone.\<close>

lemma ensure_stream_table:
  "ensure_stream net r s t = (t', res) \<Longrightarrow>
     vt_visitors t' = vt_visitors t \<and> vt_next t' = vt_next t \<and> tr_conns t' = tr_conns t"
  by (auto simp: ensure_stream_def split: option.splits sum.splits)

lemma tunnel_packet_table:
  assumes "tunnel_packet net s r now src payload t = (t', sent)"
  shows "(vt_visitors t' = vt_visitors t \<and> vt_next t' = vt_next t \<and> tr_conns t' = tr_conns t \<and> sent = None)
     \<or> (\<exists>t0 t1 x. vt_visitors t0 = vt_visitors t \<and> vt_next t0 = vt_next t \<and> tr_conns t0 = tr_conns t
          \<and> tunnel_admit (MaxConns r) now src t0 = (t1, Some x)
          \<and> vt_visitors t' = vt_visitors t1 \<and> vt_next t' = vt_next t1 \<and> tr_conns t' = tr_conns t1
          \<and> (\<forall>sc b. sent = Some (sc, b) \<longrightarrow> WriteUDPPacket \<lparr>ConnID = x, Payload = payload\<rparr> = Inr b))"
proof -
  define t0 where "t0 = t\<lparr>tr_listener := refresh_bl s (tr_listener t)\<rparr>"
  have t0: "vt_visitors t0 = vt_visitors t" "vt_next t0 = vt_next t" "tr_conns t0 = tr_conns t"
    by (simp_all add: t0_def)
  note run = assms [unfolded tunnel_packet_def Let_def, folded t0_def]
  obtain t1 q where a: "tunnel_admit (MaxConns r) now src t0 = (t1, q)" by fastforce
  show ?thesis
  proof (cases "denied (tr_listener t0) src \<or> q = None")
    case True
    then have "t' = t0 \<and> sent = None"
      using run a tunnel_admit_full [of "MaxConns r" now src t0 t1] by (auto split: if_splits)
    with t0 show ?thesis by simp
  next
    case False
    then obtain x where x: "q = Some x" by auto
    obtain t2 st where e: "ensure_stream net r s t1 = (t2, st)" by fastforce
    have "vt_visitors t' = vt_visitors t2 \<and> vt_next t' = vt_next t2 \<and> tr_conns t' = tr_conns t2
        \<and> (\<forall>sc b. sent = Some (sc, b) \<longrightarrow> WriteUDPPacket \<lparr>ConnID = x, Payload = payload\<rparr> = Inr b)"
      using run False a x e by (auto split: option.splits sum.splits if_splits)
    with ensure_stream_table [OF e] a x t0 show ?thesis by auto
  qed
qed

lemma tunnel_reach_ok: "tunnel_reach r n t \<Longrightarrow> n < 2 ^ 32 \<Longrightarrow> relay_ok r t \<and> unat (vt_next t) \<le> n"
proof (induction rule: tunnel_reach.induct)
  case (start s)
  show ?case
    by (simp add: relay_ok_def tunnel_start_def tunnel_table.table_ok_def tunnel_table.within_cap_def)
next
  case (packet n t net s now src payload t' sent)
  then have ok: "relay_ok r t" "unat (vt_next t) \<le> n" "n < 2 ^ 32 - 1" by simp_all
  from tunnel_packet_table [OF packet.hyps(2)] show ?case
  proof (elim disjE exE conjE)
    assume same: "vt_visitors t' = vt_visitors t" "vt_next t' = vt_next t" "tr_conns t' = tr_conns t"
    from relay_ok_cong [OF same] ok same show ?thesis by simp
  next
    fix t0 t1 x
    assume same: "vt_visitors t0 = vt_visitors t" "vt_next t0 = vt_next t" "tr_conns t0 = tr_conns t"
      and a: "tunnel_admit (MaxConns r) now src t0 = (t1, Some x)"
      and t1: "vt_visitors t' = vt_visitors t1" "vt_next t' = vt_next t1" "tr_conns t' = tr_conns t1"
    have r0: "relay_ok r t0" using relay_ok_cong [OF same] ok by simp
    then have "tunnel_table.table_ok t1 \<and> unat (vt_next t1) \<le> Suc n"
      using tunnel_table.packet_counted [OF _ a] ok same by (simp add: relay_ok_def)
    moreover have "tunnel_table.within_cap (MaxConns r) t1"
      using tunnel_table.packet_cap [OF a] r0 by (simp add: relay_ok_def tunnel_table.table_ok_def)
    ultimately have "relay_ok r t1 \<and> unat (vt_next t1) \<le> Suc n"
      using tunnel_admit_conns [OF a] r0 by (simp add: relay_ok_def)
    with relay_ok_cong [OF t1] t1 show ?thesis by simp
  qed
next
  case (reply n t pkt a b)
  then show ?case using relay_ok_cong [of "t\<lparr>tr_out := tr_out t + int (length b)\<rparr>" t] by simp
next
  case (broken n t sc)
  then show ?case using relay_ok_cong [of "tunnel_broken sc t" t] by (simp add: tunnel_broken_def)
next
  case (stop n t)
  then show ?case using relay_ok_cong [of "tunnel_stop t" t] by (simp add: tunnel_stop_def)
qed

text \<open>The answer to a packet that went into the tunnel comes back to the packet's sender.\<close>

lemma tunnel_answer:
  assumes "tunnel_reach r n t" and "n < 2 ^ 32 - 1"
    and p: "tunnel_packet net s r now src payload t = (t', Some (sc, b))"
  shows "\<exists>i a. ReadUDPPacket b = Inr (\<lparr>ConnID = i, Payload = payload\<rparr>, [])
     \<and> tunnel_reply \<lparr>ConnID = i, Payload = answer\<rparr> t' = Some (a, answer) \<and> udp_key a = udp_key src"
proof -
  from tunnel_reach_ok [OF assms(1)] assms(2) have ok: "relay_ok r t" "unat (vt_next t) \<le> n" by simp_all
  from tunnel_packet_table [OF p] obtain t0 t1 x where
    same: "vt_visitors t0 = vt_visitors t" "vt_next t0 = vt_next t" "tr_conns t0 = tr_conns t"
    and a: "tunnel_admit (MaxConns r) now src t0 = (t1, Some x)" and t1: "vt_visitors t' = vt_visitors t1"
    and w: "WriteUDPPacket \<lparr>ConnID = x, Payload = payload\<rparr> = Inr b" by auto
  have "vt_next t0 \<noteq> - 1" using last_id_room [OF ok(2) assms(2)] same by simp
  moreover have "relay_ok r t0" using relay_ok_cong [OF same] ok(1) by blast
  then have "tunnel_table.table_ok t0" by (simp add: relay_ok_def)
  ultimately obtain v where v: "visitor_of x (vt_visitors t1) = Some v" "udp_key v = udp_key src"
    using tunnel_table.reply_to_sender [OF _ a] by blast
  have "udp_ok \<lparr>ConnID = x, Payload = payload\<rparr>"
    using w by (simp add: WriteUDPPacket_def udp_ok_def split: if_splits)
  from ReadUDP_WriteUDP [OF this] w have "ReadUDPPacket (b @ []) = Inr (\<lparr>ConnID = x, Payload = payload\<rparr>, [])"
    unfolding w sum.inject by blast
  then have "ReadUDPPacket b = Inr (\<lparr>ConnID = x, Payload = payload\<rparr>, [])" by simp
  with v t1 show ?thesis by (auto simp: tunnel_reply_def)
qed

end
