(* ===== verification/Admission.thy ===== *)
theory Admission
  imports Prelude
begin

text \<open>
  The connection limit of a rule under concurrency. \<open>handleTCP\<close> of the server and of the client's
  reverse rules both count themselves with one atomic operation and compare the counter with
  another, so the two can interleave with those of other connections: the steps below are the
  atomic operations, for any number of connections.
\<close>

datatype phase = Waiting | Counted | Serving | Refused | Left

record gate =
  g_count :: int
  g_phase :: "nat \<Rightarrow> phase"

definition gate_init :: gate where
  "gate_init = \<lparr>g_count = 0, g_phase = (\<lambda>_. Waiting)\<rparr>"

inductive gate_step :: "int \<Rightarrow> gate \<Rightarrow> gate \<Rightarrow> bool" for maxConns where
  count: "g_phase g i = Waiting \<Longrightarrow>
    gate_step maxConns g (g\<lparr>g_count := g_count g + 1, g_phase := (g_phase g)(i := Counted)\<rparr>)"
| admit: "g_phase g i = Counted \<Longrightarrow> \<not> (maxConns > 0 \<and> g_count g > maxConns) \<Longrightarrow>
    gate_step maxConns g (g\<lparr>g_phase := (g_phase g)(i := Serving)\<rparr>)"
| refuse: "g_phase g i = Counted \<Longrightarrow> maxConns > 0 \<Longrightarrow> g_count g > maxConns \<Longrightarrow>
    gate_step maxConns g (g\<lparr>g_count := g_count g - 1, g_phase := (g_phase g)(i := Refused)\<rparr>)"
| leave: "g_phase g i = Serving \<Longrightarrow>
    gate_step maxConns g (g\<lparr>g_count := g_count g - 1, g_phase := (g_phase g)(i := Left)\<rparr>)"

inductive gate_reach :: "int \<Rightarrow> gate \<Rightarrow> bool" for maxConns where
  start: "gate_reach maxConns gate_init"
| step: "gate_reach maxConns g \<Longrightarrow> gate_step maxConns g h \<Longrightarrow> gate_reach maxConns h"

inductive_cases gate_stepE: "gate_step maxConns g h"

definition inside :: "gate \<Rightarrow> nat set" where
  "inside g = {i. g_phase g i = Counted \<or> g_phase g i = Serving}"

definition serving :: "gate \<Rightarrow> nat set" where
  "serving g = {i. g_phase g i = Serving}"

definition gate_inv :: "int \<Rightarrow> gate \<Rightarrow> bool" where
  "gate_inv maxConns g \<longleftrightarrow> finite (inside g) \<and> g_count g = int (card (inside g))
     \<and> (0 < maxConns \<longrightarrow> int (card (serving g)) \<le> maxConns)"

lemma serving_inside: "serving g \<subseteq> inside g"
  by (auto simp: serving_def inside_def)

lemma gate_step_inv: "gate_step m g h \<Longrightarrow> gate_inv m g \<Longrightarrow> gate_inv m h"
proof (induction rule: gate_step.induct)
  case (count g i)
  let ?h = "g\<lparr>g_count := g_count g + 1, g_phase := (g_phase g)(i := Counted)\<rparr>"
  have "inside ?h = insert i (inside g)" "i \<notin> inside g" "serving ?h = serving g"
    using count(1) by (auto simp: inside_def serving_def)
  with count(2) show ?case by (simp add: gate_inv_def)
next
  case (admit g i)
  let ?h = "g\<lparr>g_phase := (g_phase g)(i := Serving)\<rparr>"
  have h: "inside ?h = inside g" "serving ?h \<subseteq> inside g"
    using admit(1) by (auto simp: inside_def serving_def)
  have "card (serving ?h) \<le> card (inside g)"
    using h(2) admit(3) by (intro card_mono) (simp_all add: gate_inv_def)
  with admit(2,3) h(1) show ?case by (auto simp: gate_inv_def)
next
  case (refuse g i)
  let ?h = "g\<lparr>g_count := g_count g - 1, g_phase := (g_phase g)(i := Refused)\<rparr>"
  have h: "inside ?h = inside g - {i}" "i \<in> inside g" "serving ?h = serving g"
    using refuse(1) by (auto simp: inside_def serving_def)
  have "0 < card (inside g)" using h(2) refuse(4) by (auto simp: gate_inv_def card_gt_0_iff)
  with refuse(4) h show ?case by (simp add: gate_inv_def of_nat_diff)
next
  case (leave g i)
  let ?h = "g\<lparr>g_count := g_count g - 1, g_phase := (g_phase g)(i := Left)\<rparr>"
  have h: "inside ?h = inside g - {i}" "i \<in> inside g" "serving ?h = serving g - {i}" "i \<in> serving g"
    using leave(1) by (auto simp: inside_def serving_def)
  have f: "finite (inside g)" "finite (serving g)"
    using leave(2) finite_subset [OF serving_inside] by (simp_all add: gate_inv_def)
  have c: "g_count g = int (card (inside g))" "0 < m \<longrightarrow> int (card (serving g)) \<le> m"
    using leave(2) by (simp_all add: gate_inv_def)
  have "0 < card (inside g)" using h(2) f(1) by (auto simp: card_gt_0_iff)
  then have "g_count ?h = int (card (inside ?h))"
    unfolding h(1) using c(1) f(1) h(2) by (simp add: of_nat_diff)
  moreover have "card (serving ?h) \<le> card (serving g)" unfolding h(3) by (rule card_Diff1_le)
  then have "0 < m \<longrightarrow> int (card (serving ?h)) \<le> m" using c(2) by linarith
  moreover have "finite (inside ?h)" unfolding h(1) using f(1) by simp
  ultimately show ?case unfolding gate_inv_def by blast
qed

lemma gate_reach_inv: "gate_reach m g \<Longrightarrow> gate_inv m g"
proof (induction rule: gate_reach.induct)
  case start
  show ?case by (simp add: gate_inv_def gate_init_def inside_def serving_def)
next
  case (step g h)
  then show ?case by (blast intro: gate_step_inv)
qed

end
