(* ===== verification/Backends.thy ===== *)
theory Backends
  imports Relay
begin

text \<open>
  The far end of a UDP stream: one socket per connection id, dialled on the id's first packet.
  \<open>udpBackendFromStream\<close> of \<open>server/reverse.go\<close> and \<open>handleUDPStream\<close> of \<open>client/client.go\<close> run the
  same protocol; the server's also counts. \<open>bk_live\<close> lists the goroutines that read from a socket.
\<close>

record backends =
  bk_map :: "(32 word \<times> nat) list"
  bk_live :: "(32 word \<times> nat) list"
  bk_rr :: "64 word"

definition backends_init :: backends where
  "backends_init = \<lparr>bk_map = [], bk_live = [], bk_rr = 0\<rparr>"

text \<open>The socket of a connection id, dialled when the map has none.\<close>

definition backend_for ::
  "(nat \<Rightarrow> string \<Rightarrow> string + nat) \<Rightarrow> string \<Rightarrow> 32 word \<Rightarrow> backends \<Rightarrow> backends \<times> nat option" where
  "backend_for dial target i t =
     (case lookup (bk_map t) i of
        Some b \<Rightarrow> (t, Some b)
      | None \<Rightarrow>
          (case DialUDPBalanced (\<lambda>_ a. Inr a) dial target (bk_rr t) of
             (Conn nb, rr) \<Rightarrow> (t\<lparr>bk_rr := rr, bk_map := put i nb (bk_map t), bk_live := (i, nb) # bk_live t\<rparr>, Some nb)
           | (_, rr) \<Rightarrow> (t\<lparr>bk_rr := rr\<rparr>, None)))"

text \<open>One packet of \<open>handleUDPStream\<close>; the result is what was written to which socket.\<close>

definition client_backend_packet ::
  "(nat \<Rightarrow> string \<Rightarrow> string + nat) \<Rightarrow> (nat \<Rightarrow> bool) \<Rightarrow> string \<Rightarrow> udp_packet \<Rightarrow> backends
     \<Rightarrow> backends \<times> (nat \<times> bytes) option" where
  "client_backend_packet dial wr target pkt t =
     (case backend_for dial target (ConnID pkt) t of
        (t1, None) \<Rightarrow> (t1, None)
      | (t1, Some b) \<Rightarrow>
          if wr b then (t1, Some (b, Payload pkt))
          else (t1\<lparr>bk_map := del (ConnID pkt) (bk_map t1)\<rparr>, None))"

text \<open>The end of a reading goroutine: it deletes the entry of its id, whatever it holds by then.\<close>

definition backend_end :: "32 word \<Rightarrow> nat \<Rightarrow> backends \<Rightarrow> backends" where
  "backend_end i b t = t\<lparr>bk_map := del i (bk_map t), bk_live := remove1 (i, b) (bk_live t)\<rparr>"

section \<open>The server's end, with its counters\<close>

record counted_backends = backends +
  bk_conns :: int
  bk_in :: int
  bk_out :: int

definition server_backend_packet ::
  "(nat \<Rightarrow> string \<Rightarrow> string + nat) \<Rightarrow> (nat \<Rightarrow> bool) \<Rightarrow> string \<Rightarrow> udp_packet \<Rightarrow> counted_backends
     \<Rightarrow> counted_backends \<times> (nat \<times> bytes) option" where
  "server_backend_packet dial wr target pkt t =
     (let i = ConnID pkt in
      case (case lookup (bk_map t) i of
              Some b \<Rightarrow> (t, Some b)
            | None \<Rightarrow>
                (case DialUDPBalanced (\<lambda>_ a. Inr a) dial target (bk_rr t) of
                   (Conn nb, rr) \<Rightarrow>
                     (t\<lparr>bk_rr := rr, bk_map := put i nb (bk_map t), bk_live := (i, nb) # bk_live t,
                        bk_conns := bk_conns t + 1\<rparr>, Some nb)
                 | (_, rr) \<Rightarrow> (t\<lparr>bk_rr := rr\<rparr>, None))) of
        (t1, None) \<Rightarrow> (t1, None)
      | (t1, Some b) \<Rightarrow>
          if wr b then (t1\<lparr>bk_in := bk_in t1 + int (length (Payload pkt))\<rparr>, Some (b, Payload pkt))
          else (t1\<lparr>bk_map := del i (bk_map t1)\<rparr>, None))"

definition server_backend_end :: "32 word \<Rightarrow> nat \<Rightarrow> counted_backends \<Rightarrow> counted_backends" where
  "server_backend_end i b t =
     t\<lparr>bk_map := del i (bk_map t), bk_live := remove1 (i, b) (bk_live t), bk_conns := bk_conns t - 1\<rparr>"

text \<open>A reply read from a socket goes out under the id its goroutine was started for.\<close>

definition backend_reply :: "32 word \<Rightarrow> bytes \<Rightarrow> frame_error + bytes" where
  "backend_reply i payload = WriteUDPPacket \<lparr>ConnID = i, Payload = payload\<rparr>"

inductive server_backend_step :: "string \<Rightarrow> counted_backends \<Rightarrow> counted_backends \<Rightarrow> bool" for target where
  packet: "server_backend_packet dial wr target pkt t = (t', sent) \<Longrightarrow> server_backend_step target t t'"
| reply: "(i, b) \<in> set (bk_live t) \<Longrightarrow> server_backend_step target t (t\<lparr>bk_out := bk_out t + n\<rparr>)"
| ended: "(i, b) \<in> set (bk_live t) \<Longrightarrow> server_backend_step target t (server_backend_end i b t)"

text \<open>Every entry has a live goroutine and the counter counts the goroutines.\<close>

definition backends_inv :: "counted_backends \<Rightarrow> bool" where
  "backends_inv t \<longleftrightarrow> distinct (keys (bk_map t)) \<and> set (bk_map t) \<subseteq> set (bk_live t)
     \<and> bk_conns t = int (length (bk_live t))"

lemma set_put_subset: "set (put k v m) \<subseteq> insert (k, v) (set m)"
  by (induction m) (auto split: if_splits)

lemma set_del_subset: "set (del k m) \<subseteq> set m"
  by (simp add: AList.delete_eq)

lemma del_not_key: "(i, b) \<notin> set (del i m)"
  by (simp add: AList.delete_eq)

lemma server_backend_packet_inv:
  assumes "server_backend_packet dial wr target pkt t = (t', sent)" and "backends_inv t"
  shows "backends_inv t'"
proof (cases "lookup (bk_map t) (ConnID pkt)")
  case (Some b)
  have "set (del (ConnID pkt) (bk_map t)) \<subseteq> set (bk_live t)"
    using assms(2) by (intro order_trans [OF set_del_subset]) (simp add: backends_inv_def)
  then have "backends_inv (t\<lparr>bk_map := del (ConnID pkt) (bk_map t)\<rparr>)"
    using assms(2) by (simp add: backends_inv_def distinct_keys_del)
  moreover have "backends_inv (t\<lparr>bk_in := n\<rparr>)" for n using assms(2) by (simp add: backends_inv_def)
  ultimately show ?thesis using assms(1) Some
    by (cases "wr b") (auto simp: server_backend_packet_def Let_def)
next
  case None
  obtain d rr where dl: "DialUDPBalanced (\<lambda>_ a. Inr a) dial target (bk_rr t) = (d, rr)" by fastforce
  show ?thesis
  proof (cases "\<exists>nb. d = Conn nb")
    case True
    then obtain nb where d: "d = Conn nb" by blast
    let ?m = "put (ConnID pkt) nb (bk_map t)"
    let ?t = "t\<lparr>bk_rr := rr, bk_map := ?m, bk_live := (ConnID pkt, nb) # bk_live t, bk_conns := bk_conns t + 1\<rparr>"
    have t: "backends_inv ?t"
      using assms(2) set_put_subset [of "ConnID pkt" nb "bk_map t"]
      unfolding backends_inv_def by (simp add: distinct_keys_put) blast
    have "set (del (ConnID pkt) ?m) \<subseteq> set (bk_live ?t)"
      using t by (intro order_trans [OF set_del_subset]) (simp add: backends_inv_def)
    with t have "backends_inv (?t\<lparr>bk_map := del (ConnID pkt) ?m\<rparr>)"
      unfolding backends_inv_def by (simp add: distinct_keys_del)
    moreover from t have "backends_inv (?t\<lparr>bk_in := n\<rparr>)" for n unfolding backends_inv_def by simp
    ultimately show ?thesis using assms(1) None dl d
      by (cases "wr nb") (auto simp: server_backend_packet_def Let_def)
  next
    case False
    with assms(1) None dl have "t' = t\<lparr>bk_rr := rr\<rparr>"
      by (cases d) (simp_all add: server_backend_packet_def Let_def)
    with assms(2) show ?thesis by (simp add: backends_inv_def)
  qed
qed

lemma server_backend_end_inv:
  assumes "(i, b) \<in> set (bk_live t)" and "backends_inv t"
  shows "backends_inv (server_backend_end i b t)"
proof -
  have "set (del i (bk_map t)) \<subseteq> set (remove1 (i, b) (bk_live t))"
  proof
    fix x
    assume x: "x \<in> set (del i (bk_map t))"
    then have "x \<noteq> (i, b)" using del_not_key by metis
    moreover have "x \<in> set (bk_live t)" using x set_del_subset [of i "bk_map t"] assms(2)
      by (auto simp: backends_inv_def)
    ultimately show "x \<in> set (remove1 (i, b) (bk_live t))" by (simp add: in_set_remove1)
  qed
  moreover have "int (length (bk_live t) - Suc 0) = int (length (bk_live t)) - 1"
    using assms(1) by (cases "bk_live t") auto
  ultimately show ?thesis using assms
    by (simp add: backends_inv_def server_backend_end_def distinct_keys_del length_remove1)
qed

lemma server_backend_step_inv: "server_backend_step target t t' \<Longrightarrow> backends_inv t \<Longrightarrow> backends_inv t'"
proof (induction rule: server_backend_step.induct)
  case (packet dial wr pkt t t' sent)
  then show ?case by (rule server_backend_packet_inv)
next
  case (reply i b t n)
  then show ?case by (simp add: backends_inv_def)
next
  case (ended i b t)
  then show ?case by (rule server_backend_end_inv)
qed

definition server_backends_start :: "64 word \<Rightarrow> counted_backends" where
  "server_backends_start rr = \<lparr>bk_map = [], bk_live = [], bk_rr = rr, bk_conns = 0, bk_in = 0, bk_out = 0\<rparr>"

lemma server_backends_reach:
  "(server_backend_step target)\<^sup>*\<^sup>* (server_backends_start rr) t \<Longrightarrow> backends_inv t"
proof (induction rule: rtranclp_induct)
  case base
  show ?case by (simp add: backends_inv_def server_backends_start_def)
next
  case (step t t')
  then show ?case by (blast intro: server_backend_step_inv)
qed

text \<open>Packets of one id keep going to one socket while its writes succeed.\<close>

lemma client_backend_sticky:
  assumes "client_backend_packet dial wr target pkt t = (t', Some (b, p))"
    and "ConnID pkt' = ConnID pkt" and "wr' b"
  shows "client_backend_packet dial' wr' target pkt' t' = (t', Some (b, Payload pkt'))"
  using assms
  by (auto simp: client_backend_packet_def backend_for_def
      split: option.splits prod.splits if_splits dialled.splits)

end
