(* ===== verification/Tunnel.thy ===== *)
theory Tunnel
  imports Forward
begin

text \<open>
  The tunnel endpoint: the stages of \<open>handleTunnel\<close> (\<open>server/server.go\<close>), each one critical
  section of the source, the control stream of a session (\<open>setupControl\<close>, \<open>server/reverse.go\<close>),
  and the interleaving of the handlers of all sessions with each other and with the panel's
  operations as a step relation. \<open>s_closed\<close> holds the sessions either side has closed.
\<close>

section \<open>Before the handshake\<close>

text \<open>\<open>net.ParseIP(host).IsLoopback()\<close>; \<open>net.ParseIP\<close> has no zones.\<close>

definition host_loopback :: "string \<Rightarrow> bool" where
  "host_loopback host =
     (case ParseAddr host of
        None \<Rightarrow> False
      | Some a \<Rightarrow> (case a of V6 w z \<Rightarrow> z = [] | _ \<Rightarrow> True) \<and> IsLoopback a)"

text \<open>The checks before the first frame is read: lockout, then blacklist.\<close>

definition tunnel_gate :: "int \<Rightarrow> string \<Rightarrow> server \<Rightarrow> server \<times> bool" where
  "tunnel_gate now host s =
     (let s1 = s\<lparr>s_authFails := sweepAuthFails now (s_authFails s)\<rparr> in
      if blocked now host (s_authFails s1) \<and> \<not> host_loopback host then (s1, False)
      else (let bl = compile_list (IPBlacklist (s_cfg s1)) in
            if bl = None then (s1, True)
            else case ParseAddr host of
                   None \<Rightarrow> (s1, True)
                 | Some ip \<Rightarrow> (s1, \<not> (Allows bl ip \<and> \<not> IsLoopback ip))))"

definition authToken :: "server \<Rightarrow> string \<Rightarrow> string option" where
  "authToken s token = map_option cu_Name (List.find (\<lambda>c. cu_Token c = token) (Clients (s_cfg s)))"

definition auth_failed :: "int \<Rightarrow> string \<Rightarrow> server \<Rightarrow> server" where
  "auth_failed now host s =
     (let (m, locked) = recordAuthFail now host (s_authFails s); s1 = s\<lparr>s_authFails := m\<rparr> in
      if locked
      then s1\<lparr>s_notifier := send now (''auth_block|'' @ host) (AuthBlock host 10) (s_notifier s1)\<rparr>
      else s1)"

text \<open>One attempt up to the reply: refused unheard, refused, or accepted under a name.\<close>

datatype handshake = Dropped | BadFrame frame_error | BadToken auth_reply | Accepted string auth_reply

definition tunnel_auth ::
  "(bytes \<Rightarrow> auth_request option) \<Rightarrow> int \<Rightarrow> string \<Rightarrow> bytes \<Rightarrow> server \<Rightarrow> server \<times> handshake" where
  "tunnel_auth dec now host stream s =
     (case tunnel_gate now host s of
        (s1, False) \<Rightarrow> (s1, Dropped)
      | (s1, True) \<Rightarrow>
          (case ReadJSONFrame dec stream of
             Inl e \<Rightarrow> (s1, BadFrame e)
           | Inr (req, rest) \<Rightarrow>
               (case authToken s1 (ar_Token req) of
                  None \<Rightarrow> (auth_failed now host s1, BadToken \<lparr>rep_OK = False, rep_Message = ''invalid token''\<rparr>)
                | Some name \<Rightarrow>
                    (s1\<lparr>s_authFails := del host (s_authFails s1)\<rparr>, Accepted name \<lparr>rep_OK = True, rep_Message = []\<rparr>))))"

lemma tunnel_gate_state: "fst (tunnel_gate now host s) = s\<lparr>s_authFails := sweepAuthFails now (s_authFails s)\<rparr>"
  by (simp add: tunnel_gate_def Let_def split: option.split)

lemma tunnel_gate_iff:
  "snd (tunnel_gate now host s) \<longleftrightarrow>
     (blocked now host (sweepAuthFails now (s_authFails s)) \<longrightarrow> host_loopback host)
     \<and> (\<forall>ip. ParseAddr host = Some ip \<longrightarrow> listed (IPBlacklist (s_cfg s)) ip \<longrightarrow> IsLoopback ip)"
  using compile_list_hits [of "IPBlacklist (s_cfg s)"]
  by (cases "compile_list (IPBlacklist (s_cfg s))") (auto simp: tunnel_gate_def Let_def split: option.split)

lemma find_Some_mem: "List.find P xs = Some x \<Longrightarrow> x \<in> set xs \<and> P x"
  by (induction xs) (auto split: if_splits)

lemma authToken_SomeD:
  "authToken s token = Some name \<Longrightarrow> \<exists>c \<in> set (Clients (s_cfg s)). cu_Name c = name \<and> cu_Token c = token"
  by (auto simp: authToken_def dest: find_Some_mem)

lemma authToken_None_iff:
  "authToken s token = None \<longleftrightarrow> (\<forall>c \<in> set (Clients (s_cfg s)). cu_Token c \<noteq> token)"
  by (auto simp: authToken_def find_None_iff)

lemma authToken_own:
  assumes "c \<in> set (Clients (s_cfg s))" and "distinct (map cu_Token (Clients (s_cfg s)))"
  shows "authToken s (cu_Token c) = Some (cu_Name c)"
proof (cases "authToken s (cu_Token c)")
  case None
  with assms(1) show ?thesis by (auto simp: authToken_None_iff)
next
  case (Some n)
  from authToken_SomeD [OF this] obtain d where
    "d \<in> set (Clients (s_cfg s))" "cu_Name d = n" "cu_Token d = cu_Token c" by blast
  with assms have "d = c" by (metis distinct_map inj_onD)
  with \<open>cu_Name d = n\<close> Some show ?thesis by simp
qed

text \<open>Someone is let in only with the token of a configured client, and a failure is counted.\<close>

lemma tunnel_auth_Accepted:
  assumes "tunnel_auth dec now host stream s = (s', Accepted name reply)"
  shows "(\<exists>c \<in> set (Clients (s_cfg s)). cu_Name c = name)
     \<and> (blocked now host (sweepAuthFails now (s_authFails s)) \<longrightarrow> host_loopback host)
     \<and> (\<forall>ip. ParseAddr host = Some ip \<longrightarrow> listed (IPBlacklist (s_cfg s)) ip \<longrightarrow> IsLoopback ip)
     \<and> rep_OK reply \<and> lookup (s_authFails s') host = None"
proof -
  have g: "tunnel_gate now host s = (s\<lparr>s_authFails := sweepAuthFails now (s_authFails s)\<rparr>, True)"
    using assms tunnel_gate_state [of now host s]
    by (cases "tunnel_gate now host s"; cases "snd (tunnel_gate now host s)") (auto simp: tunnel_auth_def)
  then have "snd (tunnel_gate now host s)" by simp
  then have gate: "(blocked now host (sweepAuthFails now (s_authFails s)) \<longrightarrow> host_loopback host)
     \<and> (\<forall>ip. ParseAddr host = Some ip \<longrightarrow> listed (IPBlacklist (s_cfg s)) ip \<longrightarrow> IsLoopback ip)"
    unfolding tunnel_gate_iff .
  have "\<exists>req rest. ReadJSONFrame dec stream = Inr (req, rest)
      \<and> authToken (s\<lparr>s_authFails := sweepAuthFails now (s_authFails s)\<rparr>) (ar_Token req) = Some name"
    and r: "rep_OK reply" "lookup (s_authFails s') host = None"
    using assms g by (auto simp: tunnel_auth_def split: sum.splits option.splits)
  from this(1) obtain req :: auth_request where
    a: "authToken (s\<lparr>s_authFails := sweepAuthFails now (s_authFails s)\<rparr>) (ar_Token req) = Some name"
    by blast
  from authToken_SomeD [OF a] gate r show ?thesis by auto
qed

section \<open>Sessions\<close>

definition register :: "int \<Rightarrow> client_conn \<Rightarrow> server \<Rightarrow> server" where
  "register now cc s =
     (let name = cn_Name cc;
          s1 = (case lookup (s_clients s) name of
                  None \<Rightarrow> s
                | Some old \<Rightarrow> close_session (cn_Session old) s);
          s2 = s1\<lparr>s_clients := put name cc (s_clients s1)\<rparr>
      in s2\<lparr>s_notifier := send now (''client_up|'' @ name) (ClientUp name (cn_Addr cc)) (s_notifier s2)\<rparr>)"

text \<open>What the handler does once its session is closed: it removes its own entry only.\<close>

definition unregister :: "int \<Rightarrow> nat \<Rightarrow> string \<Rightarrow> server \<Rightarrow> server" where
  "unregister now sess name s =
     (let s1 = (case lookup (s_clients s) name of
                  None \<Rightarrow> s
                | Some cur \<Rightarrow> if cn_Session cur = sess then s\<lparr>s_clients := del name (s_clients s)\<rparr> else s)
      in s1\<lparr>s_notifier := send now (''client_down|'' @ name) (ClientDown name) (s_notifier s1)\<rparr>)"

text \<open>The control stream: it is set up and pushed to, reports statuses, and is dropped.\<close>

definition set_control :: "bool \<Rightarrow> nat \<Rightarrow> string \<Rightarrow> server \<Rightarrow> server" where
  "set_control b sess name s =
     (case lookup (s_clients s) name of
        None \<Rightarrow> s
      | Some cc \<Rightarrow>
          if cn_Session cc = sess then s\<lparr>s_clients := put name (cc\<lparr>cn_cs := b\<rparr>) (s_clients s)\<rparr> else s)"

definition setupControl :: "env \<Rightarrow> client_conn \<Rightarrow> server \<Rightarrow> server" where
  "setupControl env cc s =
     pushRulesTo env (cc\<lparr>cn_cs := True\<rparr>) (set_control True (cn_Session cc) (cn_Name cc) s)"

definition control_status :: "int \<Rightarrow> nat \<Rightarrow> string \<Rightarrow> reverse_status \<Rightarrow> server \<Rightarrow> server" where
  "control_status now sess name st s =
     (let s1 = (case lookup (s_clients s) name of
                  None \<Rightarrow> s
                | Some cc \<Rightarrow>
                    if cn_Session cc = sess
                    then s\<lparr>s_clients := put name (cc\<lparr>cn_status := put (st_ID st) st (cn_status cc)\<rparr>) (s_clients s)\<rparr>
                    else s)
      in if \<not> st_OK st
         then s1\<lparr>s_notifier := send now (''reverse_error|'' @ st_ID st @ ''|'' @ name)
                                (ReverseError name (st_Err st)) (s_notifier s1)\<rparr>
         else s1)"

section \<open>The handlers together\<close>

text \<open>The server with the handlers that wait for the end of their session.\<close>

record tunnels =
  t_srv :: server
  t_handlers :: "(nat \<times> string) list"

inductive tun_step :: "tunnels \<Rightarrow> tunnels \<Rightarrow> bool" where
  register: "cn_Session cc \<notin> fst ` set (t_handlers t) \<Longrightarrow> cn_Session cc \<notin> s_closed (t_srv t) \<Longrightarrow>
    tun_step t (t\<lparr>t_srv := register now cc (t_srv t),
                 t_handlers := (cn_Session cc, cn_Name cc) # t_handlers t\<rparr>)"
| peer_closes: "tun_step t (t\<lparr>t_srv := close_session n (t_srv t)\<rparr>)"
| finish: "(n, name) \<in> set (t_handlers t) \<Longrightarrow> n \<in> s_closed (t_srv t) \<Longrightarrow>
    tun_step t (t\<lparr>t_srv := unregister now n name (t_srv t), t_handlers := remove1 (n, name) (t_handlers t)\<rparr>)"
| control: "tun_step t (t\<lparr>t_srv := set_control b n name (t_srv t)\<rparr>)"
| status: "tun_step t (t\<lparr>t_srv := control_status now n name st (t_srv t)\<rparr>)"
| operate: "srv_step (t_srv t) s' \<Longrightarrow> tun_step t (t\<lparr>t_srv := s'\<rparr>)"

text \<open>The table of clients: an entry per name with the name's own session, whose handler is alive,
  and every session still open is the entry of its name.\<close>

definition conn_inv :: "tunnels \<Rightarrow> bool" where
  "conn_inv t \<longleftrightarrow> distinct (keys (s_clients (t_srv t))) \<and> distinct (map fst (t_handlers t))
     \<and> (\<forall>name cc. lookup (s_clients (t_srv t)) name = Some cc \<longrightarrow>
          cn_Name cc = name \<and> (cn_Session cc, name) \<in> set (t_handlers t))
     \<and> (\<forall>n name. (n, name) \<in> set (t_handlers t) \<longrightarrow> n \<notin> s_closed (t_srv t) \<longrightarrow>
          (\<exists>cc. lookup (s_clients (t_srv t)) name = Some cc \<and> cn_Session cc = n))"

lemma close_session_simps [simp]:
  "s_clients (close_session n s) = s_clients s" "s_closed (close_session n s) = insert n (s_closed s)"
  by (simp_all add: close_session_def)

lemma register_simps:
  "s_clients (register now cc s) = put (cn_Name cc) cc (s_clients s)"
  "s_closed (register now cc s) = s_closed s \<union> cn_Session ` set_option (lookup (s_clients s) (cn_Name cc))"
  by (simp_all add: register_def Let_def split: option.split)

lemma unregister_simps:
  "s_clients (unregister now n name s) =
     (case lookup (s_clients s) name of
        None \<Rightarrow> s_clients s
      | Some cur \<Rightarrow> if cn_Session cur = n then del name (s_clients s) else s_clients s)"
  "s_closed (unregister now n name s) = s_closed s"
  by (simp_all add: unregister_def Let_def split: option.split)

lemma conn_inv_same:
  assumes "conn_inv t" and "s_clients s' = s_clients (t_srv t)" and "s_closed (t_srv t) \<subseteq> s_closed s'"
  shows "conn_inv (t\<lparr>t_srv := s'\<rparr>)"
proof -
  have e: "t_srv (t\<lparr>t_srv := s'\<rparr>) = s'" "t_handlers (t\<lparr>t_srv := s'\<rparr>) = t_handlers t" by simp_all
  show ?thesis using assms(1,3) unfolding conn_inv_def e assms(2) by blast
qed

text \<open>The operations of the panel close sessions but leave the table to the handlers.\<close>

lemma unchanged_clients: "unchanged s s' \<Longrightarrow> s_clients s' = s_clients s \<and> s_closed s' = s_closed s"
proof -
  assume "unchanged s s'"
  then obtain fs where "s' = s\<lparr>s_files := fs\<rparr>" unfolding unchanged_def by blast
  then show ?thesis by simp
qed

lemma save_cfg_clients: "save_cfg env s = (s', e) \<Longrightarrow> s_clients s' = s_clients s \<and> s_closed s' = s_closed s"
  using save_cfg_fields(3,7) [of env s s' e] by simp

lemma committed_clients:
  "committed env (with_cfg f s) s' \<Longrightarrow> s_clients s' = s_clients s \<and> s_closed s' = s_closed s"
  using committed_facts(3,4) [of env "with_cfg f s" s'] by simp

lemma SetIPWhitelist_clients:
  assumes "SetIPWhitelist env es s = (s', e)"
  shows "s_clients s' = s_clients s \<and> s_closed s' = s_closed s"
proof (cases "NewACL es")
  case (Inl a)
  with assms show ?thesis by (simp add: SetIPWhitelist_def)
next
  case (Inr a)
  obtain s2 x where sv: "save_cfg env (with_cfg (\<lambda>c. c\<lparr>IPWhitelist := es\<rparr>) s) = (s2, x)" by fastforce
  have "s' = s2 \<or> s' = with_cfg (\<lambda>c. c\<lparr>IPWhitelist := IPWhitelist (s_cfg s)\<rparr>) s2"
    using assms sv Inr by (cases x; simp add: SetIPWhitelist_def Let_def)
  with save_cfg_clients [OF sv] show ?thesis by (elim disjE; simp)
qed

lemma SetIPBlacklist_clients:
  assumes "SetIPBlacklist env es s = (s', e)"
  shows "s_clients s' = s_clients s \<and> s_closed s' = s_closed s"
proof (cases "NewACL es")
  case (Inl a)
  with assms show ?thesis by (simp add: SetIPBlacklist_def)
next
  case (Inr a)
  obtain s2 x where sv: "save_cfg env (with_cfg (\<lambda>c. c\<lparr>IPBlacklist := es\<rparr>) s) = (s2, x)" by fastforce
  have "s' = s2 \<or> s' = with_cfg (\<lambda>c. c\<lparr>IPBlacklist := IPBlacklist (s_cfg s)\<rparr>) s2 \<or> s' = s2\<lparr>s_blVer := s_blVer s2 + 1\<rparr>"
    using assms sv Inr by (cases x; simp add: SetIPBlacklist_def Let_def)
  with save_cfg_clients [OF sv] show ?thesis by (elim disjE; simp)
qed

lemma SetPassword_clients:
  assumes "SetPassword env pw s = (s', e)"
  shows "s_clients s' = s_clients s \<and> s_closed s' = s_closed s"
proof (cases "pw = []")
  case True
  with assms show ?thesis by (simp add: SetPassword_def)
next
  case False
  obtain s2 x where sv: "save_cfg env (with_cfg (\<lambda>c. c\<lparr>Password := pw\<rparr>) s) = (s2, x)" by fastforce
  have "s' = s2 \<or> s' = with_cfg (\<lambda>c. c\<lparr>Password := Password (s_cfg s)\<rparr>) s2"
    using assms sv False by (cases x; simp add: SetPassword_def Let_def)
  with save_cfg_clients [OF sv] show ?thesis by (elim disjE; simp)
qed

lemma AddClient_clients:
  assumes "AddClient env name note s = (s', e)"
  shows "s_clients s' = s_clients s \<and> s_closed s' = s_closed s"
proof (cases "name = [] \<or> list_ex (\<lambda>c. cu_Name c = name) (Clients (s_cfg s))")
  case True
  with assms show ?thesis by (auto simp: AddClient_def Let_def split: if_splits)
next
  case False
  with assms have "save_cfg env (with_cfg (\<lambda>c. c\<lparr>Clients := Clients (s_cfg s) @ [\<lparr>cu_Name = name,
      cu_Token = RandToken (e_rand env), cu_Note = note\<rparr>]\<rparr>) s) = (s', e)"
    by (simp add: AddClient_def Let_def)
  from save_cfg_clients [OF this] show ?thesis by simp
qed

lemma set_notifier_clients [simp]:
  "s_clients (set_notifier u f s) = s_clients s" "s_closed (set_notifier u f s) = s_closed s"
  by (simp_all add: set_notifier_def)

lemma SetNotify_clients:
  assumes "SetNotify env url format s = (s', e)"
  shows "s_clients s' = s_clients s \<and> s_closed s' = s_closed s"
proof (cases "url \<noteq> [] \<and> format \<noteq> ''dingtalk'' \<and> format \<noteq> ''feishu'' \<and> format \<noteq> ''generic''")
  case True
  with assms have "s' = s" by (simp add: SetNotify_def)
  then show ?thesis by simp
next
  case False
  let ?f = "\<lambda>c. c\<lparr>NotifyURL := url, NotifyFormat := format\<rparr>"
  let ?g = "\<lambda>s2. set_notifier (NotifyURL (s_cfg s)) (NotifyFormat (s_cfg s)) (with_cfg (\<lambda>c. c\<lparr>NotifyURL :=
      NotifyURL (s_cfg s), NotifyFormat := NotifyFormat (s_cfg s)\<rparr>) s2)"
  obtain s2 x where sv: "save_cfg env (set_notifier url format (with_cfg ?f s)) = (s2, x)" by fastforce
  have "SetNotify env url format s = (case save_cfg env (set_notifier url format (with_cfg ?f s)) of
      (s2, Some e) \<Rightarrow> (?g s2, Some e) | (s2, None) \<Rightarrow> (s2, None))"
    unfolding SetNotify_def Let_def using False by (simp only: if_False)
  then have "s' = s2 \<or> s' = ?g s2" using assms sv by (cases x) simp_all
  with save_cfg_clients [OF sv] show ?thesis by (elim disjE) simp_all
qed

lemma restoreCfg_clients:
  "s_clients (restoreCfg old cs rs wl bl s) = s_clients s \<and> s_closed (restoreCfg old cs rs wl bl s) = s_closed s"
  by (simp add: restoreCfg_def)

lemma ImportConfig_failed_clients:
  assumes "ImportConfig env inc s = (s', Some e)"
  shows "s_clients s' = s_clients s \<and> s_closed s' = s_closed s"
proof -
  let ?r = "restoreCfg (s_cfg s) (Clients (s_cfg s)) (Rules (s_cfg s)) (IPWhitelist (s_cfg s)) (IPBlacklist (s_cfg s))"
  obtain s2 x where sv: "save_cfg env (with_cfg (import_fields inc) s) = (s2, x)" by fastforce
  have l: "IPWhitelist (import_fields inc c) = IPWhitelist inc" "IPBlacklist (import_fields inc c) = IPBlacklist inc"
    "Clients (import_fields inc c) = Clients inc" "Rules (import_fields inc c) = Rules inc" for c
    by (simp_all add: import_fields_def)
  have "s' = ?r (with_cfg (import_fields inc) s) \<or> s' = ?r s2"
  proof (cases "NewACL (IPWhitelist inc)")
    case (Inl a)
    with assms show ?thesis by (simp add: ImportConfig_def Let_def l)
  next
    case wl: (Inr a)
    show ?thesis
    proof (cases "NewACL (IPBlacklist inc)")
      case (Inl b)
      with wl assms show ?thesis by (simp add: ImportConfig_def Let_def l)
    next
      case bl: (Inr b)
      show ?thesis
      proof (cases "first_bad_rule (Clients inc) (Rules inc)")
        case (Some p)
        with wl bl assms show ?thesis by (cases p) (simp add: ImportConfig_def Let_def l)
      next
        case None
        with wl bl assms sv show ?thesis by (cases x) (simp_all add: ImportConfig_def Let_def l)
      qed
    qed
  qed
  then show ?thesis using restoreCfg_clients save_cfg_clients [OF sv] by (elim disjE) simp_all
qed

text \<open>An import closes exactly the sessions whose name it dropped.\<close>

lemma kick_unlisted_closed:
  "s_closed (kick_unlisted s) = s_closed s \<union>
     {cn_Session cc | name cc. (name, cc) \<in> set (s_clients s) \<and> name \<notin> cu_Name ` set (Clients (s_cfg s))}"
proof -
  let ?f = "\<lambda>s (name, cc). if list_ex (\<lambda>c. cu_Name c = name) (Clients (s_cfg s)) then s
                           else close_session (cn_Session cc) s"
  have gen: "s_closed (foldl ?f s cs) = s_closed s \<union>
     {cn_Session cc | name cc. (name, cc) \<in> set cs \<and> name \<notin> cu_Name ` set (Clients (s_cfg s))}" for cs
  proof (induction cs arbitrary: s)
    case Nil
    then show ?case by simp
  next
    case (Cons c cs)
    obtain name cc where c: "c = (name, cc)" by fastforce
    have cfg: "s_cfg (?f s c) = s_cfg s" by (simp add: c close_session_def)
    have "s_closed (foldl ?f s (c # cs)) = s_closed (foldl ?f (?f s c) cs)" by simp
    also have "\<dots> = s_closed (?f s c) \<union>
       {cn_Session cc | name cc. (name, cc) \<in> set cs \<and> name \<notin> cu_Name ` set (Clients (s_cfg s))}"
      unfolding Cons.IH cfg ..
    finally show ?case using known_client [of name "Clients (s_cfg s)"] by (auto simp: c)
  qed
  show ?thesis unfolding kick_unlisted_def by (rule gen)
qed

lemma ImportConfig_closed:
  assumes "ImportConfig env inc s = (s', None)"
  shows "s_closed s' = s_closed s \<union>
     {cn_Session cc | name cc. (name, cc) \<in> set (s_clients s) \<and> name \<notin> cu_Name ` set (Clients inc)}"
proof -
  from ImportConfig_commits [OF assms] obtain s2 where
    sv: "save_cfg env (with_cfg (import_fields inc) s) = (s2, None)"
    and s': "s' = broadcastRules env (apply_rules env (kick_unlisted
                   (set_notifier (NotifyURL inc) (NotifyFormat inc) s2)))" by blast
  note f = save_cfg_fields [OF sv]
  show ?thesis by (simp add: s' kick_unlisted_closed f) (simp add: import_fields_def)
qed

lemma srv_step_clients:
  "srv_step s s' \<Longrightarrow> s_clients s' = s_clients s \<and> s_closed s \<subseteq> s_closed s'"
proof (induction rule: srv_step.induct)
  case (add env r s s' e)
  then show ?case
    by (cases e) (auto dest!: AddRule_commits committed_clients AddRule_error unchanged_clients)
next
  case (update env rid nr s s' e)
  then show ?case
    by (cases e) (auto dest!: UpdateRule_commits committed_clients UpdateRule_error unchanged_clients)
next
  case (delete env rid s s' e)
  from DeleteRule_effect [OF delete] show ?case by auto
next
  case (enable env rid on s s' e)
  then show ?case
    by (cases e) (auto dest!: SetRuleEnabled_commits committed_clients SetRuleEnabled_error unchanged_clients)
next
  case (delete_client env name s s' e)
  from DeleteClient_effect [OF delete_client] show ?case by auto
next
  case (import env inc s s' e)
  show ?case
  proof (cases e)
    case None
    with import(1) have "ImportConfig env inc s = (s', None)" by simp
    from ImportConfig_effect(3) [OF this] ImportConfig_closed [OF this] show ?thesis by simp
  next
    case (Some a)
    with import(1) ImportConfig_failed_clients show ?thesis by blast
  qed
next
  case (add_client env name nt s s' e)
  then show ?case using AddClient_clients by blast
next
  case (whitelist env entries s s' e)
  then show ?case using SetIPWhitelist_clients by blast
next
  case (blacklist env entries s s' e)
  then show ?case using SetIPBlacklist_clients by blast
next
  case (password env pw s s' e)
  then show ?case using SetPassword_clients by blast
next
  case (notify env url format s s' e)
  then show ?case using SetNotify_clients by blast
qed

section \<open>One open session per name\<close>

lemma conn_inv_put_same:
  assumes "conn_inv t" and cc: "lookup (s_clients (t_srv t)) name = Some cc"
    and "cn_Name cc' = cn_Name cc" "cn_Session cc' = cn_Session cc"
    and s': "s_clients s' = put name cc' (s_clients (t_srv t))" "s_closed s' = s_closed (t_srv t)"
  shows "conn_inv (t\<lparr>t_srv := s'\<rparr>)"
proof -
  have e: "t_srv (t\<lparr>t_srv := s'\<rparr>) = s'" "t_handlers (t\<lparr>t_srv := s'\<rparr>) = t_handlers t" by simp_all
  have l: "lookup (s_clients s') k = (if k = name then Some cc' else lookup (s_clients (t_srv t)) k)" for k
    by (simp add: s')
  have "cn_Name c = k \<and> (cn_Session c, k) \<in> set (t_handlers t)" if "lookup (s_clients s') k = Some c" for k c
    using that assms(1,3,4) cc unfolding l conn_inv_def by (auto split: if_splits)
  moreover have "\<exists>c. lookup (s_clients s') k = Some c \<and> cn_Session c = n"
    if "(n, k) \<in> set (t_handlers t)" "n \<notin> s_closed s'" for n k
  proof -
    from that assms(1) obtain c where "lookup (s_clients (t_srv t)) k = Some c" "cn_Session c = n"
      unfolding conn_inv_def s'(2) by blast
    with cc assms(4) show ?thesis unfolding l by (cases "k = name") auto
  qed
  moreover have "distinct (keys (s_clients s'))" "distinct (map fst (t_handlers t))"
    using assms(1) by (simp_all add: s' conn_inv_def distinct_keys_put)
  ultimately show ?thesis unfolding conn_inv_def e by blast
qed

lemma conn_inv_register:
  assumes inv: "conn_inv t" and new: "cn_Session cc \<notin> fst ` set (t_handlers t)"
    and "cn_Session cc \<notin> s_closed (t_srv t)"
  shows "conn_inv (t\<lparr>t_srv := register now cc (t_srv t), t_handlers := (cn_Session cc, cn_Name cc) # t_handlers t\<rparr>)"
proof -
  let ?s = "t_srv t" and ?h = "t_handlers t" and ?n = "cn_Name cc"
  let ?t = "t\<lparr>t_srv := register now cc ?s, t_handlers := (cn_Session cc, ?n) # ?h\<rparr>"
  have e: "t_srv ?t = register now cc ?s" "t_handlers ?t = (cn_Session cc, ?n) # ?h" by simp_all
  have l: "lookup (s_clients (register now cc ?s)) k = (if k = ?n then Some cc else lookup (s_clients ?s) k)" for k
    by (simp add: register_simps)
  note I = inv [unfolded conn_inv_def]
  have "cn_Name c = k \<and> (cn_Session c, k) \<in> set ((cn_Session cc, ?n) # ?h)"
    if "lookup (s_clients (register now cc ?s)) k = Some c" for k c
    using that I unfolding l by (auto split: if_splits)
  moreover have "\<exists>c. lookup (s_clients (register now cc ?s)) k = Some c \<and> cn_Session c = n"
    if h: "(n, k) \<in> set ((cn_Session cc, ?n) # ?h)" and o: "n \<notin> s_closed (register now cc ?s)" for n k
  proof (cases "(n, k) = (cn_Session cc, ?n)")
    case True
    then show ?thesis by (simp add: l)
  next
    case False
    with h have h': "(n, k) \<in> set ?h" by auto
    from o have o': "n \<notin> s_closed ?s" "n \<notin> cn_Session ` set_option (lookup (s_clients ?s) ?n)"
      by (simp_all add: register_simps)
    from h' o' I obtain c where c: "lookup (s_clients ?s) k = Some c" "cn_Session c = n" by blast
    with o'(2) have "k \<noteq> ?n" by auto
    with c show ?thesis by (simp add: l)
  qed
  moreover have "distinct (keys (s_clients (register now cc ?s)))"
    using I by (simp add: register_simps distinct_keys_put)
  moreover have "distinct (map fst ((cn_Session cc, ?n) # ?h))" using I new by simp
  ultimately show ?thesis unfolding conn_inv_def e by blast
qed

lemma conn_inv_finish:
  assumes inv: "conn_inv t" and h: "(n, name) \<in> set (t_handlers t)" and c: "n \<in> s_closed (t_srv t)"
  shows "conn_inv (t\<lparr>t_srv := unregister now n name (t_srv t), t_handlers := remove1 (n, name) (t_handlers t)\<rparr>)"
proof -
  let ?s = "t_srv t" and ?h = "t_handlers t" and ?s' = "unregister now n name (t_srv t)"
  let ?t = "t\<lparr>t_srv := ?s', t_handlers := remove1 (n, name) ?h\<rparr>"
  have e: "t_srv ?t = ?s'" "t_handlers ?t = remove1 (n, name) ?h" by simp_all
  note I = inv [unfolded conn_inv_def]
  have dh: "distinct ?h" using I by (simp add: distinct_map)
  have mem: "x \<in> set (remove1 (n, name) ?h) \<longleftrightarrow> x \<in> set ?h \<and> x \<noteq> (n, name)" for x
    using dh by simp
  have uniq: "k = name" if "(n, k) \<in> set ?h" for k
    using that h I by (metis distinct_map eq_key_imp_eq_value)
  have l: "lookup (s_clients ?s') k = (case lookup (s_clients ?s) k of
      None \<Rightarrow> None | Some d \<Rightarrow> if k = name \<and> cn_Session d = n then None else Some d)" for k
    by (cases "lookup (s_clients ?s) name") (auto simp: unregister_simps split: option.split)
  have "cn_Name d = k \<and> (cn_Session d, k) \<in> set (remove1 (n, name) ?h)" if "lookup (s_clients ?s') k = Some d" for k d
  proof -
    from that have d: "lookup (s_clients ?s) k = Some d" "\<not> (k = name \<and> cn_Session d = n)"
      unfolding l by (auto split: option.splits if_splits)
    with I have "cn_Name d = k" "(cn_Session d, k) \<in> set ?h" by blast+
    with d(2) mem show ?thesis by auto
  qed
  moreover have "\<exists>d. lookup (s_clients ?s') k = Some d \<and> cn_Session d = m"
    if m: "(m, k) \<in> set (remove1 (n, name) ?h)" "m \<notin> s_closed ?s'" for m k
  proof -
    from m have "(m, k) \<in> set ?h" "m \<notin> s_closed ?s" by (simp_all add: unregister_simps mem)
    with I obtain d where d: "lookup (s_clients ?s) k = Some d" "cn_Session d = m" by blast
    have "m \<noteq> n" using m(2) c by (auto simp: unregister_simps)
    with d show ?thesis unfolding l by simp
  qed
  moreover have "distinct (keys (s_clients ?s'))"
    using I by (auto simp: unregister_simps distinct_keys_del split: option.split)
  moreover have "distinct (map fst (remove1 (n, name) ?h))"
    using I by (simp add: distinct_map inj_on_def)
  ultimately show ?thesis unfolding conn_inv_def e by blast
qed

lemma tun_step_inv: "tun_step t t' \<Longrightarrow> conn_inv t \<Longrightarrow> conn_inv t'"
proof (induction rule: tun_step.induct)
  case (register cc t now)
  then show ?case by (intro conn_inv_register)
next
  case (peer_closes t n)
  then show ?case by (rule conn_inv_same) auto
next
  case (finish n name t now)
  then show ?case by (intro conn_inv_finish)
next
  case (control t b n name)
  show ?case
  proof (cases "\<exists>cc. lookup (s_clients (t_srv t)) name = Some cc \<and> cn_Session cc = n")
    case True
    then obtain cc where cc: "lookup (s_clients (t_srv t)) name = Some cc" "cn_Session cc = n" by blast
    show ?thesis
      by (rule conn_inv_put_same [OF control cc(1), of "cc\<lparr>cn_cs := b\<rparr>"])
         (simp_all add: set_control_def cc)
  next
    case False
    then have "set_control b n name (t_srv t) = t_srv t" by (auto simp: set_control_def split: option.split)
    with control show ?thesis by simp
  qed
next
  case (status t now n name st)
  show ?case
  proof (cases "\<exists>cc. lookup (s_clients (t_srv t)) name = Some cc \<and> cn_Session cc = n")
    case True
    then obtain cc where cc: "lookup (s_clients (t_srv t)) name = Some cc" "cn_Session cc = n" by blast
    show ?thesis
      by (rule conn_inv_put_same [OF status cc(1), of "cc\<lparr>cn_status := put (st_ID st) st (cn_status cc)\<rparr>"])
         (simp_all add: control_status_def cc Let_def)
  next
    case False
    then have "s_clients (control_status now n name st (t_srv t)) = s_clients (t_srv t)"
      "s_closed (control_status now n name st (t_srv t)) = s_closed (t_srv t)"
      by (auto simp: control_status_def Let_def split: option.split)
    with status show ?thesis by (intro conn_inv_same) simp_all
  qed
next
  case (operate t s')
  then show ?case using srv_step_clients by (intro conn_inv_same) blast+
qed

lemma conn_inv_sessions:
  assumes "conn_inv t"
  shows "sessions_ok (t_srv t)"
proof -
  let ?m = "s_clients (t_srv t)"
  have "distinct ?m" using assms by (simp add: conn_inv_def distinct_map)
  moreover have "inj_on (\<lambda>(n, cc). cn_Session cc) (set ?m)"
  proof (rule inj_onI, clarify)
    fix a c b d
    assume ab: "(a, c) \<in> set ?m" "(b, d) \<in> set ?m" and eq: "cn_Session c = cn_Session d"
    have "distinct (keys ?m)" using assms by (simp add: conn_inv_def)
    then have l: "lookup ?m a = Some c" "lookup ?m b = Some d" using ab by (auto intro: in_lookup_Some)
    have hs: "distinct (map fst (t_handlers t))" using assms unfolding conn_inv_def by blast
    have "(cn_Session c, a) \<in> set (t_handlers t)" "(cn_Session d, b) \<in> set (t_handlers t)"
      using l assms unfolding conn_inv_def by blast+
    then have "a = b" using hs eq by (metis eq_key_imp_eq_value)
    with l show "a = b \<and> c = d" by simp
  qed
  ultimately show ?thesis by (simp add: sessions_ok_def distinct_map)
qed

inductive tun_reach :: "tunnels \<Rightarrow> tunnels \<Rightarrow> bool" for t0 where
  start: "tun_reach t0 t0"
| step: "tun_reach t0 t \<Longrightarrow> tun_step t t' \<Longrightarrow> tun_reach t0 t'"

lemma tun_reach_inv: "tun_reach t0 t \<Longrightarrow> conn_inv t0 \<Longrightarrow> conn_inv t"
  by (induction rule: tun_reach.induct) (auto intro: tun_step_inv)

lemma conn_inv_start: "s_clients s = [] \<Longrightarrow> conn_inv \<lparr>t_srv = s, t_handlers = []\<rparr>"
  by (simp add: conn_inv_def)

end
