(* ===== verification/ServerProperties.thy ===== *)
theory ServerProperties
  imports UdpRelay Admission Backends Tunnel
begin

text \<open>
  The properties of the server: the panel's operations, the listeners, the data paths and the
  tunnel. The witnesses run on the small configuration defined first.
\<close>

section \<open>A concrete server\<close>

definition demo_os :: os where
  "demo_os h p n = (if (p, n) \<in> set h then Some ''address already in use'' else None)"

definition demo_env :: env where
  "demo_env = \<lparr>e_now = 0, e_enc = (\<lambda>c. ''cfg''), e_io = no_faults, e_os = demo_os, e_ord = (\<lambda>m. m),
     e_rand = replicate 16 1, e_written = (\<lambda>n rs. True)\<rparr>"

definition demo_rule :: rule where
  "demo_rule = \<lparr>ID = ''r1'', Name = ''web'', Side = ''server'', Proto = ''tcp'', Listen = 8080, Client = ''c1'',
     Target = ''a:1,b:2'', AllowFrom = [], MaxMbps = 0, MaxConns = 0, IdleMin = 0, ProxyProto = 0, Enabled = True\<rparr>"

definition demo_cfg :: server_cfg where
  "demo_cfg = \<lparr>TunnelAddr = ''0.0.0.0:7000'', PanelAddr = ''0.0.0.0:7500'', Password = ''pw'', NoAuth = False,
     PanelPrefix = ''p'', IPWhitelist = [], Secret = ''k'', NoTLS = True, TLSCert = [], TLSKey = [],
     LogFile = [], NotifyURL = [], NotifyFormat = [], IPBlacklist = [],
     Clients = [\<lparr>cu_Name = ''c1'', cu_Token = ''t1'', cu_Note = []\<rparr>], Rules = [demo_rule]\<rparr>"

definition demo_runner :: runner where
  "demo_runner = \<lparr>rn_proto = ''tcp'', rn_listen = 8080, rn_target = ''a:1,b:2'', rn_client = ''c1'',
     rn_loop = AcceptTCP, rn_rule = demo_rule\<rparr>"

definition demo_conn :: client_conn where
  "demo_conn = \<lparr>cn_Name = ''c1'', cn_Addr = ''10.0.0.7:5000'', cn_Version = [], cn_Session = 1, cn_Since = 0,
     cn_cs = True, cn_status = []\<rparr>"

definition demo_server :: server where
  "demo_server = \<lparr>s_path = ''server.json'', s_files = (\<lambda>p. None), s_fingerprint = None, s_cfg = demo_cfg,
     s_clients = [(''c1'', demo_conn)], s_runners = [(''r1'', demo_runner)], s_stats = [], s_hist = [],
     s_health = [], s_notifier = newNotifier [] [], s_authFails = [], s_blVer = 0, s_rr = 0, s_started = 0,
     s_stopping = False, s_closed = {}, s_pushes = []\<rparr>"

definition demo_faulty :: env where
  "demo_faulty = demo_env\<lparr>e_io := no_faults\<lparr>io_rename := Some (IOFailed ''disk'')\<rparr>\<rparr>"

lemma demo_targets: "ParseTargets ''a:1,b:2'' = [''a:1'', ''b:2'']"
  by code_simp

lemma demo_split: "SplitHostPort ''a:1'' \<noteq> None" "SplitHostPort ''b:2'' \<noteq> None"
  by code_simp+

lemma demo_rule_ok: "rule_ok (demo_rule\<lparr>AllowFrom := [], Listen := n\<rparr>) (Clients demo_cfg)"
  if "n \<in> {1..65535}"
  using that demo_split by (simp add: rule_ok_def demo_rule_def demo_cfg_def demo_targets)

lemma demo_env_ok: "go_order (e_ord demo_env)" "exclusive (e_os demo_env)" "save_ok demo_env" "\<not> save_ok demo_faulty"
  "e_rand demo_env \<noteq> []"
  by (simp_all add: go_order_def exclusive_def demo_env_def demo_os_def save_ok_def no_faults_def demo_faulty_def)

lemma demo_inv: "server_inv demo_server"
proof -
  have "rule_ok (demo_rule\<lparr>AllowFrom := [], Listen := 8080\<rparr>) (Clients demo_cfg)" by (rule demo_rule_ok) simp
  then have "rule_ok demo_rule (Clients demo_cfg)" by (simp add: demo_rule_def)
  then have "rules_inv demo_cfg"
    by (simp add: rules_inv_def demo_cfg_def ports_ok_def ids_ok_def demo_rule_def)
  moreover have "runners_inv demo_server"
    by (simp add: runners_inv_def demo_server_def demo_cfg_def demo_runner_def demo_rule_def sameAs_def wanted_def SideOf_def)
  moreover have "notif_inv demo_server"
    by (simp add: notif_inv_def demo_server_def newNotifier_def norm_format_def demo_cfg_def)
  moreover have "debounce_inv (s_notifier demo_server)" by (simp add: demo_server_def debounce_inv_new)
  ultimately show ?thesis by (simp add: server_inv_def demo_server_def)
qed


section \<open>Rules\<close>

text \<open>C8: A rule passes validation exactly when it satisfies the documented conditions: known protocol
  and side, a port in range, a parseable access list, limits and timeouts in range, PROXY only for
  TCP, at most 16 well-formed targets and a registered client.\<close>

theorem validateRule_complete: "validateRule r clients = None \<longleftrightarrow> rule_ok r clients"
  by (rule validateRule_iff)


text \<open>C9: An operation on rules that fails, for whatever reason, leaves the whole server as it was:
  configuration, listeners, clients, and the configuration file.\<close>

theorem failed_rule_change_undone:
  assumes "res = AddRule env r s \<or> res = UpdateRule env rid r s \<or> res = SetRuleEnabled env rid on s"
    and "res = (s', Some e)"
  shows "unchanged s s'"
  using assms AddRule_error UpdateRule_error SetRuleEnabled_error by metis

theorem failed_rule_change_undone_witness:
  "\<exists>s' e. SetRuleEnabled demo_faulty ''r1'' False demo_server = (s', Some e) \<and> unchanged demo_server s'"
proof -
  have "snd (SetRuleEnabled demo_faulty ''r1'' False demo_server) \<noteq> None"
    using SetRuleEnabled_cases [of demo_faulty "''r1''" False demo_server] demo_env_ok(4) by simp
  then obtain s' e where r: "SetRuleEnabled demo_faulty ''r1'' False demo_server = (s', Some e)"
    by (metis option.exhaust prod.collapse)
  from failed_rule_change_undone [OF _ r] r show ?thesis by blast
qed

text \<open>C10: An import that fails restores everything it had overwritten, the notifier included.\<close>

theorem failed_import_undone:
  assumes "ImportConfig env inc s = (s', Some e)" and "notif_inv s"
  shows "unchanged s s'"
  using assms by (rule ImportConfig_error)

theorem failed_import_undone_witness:
  "\<exists>s' e. ImportConfig demo_env (demo_cfg\<lparr>IPBlacklist := [''x'']\<rparr>) demo_server = (s', Some e) \<and> unchanged demo_server s'"
proof -
  have "NewACL [''x''] = Inl (BadEntry ''x'')"
    by (simp add: NewACL_def ParsePrefix_def split_last_def ParseAddr_def)
  then have "snd (ImportConfig demo_env (demo_cfg\<lparr>IPBlacklist := [''x'']\<rparr>) demo_server) \<noteq> None"
    by (simp add: ImportConfig_def import_fields_def demo_cfg_def NewACL_def Let_def)
  then obtain s' e where r: "ImportConfig demo_env (demo_cfg\<lparr>IPBlacklist := [''x'']\<rparr>) demo_server = (s', Some e)"
    by (metis option.exhaust prod.collapse)
  have "notif_inv demo_server" using demo_inv by (rule server_inv_notif)
  from failed_import_undone [OF r this] r show ?thesis by blast
qed







text \<open>An edit that keeps protocol, port, target and client leaves the old listener running with
  the rule it was started for, so a new access list, rate, connection limit, idle timeout or PROXY
  setting does not reach it.\<close>

theorem edit_misses_listener:
  assumes "UpdateRule env rid nr s = (s', None)" and "server_inv s" and "go_order (e_ord env)"
    and "lookup (s_runners s) rid = Some rn"
    and "Proto nr = rn_proto rn" "Listen nr = rn_listen rn" "Target nr = rn_target rn"
    "Client nr = rn_client rn" "SideOf nr = ''server''"
  shows "lookup (s_runners s') rid = Some rn"
  by (rule UpdateRule_keeps_listener [OF assms])

theorem edit_misses_listener_witness:
  "\<exists>s'. UpdateRule demo_env ''r1'' (demo_rule\<lparr>MaxConns := 5\<rparr>) demo_server = (s', None)
     \<and> (\<exists>rn. lookup (s_runners s') ''r1'' = Some rn \<and> MaxConns (rn_rule rn) = 0)"
proof -
  let ?r = "demo_rule\<lparr>MaxConns := 5\<rparr>"
  have "rule_ok (demo_rule\<lparr>AllowFrom := [], Listen := 8080\<rparr>) (Clients demo_cfg)" by (rule demo_rule_ok) simp
  then have ok: "rule_ok ?r (Clients demo_cfg)" by (simp add: demo_rule_def rule_ok_def)
  have f: "find_index (\<lambda>r. ID r = ''r1'') (Rules (s_cfg demo_server)) = Some 0"
    by (simp add: demo_server_def demo_cfg_def demo_rule_def)
  have "snd (UpdateRule demo_env ''r1'' ?r demo_server) = None"
    unfolding UpdateRule_cases using f ok demo_env_ok(3)
    by (simp add: other_ports_def demo_server_def) (simp add: demo_cfg_def)
  then obtain s' where u: "UpdateRule demo_env ''r1'' ?r demo_server = (s', None)" by (metis prod.collapse)
  have "lookup (s_runners demo_server) ''r1'' = Some demo_runner" by (simp add: demo_server_def)
  from edit_misses_listener [OF u demo_inv demo_env_ok(1) this]
  have "lookup (s_runners s') ''r1'' = Some demo_runner"
    by (simp add: demo_runner_def demo_rule_def SideOf_def)
  with u show ?thesis by (auto simp: demo_runner_def demo_rule_def)
qed



end
