(* ===== verification/Views.thy ===== *)
theory Views
  imports Tunnel
begin

text \<open>
  What the panel reads from the server (\<open>server/state.go\<close>): the views of rules and clients, the
  overview, the settings, and the decision who may use the panel at all (\<open>IPAllowed\<close>). The order
  \<open>sort.Slice\<close> leaves and the formatting of times are parameters.
\<close>

section \<open>Rules and clients\<close>

record rule_view =
  v_Rule :: rule
  v_BytesIn :: int
  v_BytesOut :: int
  v_Conns :: int
  v_ConnsTotal :: int
  v_Running :: bool
  v_Note :: string
  v_Health :: string
  v_HealthErr :: string

definition view_stats :: "server \<Rightarrow> rule_view \<Rightarrow> rule_view" where
  "view_stats s v =
     (case lookup (s_stats s) (ID (v_Rule v)) of
        None \<Rightarrow> v
      | Some st \<Rightarrow> v\<lparr>v_BytesIn := BytesIn st, v_BytesOut := BytesOut st, v_Conns := Conns st,
                      v_ConnsTotal := ConnsTotal st\<rparr>)"

definition view_health :: "server \<Rightarrow> rule_view \<Rightarrow> rule_view" where
  "view_health s v =
     (if Proto (v_Rule v) = ''tcp'' then
        (case lookup (s_health s) (ID (v_Rule v)) of
           None \<Rightarrow> v
         | Some h \<Rightarrow> if he_OK h then v\<lparr>v_Health := ''ok''\<rparr>
                     else v\<lparr>v_Health := ''fail'', v_HealthErr := he_Err h\<rparr>)
      else v)"

definition view_running :: "server \<Rightarrow> rule_view \<Rightarrow> rule_view" where
  "view_running s v =
     (let r = v_Rule v in
      if SideOf r = ''server'' then v\<lparr>v_Running := (lookup (s_runners s) (ID r) \<noteq> None)\<rparr>
      else (case lookup (s_clients s) (Client r) of
              None \<Rightarrow> v
            | Some cc \<Rightarrow>
                (case lookup (cn_status cc) (ID r) of
                   None \<Rightarrow> v\<lparr>v_Running := False\<rparr>
                 | Some st \<Rightarrow>
                     (let v1 = v\<lparr>v_Running := (Enabled r \<and> st_OK st)\<rparr> in
                      if \<not> st_OK st then v1\<lparr>v_Note := st_Err st\<rparr> else v1))))"

definition view_of :: "server \<Rightarrow> rule \<Rightarrow> rule_view" where
  "view_of s r =
     view_running s (view_health s (view_stats s
       \<lparr>v_Rule = r, v_BytesIn = 0, v_BytesOut = 0, v_Conns = 0, v_ConnsTotal = 0, v_Running = False,
        v_Note = [], v_Health = [], v_HealthErr = []\<rparr>))"

definition ListRules :: "(rule_view list \<Rightarrow> rule_view list) \<Rightarrow> server \<Rightarrow> rule_view list" where
  "ListRules srt s = srt (map (view_of s) (Rules (s_cfg s)))"

text \<open>What \<open>sort.Slice\<close> guarantees: the same elements, by port; the order of equal ports is open.\<close>

definition sorts_by_port :: "(rule_view list \<Rightarrow> rule_view list) \<Rightarrow> bool" where
  "sorts_by_port srt \<longleftrightarrow>
     (\<forall>vs. mset (srt vs) = mset vs \<and> sorted (map (\<lambda>v. Listen (v_Rule v)) (srt vs)))"

record client_view =
  cv_Name :: string
  cv_Token :: string
  cv_Note :: string
  cv_Online :: bool
  cv_Addr :: string
  cv_Since :: string
  cv_Version :: string

definition client_view_of :: "(int \<Rightarrow> string) \<Rightarrow> server \<Rightarrow> client_user \<Rightarrow> client_view" where
  "client_view_of fmt s c =
     (let v = \<lparr>cv_Name = cu_Name c, cv_Token = cu_Token c, cv_Note = cu_Note c, cv_Online = False,
               cv_Addr = [], cv_Since = [], cv_Version = []\<rparr>
      in case lookup (s_clients s) (cu_Name c) of
           None \<Rightarrow> v
         | Some cc \<Rightarrow> v\<lparr>cv_Online := True, cv_Addr := cn_Addr cc, cv_Since := fmt (cn_Since cc),
                         cv_Version := cn_Version cc\<rparr>)"

definition ListClients :: "(int \<Rightarrow> string) \<Rightarrow> server \<Rightarrow> client_view list" where
  "ListClients fmt s = map (client_view_of fmt s) (Clients (s_cfg s))"

record overview =
  ov_started :: string
  ov_uptime :: string
  ov_tunnel_addr :: string
  ov_panel_addr :: string
  ov_clients :: nat
  ov_clients_online :: nat
  ov_rules :: nat
  ov_no_auth :: bool
  ov_tls :: bool
  ov_tls_fingerprint :: string

text \<open>\<open>Overview\<close>; \<open>dur\<close> formats the rounded uptime.\<close>

definition Overview :: "(int \<Rightarrow> string) \<Rightarrow> (int \<Rightarrow> string) \<Rightarrow> int \<Rightarrow> server \<Rightarrow> overview" where
  "Overview fmt dur now s =
     (let online = foldl (\<lambda>n c. if lookup (s_clients s) (cu_Name c) \<noteq> None then n + 1 else n) 0 (Clients (s_cfg s))
      in \<lparr>ov_started = fmt (s_started s), ov_uptime = dur (time_sub now (s_started s)),
          ov_tunnel_addr = TunnelAddr (s_cfg s), ov_panel_addr = PanelAddr (s_cfg s),
          ov_clients = length (Clients (s_cfg s)), ov_clients_online = online,
          ov_rules = length (Rules (s_cfg s)), ov_no_auth = NoAuth (s_cfg s),
          ov_tls = (\<not> NoTLS (s_cfg s)), ov_tls_fingerprint = TlsFingerprint s\<rparr>)"

definition get_IPWhitelist :: "server \<Rightarrow> string list" where
  "get_IPWhitelist s = IPWhitelist (s_cfg s)"

definition get_IPBlacklist :: "server \<Rightarrow> string list" where
  "get_IPBlacklist s = IPBlacklist (s_cfg s)"

definition CheckPassword :: "server \<Rightarrow> string \<Rightarrow> bool" where
  "CheckPassword s pw \<longleftrightarrow> Password (s_cfg s) = pw"

definition NotifySettings :: "server \<Rightarrow> string \<times> string" where
  "NotifySettings s = notifier_get (s_notifier s)"

definition NotifyTest :: "int \<Rightarrow> int option \<Rightarrow> server \<Rightarrow> server \<times> send_error option" where
  "NotifyTest now answer s =
     (let (n, e) = sendNow now answer TestNotice (s_notifier s) in (s\<lparr>s_notifier := n\<rparr>, e))"

section \<open>Who may use the panel\<close>

text \<open>\<open>ifaces\<close> is \<open>net.InterfaceAddrs\<close>: the addresses of the host, or \<open>None\<close> for an error.\<close>

definition own_address :: "bytes list option \<Rightarrow> addr \<Rightarrow> bool" where
  "own_address ifaces ip =
     (case ifaces of
        None \<Rightarrow> False
      | Some bs \<Rightarrow> list_ex (\<lambda>b. (length b = 4 \<or> length b = 16) \<and> Unmap (AddrFromSlice b) = ip) bs)"

fun whitelisted :: "string list \<Rightarrow> addr \<Rightarrow> bool" where
  "whitelisted [] ip = False"
| "whitelisted (e # es) ip =
     (case ParsePrefix e of
        Some p \<Rightarrow> if Contains p ip then True else whitelisted es ip
      | None \<Rightarrow>
          (case ParseAddr e of
             Some a \<Rightarrow> if Unmap a = ip then True else whitelisted es ip
           | None \<Rightarrow> whitelisted es ip))"

definition client_address :: "server \<Rightarrow> addr \<Rightarrow> bool" where
  "client_address s ip =
     list_ex (\<lambda>(k, cc). case ParseAddrPort (cn_Addr cc) of None \<Rightarrow> False | Some (a, n) \<Rightarrow> Unmap a = ip) (s_clients s)"

definition IPAllowed :: "bytes list option \<Rightarrow> server \<Rightarrow> string \<Rightarrow> bool" where
  "IPAllowed ifaces s ipStr =
     (case ParseAddr ipStr of
        None \<Rightarrow> False
      | Some ip0 \<Rightarrow>
          (let ip = Unmap ip0 in
           if IsLoopback ip then True
           else if compile_list (IPBlacklist (s_cfg s)) \<noteq> None
                \<and> Allows (compile_list (IPBlacklist (s_cfg s))) ip then False
           else if own_address ifaces ip then True
           else if whitelisted (IPWhitelist (s_cfg s)) ip then True
           else client_address s ip))"

lemma whitelisted_iff: "whitelisted es (Unmap ip) \<longleftrightarrow> (\<exists>e \<in> set es. entry_matches e ip)"
  by (induction es) (auto simp: entry_matches_def split: option.splits)

lemma listed_Unmap [simp]: "listed es (Unmap ip) = listed es ip"
  by (simp only: listed_def entry_matches_def Unmap_idem)

text \<open>The decision: loopback always, the blacklist before everything else, then the three ways in.\<close>

lemma IPAllowed_iff:
  "IPAllowed ifaces s ipStr \<longleftrightarrow>
     (\<exists>ip. ParseAddr ipStr = Some ip
        \<and> (IsLoopback (Unmap ip)
           \<or> (\<not> listed (IPBlacklist (s_cfg s)) ip
              \<and> (own_address ifaces (Unmap ip)
                 \<or> (\<exists>e \<in> set (IPWhitelist (s_cfg s)). entry_matches e ip)
                 \<or> client_address s (Unmap ip)))))"
proof (cases "ParseAddr ipStr")
  case None
  then show ?thesis by (simp add: IPAllowed_def)
next
  case (Some ip)
  have b: "compile_list (IPBlacklist (s_cfg s)) \<noteq> None \<and> Allows (compile_list (IPBlacklist (s_cfg s))) (Unmap ip)
      \<longleftrightarrow> listed (IPBlacklist (s_cfg s)) ip"
    using compile_list_hits [of "IPBlacklist (s_cfg s)" "Unmap ip"] by simp
  show ?thesis
    unfolding IPAllowed_def Some option.case Let_def b whitelisted_iff by auto
qed

text \<open>A connected client's own address is let in, unless it is blacklisted.\<close>

lemma client_address_online:
  assumes "(name, cc) \<in> set (s_clients s)" and "ParseAddrPort (cn_Addr cc) = Some (a, n)"
  shows "client_address s (Unmap a)"
  using assms by (force simp: client_address_def list_ex_iff)

section \<open>What the views show\<close>

lemma view_of_rule [simp]: "v_Rule (view_of s r) = r"
  by (simp add: view_of_def view_running_def view_health_def view_stats_def Let_def split: option.split)

lemma ListRules_same: "sorts_by_port srt \<Longrightarrow> mset (map v_Rule (ListRules srt s)) = mset (Rules (s_cfg s))"
  by (simp add: ListRules_def sorts_by_port_def multiset.map_comp comp_def)

lemma ListRules_sorted: "sorts_by_port srt \<Longrightarrow> sorted (map (\<lambda>v. Listen (v_Rule v)) (ListRules srt s))"
  by (simp add: ListRules_def sorts_by_port_def)

lemma view_of_running:
  "v_Running (view_of s r) \<longleftrightarrow>
     (if SideOf r = ''server'' then lookup (s_runners s) (ID r) \<noteq> None
      else Enabled r \<and> (\<exists>cc st. lookup (s_clients s) (Client r) = Some cc
             \<and> lookup (cn_status cc) (ID r) = Some st \<and> st_OK st))"
  by (simp add: view_of_def view_running_def view_health_def view_stats_def Let_def split: option.split)

lemma online_count:
  "ov_clients_online (Overview fmt dur now s) =
     length (filter cv_Online (ListClients fmt s))"
proof -
  have v: "cv_Online (client_view_of fmt s c) \<longleftrightarrow> lookup (s_clients s) (cu_Name c) \<noteq> None" for c
    by (simp add: client_view_of_def Let_def split: option.split)
  have f: "foldl (\<lambda>n c. if P c then n + 1 else n) k xs = k + length (filter P xs)" for P k and xs :: "client_user list"
    by (induction xs arbitrary: k) simp_all
  show ?thesis
    unfolding Overview_def Let_def overview.simps f ListClients_def filter_map length_map
    by (simp add: comp_def v)
qed

text \<open>A rule the server listens for is shown as running exactly while its listener serves it.\<close>

lemma listening_view:
  assumes inv: "server_inv s" and "listening s" and r: "r \<in> set (Rules (s_cfg s))" and side: "SideOf r = ''server''"
  shows "v_Running (view_of s r) \<longleftrightarrow> Enabled r"
proof
  assume "Enabled r"
  with side have "wanted r" by (simp add: wanted_def)
  with assms(2) r have "lookup (s_runners s) (ID r) \<noteq> None" unfolding listening_def by fastforce
  with side show "v_Running (view_of s r)" by (simp add: view_of_running)
next
  assume "v_Running (view_of s r)"
  with side obtain rn where "lookup (s_runners s) (ID r) = Some rn" by (auto simp: view_of_running)
  moreover from inv have "runners_inv s" by (simp add: server_inv_def)
  ultimately obtain q where q: "q \<in> set (Rules (s_cfg s))" "ID q = ID r" "wanted q"
    unfolding runners_inv_def by blast
  from inv have "distinct (map ID (Rules (s_cfg s)))" by (simp add: server_inv_def rules_inv_def ids_ok_def)
  with q(1,2) r have "q = r" by (metis distinct_map inj_onD)
  with q(3) show "Enabled r" by (simp add: wanted_def)
qed

end
