(* ===== verification/TrafficProperties.thy ===== *)
theory TrafficProperties
  imports ServerProperties Views
begin

text \<open>
  The properties of the server's traffic: who gets in, how many, where the answers go, and how the
  tunnel, its lockout and the notifications behave.
\<close>

section \<open>A concrete relay\<close>

definition demo_udp_rule :: rule where
  "demo_udp_rule = demo_rule\<lparr>Proto := ''udp'', MaxConns := 1\<rparr>"

definition demo_visitor :: udp_addr where
  "demo_visitor = \<lparr>IP = [10, 0, 0, 8], Port = 80\<rparr>"

definition demo_net :: net where
  "demo_net = \<lparr>n_dial = (\<lambda>i t. Inl []), n_write = (\<lambda>c b. True), n_open = (\<lambda>n. Inr 5), n_header = (\<lambda>st h. None)\<rparr>"

lemma demo_key: "udp_key demo_visitor \<noteq> ''gone''"
proof (rule notI)
  assume "udp_key demo_visitor = ''gone''"
  moreover have "CHR '':'' \<in> set (udp_key demo_visitor)" by (simp add: udp_key_def JoinHostPort_def)
  ultimately show False by simp
qed

lemma demo_udp_packet:
  "\<exists>t b. tunnel_packet demo_net demo_server demo_udp_rule 0 demo_visitor [1] (tunnel_start demo_server demo_udp_rule)
     = (t, Some (5, b))"
  by (simp add: tunnel_packet_def tunnel_start_def start_listener_def refresh_bl_def denied_def compile_list_def
      NewACL_def demo_server_def demo_cfg_def demo_udp_rule_def demo_rule_def tunnel_admit_def ensure_stream_def
      openStreamTo_def demo_net_def demo_conn_def WriteUDPPacket_def Let_def)

section \<open>Who gets in\<close>

text \<open>C15: After a successful change of the blacklist, the next connection to any running listener is
  judged by the new list: a listed address gets in only from loopback, and the rule's own access list
  applies to the others.\<close>

theorem blacklist_takes_effect:
  assumes "SetIPBlacklist env es s = (s', None)"
    and "ls_blVer l \<le> s_blVer s" and "s_blVer s \<noteq> - 1" and "ls_acl l = compile_list (AllowFrom r)"
  shows "snd (accept_one s' remote l) \<longleftrightarrow>
     (\<exists>ip. visitor_ip remote = Some ip \<and> (listed es ip \<longrightarrow> IsLoopback ip)
         \<and> (unrestricted (AllowFrom r) \<or> listed (AllowFrom r) ip))"
proof -
  have "s_blVer s < s_blVer s + 1"
    using assms(3) inc_less_eq_self_iff_eq [of "s_blVer s"] by (simp flip: not_le)
  with assms(2) have "ls_blVer l \<noteq> s_blVer s + 1" by auto
  note st = SetIPBlacklist_in_step [OF assms(1) this]
  have "IPBlacklist (s_cfg s') = es"
    using SetIPBlacklist_commits [OF assms(1)] by (auto dest: save_cfg_fields(1))
  with accept_one_current [OF st assms(4)] show ?thesis by simp
qed

theorem blacklist_takes_effect_witness:
  "\<exists>s'. SetIPBlacklist demo_env [''10.0.0.9''] demo_server = (s', None)
     \<and> \<not> snd (accept_one s' ''10.0.0.9:80'' (start_listener demo_server demo_rule))
     \<and> snd (accept_one s' ''10.0.0.8:80'' (start_listener demo_server demo_rule))"
proof -
  have ok: "NewACL [''10.0.0.9''] = Inr (Some \<lparr>prefixes = [], addrs = [V4 0x0A000009]\<rparr>)"
    by (simp add: NewACL_def parse_defs Unmap_def)
  then obtain s' where s': "SetIPBlacklist demo_env [''10.0.0.9''] demo_server = (s', None)"
    by (auto simp: SetIPBlacklist_def save_cfg_def save_def demo_env_def no_faults_def Let_def)
  have ips: "visitor_ip ''10.0.0.9:80'' = Some (V4 0x0A000009)" "visitor_ip ''10.0.0.8:80'' = Some (V4 0x0A000008)"
    by (simp_all add: visitor_ip_def parse_defs)
  have l: "listed [''10.0.0.9''] (V4 0x0A000009)" "\<not> listed [''10.0.0.9''] (V4 0x0A000008)"
    by (simp_all add: listed_def entry_ok_def entry_matches_def parse_defs Unmap_def)
  note e = blacklist_takes_effect [OF s', of "start_listener demo_server demo_rule" demo_rule]
  have "snd (accept_one s' rem (start_listener demo_server demo_rule)) \<longleftrightarrow>
     (\<exists>ip. visitor_ip rem = Some ip \<and> (listed [''10.0.0.9''] ip \<longrightarrow> IsLoopback ip)
         \<and> (unrestricted (AllowFrom demo_rule) \<or> listed (AllowFrom demo_rule) ip))" for rem
    by (rule e) (simp_all add: start_listener_def demo_server_def)
  then have "snd (accept_one s' rem (start_listener demo_server demo_rule)) \<longleftrightarrow>
     (\<exists>ip. visitor_ip rem = Some ip \<and> (listed [''10.0.0.9''] ip \<longrightarrow> IsLoopback ip))" for rem
    by (simp add: unrestricted_def demo_rule_def)
  with s' ips l show ?thesis by (auto simp: IsLoopback_def)
qed

text \<open>An import replaces the blacklist without telling the listeners: one that was up to date keeps
  deciding by the old list.\<close>

theorem import_keeps_old_blacklist:
  assumes "ImportConfig env inc s = (s', None)" and "ls_blVer l = s_blVer s"
    and "ls_bl l = compile_list (IPBlacklist (s_cfg s))" and "ls_acl l = compile_list (AllowFrom r)"
  shows "snd (accept_one s' remote l) \<longleftrightarrow>
     (\<exists>ip. visitor_ip remote = Some ip \<and> (listed (IPBlacklist (s_cfg s)) ip \<longrightarrow> IsLoopback ip)
         \<and> (unrestricted (AllowFrom r) \<or> listed (AllowFrom r) ip))"
  using ImportConfig_stale [OF assms(1,2)] assms(3,4) visitorAllowed_iff
  by (simp add: accept_one_def)

theorem import_keeps_old_blacklist_witness:
  "\<exists>s'. ImportConfig demo_env (demo_cfg\<lparr>IPBlacklist := [''10.0.0.9'']\<rparr>) demo_server = (s', None)
     \<and> snd (accept_one s' ''10.0.0.9:80'' (start_listener demo_server demo_rule))"
proof -
  have acl: "\<exists>a. NewACL [''10.0.0.9''] = Inr a" "NewACL [] = Inr None"
    by (simp_all add: NewACL_def parse_defs)
  have "rule_ok (demo_rule\<lparr>AllowFrom := [], Listen := 8080\<rparr>) (Clients demo_cfg)" by (rule demo_rule_ok) simp
  then have "first_bad_rule (Clients demo_cfg) [demo_rule] = None"
    by (simp add: demo_rule_def validateRule_complete [symmetric])
  moreover have "Clients demo_cfg = Clients (demo_cfg\<lparr>IPBlacklist := [''10.0.0.9'']\<rparr>)" by simp
  ultimately have "\<exists>s'. ImportConfig demo_env (demo_cfg\<lparr>IPBlacklist := [''10.0.0.9'']\<rparr>) demo_server = (s', None)"
    using acl
    by (auto simp: ImportConfig_def import_fields_def demo_cfg_def save_cfg_def save_def demo_env_def no_faults_def Let_def)
  then obtain s' where s': "ImportConfig demo_env (demo_cfg\<lparr>IPBlacklist := [''10.0.0.9'']\<rparr>) demo_server = (s', None)"
    by blast
  have "visitor_ip ''10.0.0.9:80'' = Some (V4 0x0A000009)" by (simp add: visitor_ip_def parse_defs)
  moreover have "snd (accept_one s' ''10.0.0.9:80'' (start_listener demo_server demo_rule)) \<longleftrightarrow>
     (\<exists>ip. visitor_ip ''10.0.0.9:80'' = Some ip \<and> (listed (IPBlacklist (s_cfg demo_server)) ip \<longrightarrow> IsLoopback ip)
         \<and> (unrestricted (AllowFrom demo_rule) \<or> listed (AllowFrom demo_rule) ip))"
    by (rule import_keeps_old_blacklist [OF s']) (simp_all add: start_listener_def demo_server_def)
  ultimately show ?thesis using s'
    by (simp add: unrestricted_def listed_def demo_rule_def demo_server_def demo_cfg_def)
qed

text \<open>C27: The panel can be used from loopback always; from elsewhere only by an address that is not
  blacklisted and is the host's own, whitelisted, or the source of a connected client.\<close>

theorem panel_access:
  "IPAllowed ifaces s ipStr \<longleftrightarrow>
     (\<exists>ip. ParseAddr ipStr = Some ip
        \<and> (IsLoopback (Unmap ip)
           \<or> (\<not> listed (IPBlacklist (s_cfg s)) ip
              \<and> (own_address ifaces (Unmap ip)
                 \<or> (\<exists>e \<in> set (IPWhitelist (s_cfg s)). entry_matches e ip)
                 \<or> client_address s (Unmap ip)))))"
  by (rule IPAllowed_iff)

text \<open>C16: However the connections of a rule interleave, no more of them are served at once than its
  limit allows.\<close>

theorem connections_bounded:
  assumes "gate_reach maxConns g" and "0 < maxConns"
  shows "finite (serving g) \<and> int (card (serving g)) \<le> maxConns"
  using gate_reach_inv [OF assms(1)] assms(2) finite_subset [OF serving_inside]
  by (auto simp: gate_inv_def)

theorem connections_bounded_witness:
  "\<exists>g. gate_reach 1 g \<and> serving g = {0} \<and> int (card (serving g)) \<le> 1"
proof -
  let ?g1 = "gate_init\<lparr>g_count := g_count gate_init + 1, g_phase := (g_phase gate_init)(0 := Counted)\<rparr>"
  let ?g2 = "?g1\<lparr>g_phase := (g_phase ?g1)(0 := Serving)\<rparr>"
  have "gate_step 1 gate_init ?g1" by (rule gate_step.count) (simp add: gate_init_def)
  moreover have "gate_step 1 ?g1 ?g2" by (rule gate_step.admit) (simp_all add: gate_init_def)
  ultimately have r: "gate_reach 1 ?g2" by (meson gate_reach.start gate_reach.step)
  moreover have "serving ?g2 = {0}" by (auto simp: serving_def gate_init_def)
  ultimately show ?thesis using connections_bounded [OF r] by auto
qed

section \<open>UDP\<close>

text \<open>In a UDP relay through the tunnel, the answer to a forwarded packet is delivered to the visitor
  that sent it, as long as the relay has handled fewer than 2^32 - 1 packets.\<close>

theorem udp_answers_return:
  assumes "tunnel_reach r n t" and "n < 2 ^ 32 - 1"
    and "tunnel_packet net s r now src payload t = (t', Some (sc, b))"
  shows "\<exists>i a. ReadUDPPacket b = Inr (\<lparr>ConnID = i, Payload = payload\<rparr>, [])
     \<and> tunnel_reply \<lparr>ConnID = i, Payload = answer\<rparr> t' = Some (a, answer) \<and> udp_key a = udp_key src"
  by (rule tunnel_answer [OF assms])

theorem udp_answers_return_witness:
  "\<exists>t' b. tunnel_packet demo_net demo_server demo_udp_rule 0 demo_visitor [1] (tunnel_start demo_server demo_udp_rule)
       = (t', Some (5, b))
     \<and> (\<exists>i a. ReadUDPPacket b = Inr (\<lparr>ConnID = i, Payload = [1]\<rparr>, [])
          \<and> tunnel_reply \<lparr>ConnID = i, Payload = [2]\<rparr> t' = Some (a, [2]) \<and> udp_key a = udp_key demo_visitor)"
proof -
  obtain t' b where p: "tunnel_packet demo_net demo_server demo_udp_rule 0 demo_visitor [1]
      (tunnel_start demo_server demo_udp_rule) = (t', Some (5, b))" using demo_udp_packet by blast
  have "\<exists>i a. ReadUDPPacket b = Inr (\<lparr>ConnID = i, Payload = [1]\<rparr>, [])
          \<and> tunnel_reply \<lparr>ConnID = i, Payload = [2]\<rparr> t' = Some (a, [2]) \<and> udp_key a = udp_key demo_visitor"
    by (rule udp_answers_return [OF tunnel_reach.start _ p]) simp
  with p show ?thesis by blast
qed

text \<open>A tunnel relay never has more visitors than its limit, and its counter is their number.\<close>

theorem udp_visitors_bounded:
  assumes "tunnel_reach r n t" and "n < 2 ^ 32" and "0 < MaxConns r"
  shows "int (length (vt_visitors t)) \<le> MaxConns r \<and> tr_conns t = int (length (vt_visitors t))"
  using tunnel_reach_ok [OF assms(1,2)] assms(3)
  by (simp add: relay_ok_def tunnel_table.within_cap_def)

theorem udp_visitors_bounded_witness:
  "\<exists>t b. tunnel_packet demo_net demo_server demo_udp_rule 0 demo_visitor [1] (tunnel_start demo_server demo_udp_rule)
       = (t, Some (5, b)) \<and> int (length (vt_visitors t)) \<le> 1"
proof -
  obtain t b where p: "tunnel_packet demo_net demo_server demo_udp_rule 0 demo_visitor [1]
      (tunnel_start demo_server demo_udp_rule) = (t, Some (5, b))" using demo_udp_packet by blast
  from udp_visitors_bounded [OF tunnel_reach.packet [OF tunnel_reach.start p]] p show ?thesis
    by (auto simp: demo_udp_rule_def demo_rule_def)
qed

text \<open>A relay whose table is full of visitors that have gone drops every packet of a new one and
  stays as it is: the sweep runs only after a packet was admitted.\<close>

theorem full_relay_starves:
  assumes "lookup (vt_visitors t) (udp_key src) = None"
    and "0 < MaxConns r" and "MaxConns r \<le> int (length (vt_visitors t))"
  shows "tunnel_admit (MaxConns r) now src t = (t, None)"
  by (rule tunnel_table.full_table_drops [OF assms])

theorem full_relay_starves_witness:
  "tunnel_admit 1 1000000000000 demo_visitor
     ((tunnel_start demo_server demo_udp_rule)\<lparr>vt_visitors := [(''gone'', \<lparr>ve_id = 1, ve_addr = demo_visitor, ve_seen = 0\<rparr>)]\<rparr>)
   = ((tunnel_start demo_server demo_udp_rule)\<lparr>vt_visitors := [(''gone'', \<lparr>ve_id = 1, ve_addr = demo_visitor, ve_seen = 0\<rparr>)]\<rparr>, None)"
proof -
  have m: "MaxConns demo_udp_rule = 1" by (simp add: demo_udp_rule_def)
  have k: "(udp_key demo_visitor = ''gone'') = False" using demo_key by simp
  show ?thesis
    using full_relay_starves [where r = demo_udp_rule and src = demo_visitor and now = 1000000000000
        and t = "(tunnel_start demo_server demo_udp_rule)\<lparr>vt_visitors := [(''gone'', \<lparr>ve_id = 1, ve_addr = demo_visitor, ve_seen = 0\<rparr>)]\<rparr>"]
    by (simp add: m k)
qed

text \<open>A local relay has one socket per visitor, counts exactly them and stays within the limit,
  whatever the order of packets, replies and timeouts.\<close>

theorem local_relay_counts:
  assumes "(local_step r)\<^sup>*\<^sup>* (local_start s r) t"
  shows "distinct (keys (lr_backends t)) \<and> lr_conns t = int (length (lr_backends t))
     \<and> (0 < MaxConns r \<longrightarrow> int (length (lr_backends t)) \<le> MaxConns r)"
  using local_reach_inv [OF assms] by (simp add: local_inv_def)

theorem local_relay_counts_witness:
  "\<exists>t. (local_step demo_udp_rule)\<^sup>*\<^sup>* (local_start demo_server demo_udp_rule) t
     \<and> lr_conns t = int (length (lr_backends t))"
  using local_relay_counts [OF rtranclp.rtrancl_refl] by blast

text \<open>At the far end of a reverse UDP stream every socket in the map has its reading goroutine, and
  the connection counter is the number of these goroutines, for any interleaving.\<close>

theorem far_end_counts:
  assumes "(server_backend_step target)\<^sup>*\<^sup>* (server_backends_start rr) t"
  shows "set (bk_map t) \<subseteq> set (bk_live t) \<and> bk_conns t = int (length (bk_live t))"
  using server_backends_reach [OF assms] by (simp add: backends_inv_def)

theorem far_end_counts_witness:
  "\<exists>t. (server_backend_step ''a:1'')\<^sup>*\<^sup>* (server_backends_start 0) t \<and> bk_conns t = int (length (bk_live t))"
  using far_end_counts [OF rtranclp.rtrancl_refl] by blast

section \<open>The tunnel\<close>



text \<open>C17: Whatever the order of connects, reconnects, disconnects, control streams and panel operations,
  a client name has at most one open session, and it is the one in the table.\<close>

theorem one_session_per_name:
  assumes "tun_reach \<lparr>t_srv = s0, t_handlers = []\<rparr> t" and "s_clients s0 = []"
    and "(n, name) \<in> set (t_handlers t)" and "n \<notin> s_closed (t_srv t)"
  shows "(\<exists>cc. lookup (s_clients (t_srv t)) name = Some cc \<and> cn_Session cc = n)
     \<and> (\<forall>m. (m, name) \<in> set (t_handlers t) \<longrightarrow> m \<notin> s_closed (t_srv t) \<longrightarrow> m = n)"
proof -
  have "conn_inv t" by (rule tun_reach_inv [OF assms(1) conn_inv_start [OF assms(2)]])
  then show ?thesis using assms(3,4) unfolding conn_inv_def by (metis option.inject)
qed

theorem one_session_per_name_witness:
  "\<exists>t :: tunnels. (1, ''c1'') \<in> set (t_handlers t)
     \<and> (\<exists>cc. lookup (s_clients (t_srv t)) ''c1'' = Some cc \<and> cn_Session cc = 1)"
proof -
  let ?t0 = "\<lparr>t_srv = demo_server\<lparr>s_clients := []\<rparr>, t_handlers = []\<rparr>"
  let ?t1 = "?t0\<lparr>t_srv := register 0 demo_conn (t_srv ?t0),
      t_handlers := (cn_Session demo_conn, cn_Name demo_conn) # t_handlers ?t0\<rparr>"
  have c: "s_closed demo_server = {}" "cn_Session demo_conn = 1" "cn_Name demo_conn = ''c1''"
    by (simp_all add: demo_server_def demo_conn_def)
  have "tun_step ?t0 ?t1" by (rule tun_step.register) (simp_all add: c)
  then have r: "tun_reach ?t0 ?t1" by (blast intro: tun_reach.start tun_reach.step)
  have m: "(1, ''c1'') \<in> set (t_handlers ?t1)" "1 \<notin> s_closed (t_srv ?t1)"
    by (simp_all add: c register_simps)
  have "\<exists>cc. lookup (s_clients (t_srv ?t1)) ''c1'' = Some cc \<and> cn_Session cc = 1"
    using one_session_per_name [OF r _ m] by simp
  with m(1) show ?thesis by blast
qed



section \<open>Notices and history\<close>

text \<open>Two notices about the same event are at least a minute apart, in every state the panel's
  operations reach from a new server.\<close>

theorem notices_spaced:
  assumes "New now certs cfg path fs = Inr s0" and "rules_inv cfg" and "srv_reach s0 s"
  shows "spaced (posts_of key (s_notifier s))"
  using srv_reach_inv [OF assms(3) New_inv [OF assms(1,2)]]
  by (simp add: server_inv_def debounce_inv_def)

theorem notices_spaced_witness:
  "\<exists>s0. New 0 (Inr []) (demo_cfg\<lparr>Rules := []\<rparr>) ''server.json'' (\<lambda>p. None) = Inr s0
     \<and> spaced (posts_of ''rule_error|r1'' (s_notifier s0))"
proof -
  obtain s0 where s0: "New 0 (Inr []) (demo_cfg\<lparr>Rules := []\<rparr>) ''server.json'' (\<lambda>p. None) = Inr s0"
    by (simp add: New_def demo_cfg_def Let_def)
  have "rules_inv (demo_cfg\<lparr>Rules := []\<rparr>)" by (simp add: rules_inv_def ports_ok_def ids_ok_def)
  from notices_spaced [OF s0 this srv_reach.start] s0 show ?thesis by blast
qed

text \<open>Sampling appends the byte counters of every rule to its history and keeps the last 2880.\<close>

theorem history_keeps_last_day:
  assumes "distinct (keys (s_stats s))" and "lookup (s_stats s) k = Some st"
  shows "GetHistory (sampleHistory t s) k =
     take_last 2880 (GetHistory s k @ [\<lparr>hp_T = Unix t, hp_In = BytesIn st, hp_Out = BytesOut st\<rparr>])"
proof -
  let ?f = "\<lambda>h kst. sample_one (Unix t) kst h"
  have other: "lookup (foldl ?f h sts) k = lookup h k" if "k \<notin> fst ` set sts" for h sts
    using that by (induction sts arbitrary: h) (auto simp: sample_one_def Let_def)
  have "(case lookup (foldl ?f h sts) k of None \<Rightarrow> [] | Some pts \<Rightarrow> pts) =
      take_last 2880 ((case lookup h k of None \<Rightarrow> [] | Some pts \<Rightarrow> pts)
        @ [\<lparr>hp_T = Unix t, hp_In = BytesIn st, hp_Out = BytesOut st\<rparr>])"
    if "distinct (keys sts)" "lookup sts k = Some st" for h sts
    using that
  proof (induction sts arbitrary: h)
    case Nil
    then show ?case by simp
  next
    case (Cons x sts)
    show ?case
    proof (cases "fst x = k")
      case True
      with Cons.prems have "k \<notin> fst ` set sts" "snd x = st" by (cases x; simp)+
      with True other [of sts] show ?thesis
        by (cases x) (simp add: sample_one_def Let_def hist_append_def take_last_def histMax_def)
    next
      case False
      with Cons show ?thesis by (cases x) (simp add: sample_one_def Let_def)
    qed
  qed
  with assms show ?thesis by (simp add: GetHistory_def sampleHistory_def)
qed

theorem history_keeps_last_day_witness:
  "GetHistory (sampleHistory 0 (statFor ''r1'' demo_server)) ''r1'' = [\<lparr>hp_T = Unix 0, hp_In = 0, hp_Out = 0\<rparr>]"
proof -
  let ?s = "statFor ''r1'' demo_server"
  have "s_stats ?s = [(''r1'', zero_stat)]" "GetHistory ?s ''r1'' = []"
    by (simp_all add: statFor_def demo_server_def GetHistory_def)
  with history_keeps_last_day [of ?s "''r1''" zero_stat 0] show ?thesis
    by (simp add: zero_stat_def take_last_def)
qed

text \<open>While the configuration invariant holds and every enabled rule listens, the panel shows a
  server-side rule as running exactly when it is enabled.\<close>

theorem panel_shows_running:
  assumes "server_inv s" and "listening s" and "r \<in> set (Rules (s_cfg s))" and "SideOf r = ''server''"
  shows "v_Running (view_of s r) \<longleftrightarrow> Enabled r"
  by (rule listening_view [OF assms])

theorem panel_shows_running_witness: "v_Running (view_of demo_server demo_rule)"
proof -
  have "listening demo_server"
    by (simp add: listening_def demo_server_def demo_cfg_def demo_runner_def demo_rule_def sameAs_def)
  moreover have "demo_rule \<in> set (Rules (s_cfg demo_server))" "SideOf demo_rule = ''server''" "Enabled demo_rule"
    by (simp_all add: demo_server_def demo_cfg_def demo_rule_def SideOf_def)
  ultimately show ?thesis using panel_shows_running [OF demo_inv] by blast
qed

end
