(* ===== verification/Tls.thy ===== *)
theory Tls
  imports ServerState
begin

text \<open>
  The certificate of the tunnel (\<open>server/tls.go\<close>) and the check of the client that pins it
  (\<open>dialServer\<close> in \<open>client/client.go\<close>). Cryptography is a parameter, the record \<open>x509\<close>: what
  \<open>crypto/x509\<close>, \<open>crypto/ecdsa\<close>, \<open>encoding/pem\<close> and \<open>crypto/sha256\<close> return. A certificate is its DER
  encoding; \<open>x_load\<close> is \<open>tls.X509KeyPair\<close> on the texts of a certificate and a key, which
  \<open>tls.LoadX509KeyPair\<close> applies to the contents of two files.
\<close>

section \<open>The certificate of the server\<close>

record x509 =
  x_beside :: "string \<Rightarrow> string \<Rightarrow> string"
  x_load :: "string \<Rightarrow> string \<Rightarrow> string + bytes"
  x_sha256 :: "bytes \<Rightarrow> bytes"
  x_pem :: "string \<Rightarrow> bytes \<Rightarrow> string"
  x_key :: "string + bytes"
  x_create :: "bytes \<Rightarrow> string + bytes"
  x_marshal :: "bytes \<Rightarrow> string + bytes"
  x_write :: "string \<Rightarrow> (string \<times> string) option"

record cert_manager =
  cm_cert :: bytes
  cm_fingerprint :: string

definition newManager :: "x509 \<Rightarrow> bytes \<Rightarrow> cert_manager" where
  "newManager x der = \<lparr>cm_cert = der, cm_fingerprint = hex_encode (x_sha256 x der)\<rparr>"

text \<open>The two paths: those of the configuration, or two names beside the configuration file.\<close>

definition cert_paths :: "x509 \<Rightarrow> string \<Rightarrow> string \<Rightarrow> string \<Rightarrow> string \<times> string" where
  "cert_paths x cfgPath certFile keyFile =
     (if certFile = [] \<or> keyFile = []
      then (x_beside x cfgPath ''server.crt'', x_beside x cfgPath ''server.key'')
      else (certFile, keyFile))"

text \<open>\<open>os.WriteFile\<close>: \<open>x_write path\<close> is a fault of it, with what the file then holds.\<close>

definition write_file :: "x509 \<Rightarrow> string \<Rightarrow> string \<Rightarrow> files \<Rightarrow> files \<times> string option" where
  "write_file x path txt fs =
     (case x_write x path of
        None \<Rightarrow> (fs(path \<mapsto> txt), None)
      | Some (e, partial) \<Rightarrow> (fs(path \<mapsto> partial), Some e))"

definition generate :: "x509 \<Rightarrow> string \<Rightarrow> string \<Rightarrow> files \<Rightarrow> (string + cert_manager) \<times> files" where
  "generate x certFile keyFile fs =
     (case x_key x of
        Inl e \<Rightarrow> (Inl e, fs)
      | Inr key \<Rightarrow>
          (case x_create x key of
             Inl e \<Rightarrow> (Inl e, fs)
           | Inr der \<Rightarrow>
               (case x_marshal x key of
                  Inl e \<Rightarrow> (Inl e, fs)
                | Inr kder \<Rightarrow>
                    (let keyPem = x_pem x ''EC PRIVATE KEY'' kder; certPem = x_pem x ''CERTIFICATE'' der in
                     case write_file x keyFile keyPem fs of
                       (fs1, Some e) \<Rightarrow> (Inl e, fs1)
                     | (fs1, None) \<Rightarrow>
                         (case write_file x certFile certPem fs1 of
                            (fs2, Some e) \<Rightarrow> (Inl e, fs2)
                          | (fs2, None) \<Rightarrow>
                              (case x_load x certPem keyPem of
                                 Inl e \<Rightarrow> (Inl e, fs2)
                               | Inr leaf \<Rightarrow> (Inr (newManager x leaf), fs2)))))))"

definition LoadOrGenerate ::
  "x509 \<Rightarrow> string \<Rightarrow> string \<Rightarrow> string \<Rightarrow> files \<Rightarrow> (string + cert_manager) \<times> files" where
  "LoadOrGenerate x cfgPath certFile0 keyFile0 fs =
     (let (certFile, keyFile) = cert_paths x cfgPath certFile0 keyFile0 in
      case (fs certFile, fs keyFile) of
        (Some c, Some k) \<Rightarrow>
          (case x_load x c k of
             Inl e \<Rightarrow> (Inl e, fs)
           | Inr leaf \<Rightarrow> (Inr (newManager x leaf), fs))
      | _ \<Rightarrow> generate x certFile keyFile fs)"

lemma generate_leaves:
  assumes "generate x certFile keyFile fs = (Inr cm, fs')" and "certFile \<noteq> keyFile"
  shows "\<exists>c k leaf. fs' certFile = Some c \<and> fs' keyFile = Some k \<and> x_load x c k = Inr leaf
     \<and> cm = newManager x leaf"
  using assms by (auto simp: generate_def write_file_def Let_def split: sum.splits option.splits)

lemma generate_manager: "generate x certFile keyFile fs = (Inr cm, fs') \<Longrightarrow> \<exists>leaf. cm = newManager x leaf"
  by (auto simp: generate_def write_file_def Let_def split: sum.splits option.splits)

lemma LoadOrGenerate_manager:
  "LoadOrGenerate x cfgPath c0 k0 fs = (Inr cm, fs') \<Longrightarrow> cm = newManager x (cm_cert cm)"
proof -
  assume a: "LoadOrGenerate x cfgPath c0 k0 fs = (Inr cm, fs')"
  have "\<exists>leaf. cm = newManager x leaf"
    using a by (auto simp: LoadOrGenerate_def dest: generate_manager split: prod.splits option.splits sum.splits)
  then show ?thesis by (auto simp: newManager_def)
qed

text \<open>A later start finds the same certificate, whatever its own key generation would return.\<close>

lemma restart_same:
  assumes "LoadOrGenerate x cfgPath c0 k0 fs = (Inr cm, fs')"
    and "fst (cert_paths x cfgPath c0 k0) \<noteq> snd (cert_paths x cfgPath c0 k0)"
    and "x_beside y = x_beside x" "x_load y = x_load x" "x_sha256 y = x_sha256 x"
  shows "LoadOrGenerate y cfgPath c0 k0 fs' = (Inr cm, fs')"
proof -
  obtain c k where p: "cert_paths x cfgPath c0 k0 = (c, k)" by fastforce
  have y: "cert_paths y cfgPath c0 k0 = (c, k)" "newManager y = newManager x"
    using p assms(3,5) by (auto simp: cert_paths_def newManager_def fun_eq_iff split: if_splits)
  show ?thesis
  proof (cases "fs c \<noteq> None \<and> fs k \<noteq> None")
    case True
    then show ?thesis using assms p y
      by (auto simp: LoadOrGenerate_def split: sum.splits)
  next
    case False
    then have "generate x c k fs = (Inr cm, fs')"
      using assms(1) p by (auto simp: LoadOrGenerate_def split: option.splits)
    from generate_leaves [OF this] p assms(2) obtain tc tk leaf
      where "fs' c = Some tc" "fs' k = Some tk" "x_load x tc tk = Inr leaf" "cm = newManager x leaf" by auto
    with y assms(4) show ?thesis by (simp add: LoadOrGenerate_def)
  qed
qed

text \<open>A certificate whose key file is missing is not kept: a new one is written over it.\<close>

lemma lone_certificate_replaced:
  assumes "cert_paths x cfgPath c0 k0 = (c, k)" and "c \<noteq> k" and "fs k = None"
    and "LoadOrGenerate x cfgPath c0 k0 fs = (Inr cm, fs')"
  shows "\<exists>key der. x_key x = Inr key \<and> x_create x key = Inr der \<and> fs' c = Some (x_pem x ''CERTIFICATE'' der)"
  using assms
  by (auto simp: LoadOrGenerate_def generate_def write_file_def Let_def split: sum.splits option.splits)

section \<open>The check of the client\<close>

datatype dial_error = Unreachable string | HandshakeFailed string | NoCertificate | WrongFingerprint string string

text \<open>
  \<open>dialServer\<close>: \<open>raw\<close> is the outcome of the TCP dial, \<open>tls\<close> that of the handshake, the certificates
  of the server. The second result says whether the raw connection was closed again.
\<close>

definition dialServer ::
  "(bytes \<Rightarrow> bytes) \<Rightarrow> string + 'c \<Rightarrow> string + bytes list \<Rightarrow> client_config \<Rightarrow> (dial_error + 'c) \<times> bool" where
  "dialServer sha raw tls cfg =
     (case raw of
        Inl e \<Rightarrow> (Inl (Unreachable e), False)
      | Inr c \<Rightarrow>
          if cc_NoTLS cfg then (Inr c, False)
          else (case tls of
                  Inl e \<Rightarrow> (Inl (HandshakeFailed e), True)
                | Inr certs \<Rightarrow>
                    (let want = TLSFingerprint cfg in
                     if want \<noteq> [] then
                       (if certs = [] then (Inl NoCertificate, True)
                        else (let got = hex_encode (sha (hd certs)) in
                              if got \<noteq> ToLower want then (Inl (WrongFingerprint want got), True)
                              else (Inr c, False)))
                     else (Inr c, False))))"

text \<open>A client pinned to a server's fingerprint, in any letter case, accepts only a peer whose
  certificate has the same digest.\<close>

lemma pinned_accepts_iff:
  assumes "\<not> cc_NoTLS cfg" and "ToLower (TLSFingerprint cfg) = cm_fingerprint (newManager x der)"
    and "TLSFingerprint cfg \<noteq> []"
  shows "fst (dialServer (x_sha256 x) (Inr c) (Inr certs) cfg) = Inr c
     \<longleftrightarrow> certs \<noteq> [] \<and> x_sha256 x (hd certs) = x_sha256 x der"
  using assms by (auto simp: dialServer_def newManager_def Let_def dest: hex_encode_inj)

lemma refused_is_closed:
  "dialServer sha (Inr c) tls cfg = (Inl e, shut) \<Longrightarrow> shut"
  by (auto simp: dialServer_def Let_def split: if_splits sum.splits)

text \<open>\<open>server.New\<close> with the certificate \<open>LoadOrGenerate\<close> finds.\<close>

definition New_with_certs :: "x509 \<Rightarrow> int \<Rightarrow> server_cfg \<Rightarrow> string \<Rightarrow> files \<Rightarrow> srv_error + server" where
  "New_with_certs x now cfg cfgPath fs =
     (if NoTLS cfg then New now (Inr []) cfg cfgPath fs
      else (let (r, fs1) = LoadOrGenerate x cfgPath (TLSCert cfg) (TLSKey cfg) fs in
            New now (case r of Inl e \<Rightarrow> Inl e | Inr cm \<Rightarrow> Inr (cm_fingerprint cm)) cfg cfgPath fs1))"

end
