(* ===== verification/ReverseMgr.thy ===== *)
theory ReverseMgr
  imports ServerLive Tls
begin

text \<open>
  The manager of the client's reverse listeners (\<open>reverseMgr\<close> in \<open>client/reverse.go\<close>). A pushed rule
  set is compared with the running one under the lock, the listeners to start are left to goroutines.
  \<open>rm_starting\<close> holds these with how far they got, \<open>rm_open\<close> the sockets the process holds, so that
  the interleavings of \<open>apply\<close>, \<open>start\<close> and \<open>stopAll\<close> are the steps of \<open>rm_step\<close>.
\<close>

section \<open>State and operations\<close>

datatype progress = Begin | Opened nat | Refused string

record rev_mgr =
  rm_control :: bool
  rm_tcpLns :: "nat gomap"
  rm_udpConns :: "nat gomap"
  rm_rules :: "reverse_rule gomap"
  rm_open :: "(nat \<times> string \<times> int) list"
  rm_next :: nat
  rm_starting :: "(reverse_rule \<times> progress) list"
  rm_reports :: "reverse_status list"

definition newReverseMgr :: rev_mgr where
  "newReverseMgr =
     \<lparr>rm_control = False, rm_tcpLns = [], rm_udpConns = [], rm_rules = [], rm_open = [], rm_next = 0,
      rm_starting = [], rm_reports = []\<rparr>"

definition close_sock :: "nat option \<Rightarrow> (nat \<times> string \<times> int) list \<Rightarrow> (nat \<times> string \<times> int) list" where
  "close_sock s socks = (case s of None \<Rightarrow> socks | Some n \<Rightarrow> filter (\<lambda>(k, p). k \<noteq> n) socks)"

definition report :: "reverse_status \<Rightarrow> rev_mgr \<Rightarrow> rev_mgr" where
  "report st m = (if \<not> rm_control m then m else m\<lparr>rm_reports := rm_reports m @ [st]\<rparr>)"

definition stopLocked :: "string \<Rightarrow> rev_mgr \<Rightarrow> rev_mgr" where
  "stopLocked rid m =
     (let m1 = m\<lparr>rm_open := close_sock (lookup (rm_tcpLns m) rid) (rm_open m),
                 rm_tcpLns := del rid (rm_tcpLns m)\<rparr>;
          m2 = m1\<lparr>rm_open := close_sock (lookup (rm_udpConns m1) rid) (rm_open m1),
                  rm_udpConns := del rid (rm_udpConns m1)\<rparr>
      in m2\<lparr>rm_rules := del rid (rm_rules m2)\<rparr>)"

definition pushed_rules :: "reverse_rule list \<Rightarrow> reverse_rule gomap" where
  "pushed_rules rs = foldl (\<lambda>m r. put (rr_ID r) r m) [] rs"

text \<open>What makes a running listener obsolete; other settings of the rule do not.\<close>

definition obsolete :: "reverse_rule gomap \<Rightarrow> string \<times> reverse_rule \<Rightarrow> bool" where
  "obsolete desired idcur =
     (case idcur of (rid, cur) \<Rightarrow>
        (case lookup desired rid of
           None \<Rightarrow> True
         | Some want \<Rightarrow> rr_Proto want \<noteq> rr_Proto cur \<or> rr_Listen want \<noteq> rr_Listen cur
                        \<or> rr_Target want \<noteq> rr_Target cur))"

definition stop_obsolete :: "reverse_rule gomap \<Rightarrow> rev_mgr \<Rightarrow> rev_mgr" where
  "stop_obsolete desired m =
     foldl (\<lambda>m idcur. if obsolete desired idcur then stopLocked (fst idcur) m else m) m (rm_rules m)"

definition start_missing :: "reverse_rule gomap \<Rightarrow> rev_mgr \<Rightarrow> rev_mgr" where
  "start_missing desired m =
     foldl (\<lambda>m idwant. if lookup (rm_rules m) (fst idwant) = None
                       then m\<lparr>rm_rules := put (fst idwant) (snd idwant) (rm_rules m),
                              rm_starting := rm_starting m @ [(snd idwant, Begin)]\<rparr>
                       else m) m desired"

definition apply_push :: "reverse_rule list \<Rightarrow> rev_mgr \<Rightarrow> rev_mgr" where
  "apply_push rules m = (let desired = pushed_rules rules in start_missing desired (stop_obsolete desired m))"

definition stopAll :: "rev_mgr \<Rightarrow> rev_mgr" where
  "stopAll m = foldl (\<lambda>m idcur. stopLocked (fst idcur) m) m (rm_rules m)"

text \<open>
  The critical sections of \<open>start\<close>: the system call \<open>listen\<close>, then either recording the listener and
  reporting it, or reporting the failure and forgetting the rule.
\<close>

definition start_listen :: "os \<Rightarrow> reverse_rule \<Rightarrow> rev_mgr \<Rightarrow> rev_mgr \<times> progress" where
  "start_listen os r m =
     (case os (map snd (rm_open m)) (rr_Proto r) (rr_Listen r) of
        Some e \<Rightarrow> (m, Refused e)
      | None \<Rightarrow> (m\<lparr>rm_open := (rm_next m, rr_Proto r, rr_Listen r) # rm_open m, rm_next := rm_next m + 1\<rparr>,
                 Opened (rm_next m)))"

definition start_finish :: "reverse_rule \<Rightarrow> progress \<Rightarrow> rev_mgr \<Rightarrow> rev_mgr" where
  "start_finish r p m =
     (case p of
        Begin \<Rightarrow> m
      | Opened n \<Rightarrow>
          report \<lparr>st_ID = rr_ID r, st_OK = True, st_Err = []\<rparr>
            (if rr_Proto r = ''tcp'' then m\<lparr>rm_tcpLns := put (rr_ID r) n (rm_tcpLns m)\<rparr>
             else m\<lparr>rm_udpConns := put (rr_ID r) n (rm_udpConns m)\<rparr>)
      | Refused e \<Rightarrow>
          (let m1 = report \<lparr>st_ID = rr_ID r, st_OK = False, st_Err = e\<rparr> m
           in m1\<lparr>rm_rules := del (rr_ID r) (rm_rules m1)\<rparr>))"

definition known_proto :: "reverse_rule \<Rightarrow> bool" where
  "known_proto r \<longleftrightarrow> rr_Proto r = ''tcp'' \<or> rr_Proto r = ''udp''"

inductive rm_step :: "os \<Rightarrow> rev_mgr \<Rightarrow> rev_mgr \<Rightarrow> bool" for os where
  connect: "rm_step os m (m\<lparr>rm_control := True\<rparr>)"
| push: "rm_control m \<Longrightarrow> rm_step os m (apply_push rules m)"
| listen: "rm_starting m = xs @ (r, Begin) # ys \<Longrightarrow> known_proto r \<Longrightarrow> start_listen os r m = (m', p) \<Longrightarrow>
     rm_step os m (m'\<lparr>rm_starting := xs @ (r, p) # ys\<rparr>)"
| ignore: "rm_starting m = xs @ (r, Begin) # ys \<Longrightarrow> \<not> known_proto r \<Longrightarrow>
     rm_step os m (m\<lparr>rm_starting := xs @ ys\<rparr>)"
| finish: "rm_starting m = xs @ (r, p) # ys \<Longrightarrow> p \<noteq> Begin \<Longrightarrow>
     rm_step os m (start_finish r p (m\<lparr>rm_starting := xs @ ys\<rparr>))"
| disconnect: "rm_control m \<Longrightarrow> rm_step os m (stopAll (m\<lparr>rm_control := False\<rparr>))"

inductive rm_reach :: "os \<Rightarrow> rev_mgr \<Rightarrow> bool" for os where
  start: "rm_reach os newReverseMgr"
| step: "rm_reach os m \<Longrightarrow> rm_step os m m' \<Longrightarrow> rm_reach os m'"

text \<open>The steps of the start goroutines alone.\<close>

inductive start_step :: "os \<Rightarrow> rev_mgr \<Rightarrow> rev_mgr \<Rightarrow> bool" for os where
  listen: "rm_starting m = xs @ (r, Begin) # ys \<Longrightarrow> known_proto r \<Longrightarrow> start_listen os r m = (m', p) \<Longrightarrow>
     start_step os m (m'\<lparr>rm_starting := xs @ (r, p) # ys\<rparr>)"
| finish: "rm_starting m = xs @ (r, p) # ys \<Longrightarrow> p \<noteq> Begin \<Longrightarrow>
     start_step os m (start_finish r p (m\<lparr>rm_starting := xs @ ys\<rparr>))"

text \<open>The orders in which no push and no disconnect meets a start that is still under way.\<close>

inductive calm_reach :: "os \<Rightarrow> rev_mgr \<Rightarrow> bool" for os where
  start: "calm_reach os newReverseMgr"
| connect: "calm_reach os m \<Longrightarrow> calm_reach os (m\<lparr>rm_control := True\<rparr>)"
| push: "calm_reach os m \<Longrightarrow> rm_starting m = [] \<Longrightarrow> rm_control m \<Longrightarrow> list_all known_proto rules \<Longrightarrow>
     calm_reach os (apply_push rules m)"
| go: "calm_reach os m \<Longrightarrow> start_step os m m' \<Longrightarrow> calm_reach os m'"
| disconnect: "calm_reach os m \<Longrightarrow> rm_starting m = [] \<Longrightarrow> rm_control m \<Longrightarrow>
     calm_reach os (stopAll (m\<lparr>rm_control := False\<rparr>))"

end
