(* ===== verification/Goroutines.thy ===== *)
theory Goroutines
  imports Prelude
begin

text \<open>
  Goroutines that come to an end: a step relation whose every step does some of a finite amount of
  work, an invariant, and what holds when no step is left. Interpreted for the starts of reverse
  listeners, the end of a client's session and the shutdown of the server.
\<close>

locale winding =
  fixes step :: "'s \<Rightarrow> 's \<Rightarrow> bool"
    and work :: "'s \<Rightarrow> nat"
    and inv :: "'s \<Rightarrow> bool"
    and over :: "'s \<Rightarrow> bool"
  assumes step_work: "inv c \<Longrightarrow> step c d \<Longrightarrow> work d < work c"
    and step_inv: "inv c \<Longrightarrow> step c d \<Longrightarrow> inv d"
    and stuck_over: "inv c \<Longrightarrow> \<nexists>d. step c d \<Longrightarrow> over c"
begin

lemma steps_inv: "step\<^sup>*\<^sup>* c d \<Longrightarrow> inv c \<Longrightarrow> inv d"
  by (induction rule: rtranclp_induct) (auto intro: step_inv)

lemma steps_work: "(step ^^ n) c d \<Longrightarrow> inv c \<Longrightarrow> inv d \<and> work d + n \<le> work c"
proof (induction n arbitrary: d)
  case 0
  then show ?case by simp
next
  case (Suc n)
  then obtain e where e: "(step ^^ n) c e" "step e d" by auto
  with Suc have "inv e" "work e + n \<le> work c" by blast+
  with step_work [OF _ e(2)] step_inv [OF _ e(2)] show ?case by simp
qed

lemma finishes: "inv c \<Longrightarrow> \<exists>d. step\<^sup>*\<^sup>* c d \<and> (\<nexists>e. step d e) \<and> over d"
proof (induction "work c" arbitrary: c rule: less_induct)
  case less
  show ?case
  proof (cases "\<exists>d. step c d")
    case True
    then obtain d where d: "step c d" by blast
    with less step_work step_inv obtain e where "step\<^sup>*\<^sup>* d e" "(\<nexists>f. step e f) \<and> over e" by blast
    with d show ?thesis by (meson converse_rtranclp_into_rtranclp)
  next
    case False
    with less.prems stuck_over show ?thesis by blast
  qed
qed

text \<open>No run is longer than the work there is, some run finishes, and whichever does ends well.\<close>

lemma winds_down:
  assumes "inv c" and "work c \<le> b"
  shows "(\<forall>n d. (step ^^ n) c d \<longrightarrow> n \<le> b) \<and> (\<exists>d. step\<^sup>*\<^sup>* c d \<and> (\<nexists>e. step d e))
     \<and> (\<forall>d. step\<^sup>*\<^sup>* c d \<and> (\<nexists>e. step d e) \<longrightarrow> over d)"
proof (intro conjI allI impI)
  show "n \<le> b" if "(step ^^ n) c d" for n d using steps_work [OF that assms(1)] assms(2) by simp
  show "\<exists>d. step\<^sup>*\<^sup>* c d \<and> (\<nexists>e. step d e)" using finishes [OF assms(1)] by blast
  show "over d" if "step\<^sup>*\<^sup>* c d \<and> (\<nexists>e. step d e)" for d
    using that steps_inv [of c d] assms(1) stuck_over by blast
qed

end

end
