(* ===== verification/ReverseLive.thy ===== *)
theory ReverseLive
  imports ReverseMgr Goroutines
begin

text \<open>
  What the reverse manager guarantees while pushes and starts do not overlap: sockets, recorded
  listeners and rules correspond one to one, and a pushed rule set is served completely.
\<close>

section \<open>The invariant\<close>

definition recorded :: "rev_mgr \<Rightarrow> string \<Rightarrow> nat \<Rightarrow> bool" where
  "recorded m k n \<longleftrightarrow> lookup (rm_tcpLns m) k = Some n \<or> lookup (rm_udpConns m) k = Some n"

definition owns :: "rev_mgr \<Rightarrow> string \<Rightarrow> nat \<Rightarrow> bool" where
  "owns m k n \<longleftrightarrow> recorded m k n \<or> (\<exists>r. (r, Opened n) \<in> set (rm_starting m) \<and> rr_ID r = k)"

definition maps_ok :: "rev_mgr \<Rightarrow> bool" where
  "maps_ok m \<longleftrightarrow> distinct (keys (rm_tcpLns m)) \<and> distinct (keys (rm_udpConns m)) \<and> distinct (keys (rm_rules m))
     \<and> distinct (map fst (rm_open m)) \<and> (\<forall>n \<in> fst ` set (rm_open m). n < rm_next m)
     \<and> (\<forall>k r. lookup (rm_rules m) k = Some r \<longrightarrow> rr_ID r = k \<and> known_proto r)"

definition starts_ok :: "rev_mgr \<Rightarrow> bool" where
  "starts_ok m \<longleftrightarrow> distinct (map (\<lambda>rp. rr_ID (fst rp)) (rm_starting m))
     \<and> (\<forall>(r, p) \<in> set (rm_starting m). lookup (rm_rules m) (rr_ID r) = Some r \<and> (\<forall>n. \<not> recorded m (rr_ID r) n))"

definition socks_ok :: "rev_mgr \<Rightarrow> bool" where
  "socks_ok m \<longleftrightarrow>
     (\<forall>k n. owns m k n \<longrightarrow> (\<exists>r. lookup (rm_rules m) k = Some r \<and> (n, rr_Proto r, rr_Listen r) \<in> set (rm_open m)))
     \<and> (\<forall>k l n. owns m k n \<longrightarrow> owns m l n \<longrightarrow> k = l) \<and> (\<forall>k n n'. owns m k n \<longrightarrow> owns m k n' \<longrightarrow> n = n')
     \<and> (\<forall>n \<in> fst ` set (rm_open m). \<exists>k. owns m k n)"

definition rules_served :: "rev_mgr \<Rightarrow> bool" where
  "rules_served m \<longleftrightarrow> (\<forall>k r. lookup (rm_rules m) k = Some r \<longrightarrow>
     (\<exists>n. recorded m k n) \<or> (\<exists>p. (r, p) \<in> set (rm_starting m)))"

definition mgr_inv :: "rev_mgr \<Rightarrow> bool" where
  "mgr_inv m \<longleftrightarrow> maps_ok m \<and> starts_ok m \<and> socks_ok m \<and> rules_served m"

lemma mgr_inv_new: "mgr_inv newReverseMgr"
  by (simp add: mgr_inv_def maps_ok_def starts_ok_def socks_ok_def rules_served_def owns_def recorded_def
      newReverseMgr_def)

lemma mgr_inv_cong:
  assumes "rm_tcpLns m' = rm_tcpLns m" "rm_udpConns m' = rm_udpConns m" "rm_rules m' = rm_rules m"
    "rm_open m' = rm_open m" "rm_next m' = rm_next m" "rm_starting m' = rm_starting m"
  shows "mgr_inv m' = mgr_inv m"
  using assms
  by (simp add: mgr_inv_def maps_ok_def starts_ok_def socks_ok_def rules_served_def owns_def recorded_def)

section \<open>Stopping\<close>

lemma stopLocked_simps:
  "rm_tcpLns (stopLocked k m) = del k (rm_tcpLns m)" "rm_udpConns (stopLocked k m) = del k (rm_udpConns m)"
  "rm_rules (stopLocked k m) = del k (rm_rules m)" "rm_next (stopLocked k m) = rm_next m"
  "rm_starting (stopLocked k m) = rm_starting m" "rm_control (stopLocked k m) = rm_control m"
  by (simp_all add: stopLocked_def Let_def)

lemma set_close_sock: "set (close_sock s socks) = {(n, p) \<in> set socks. s \<noteq> Some n}"
  by (auto simp: close_sock_def split: option.split)

lemma set_stopLocked_open: "set (rm_open (stopLocked k m)) = {(n, p) \<in> set (rm_open m). \<not> recorded m k n}"
  by (auto simp: stopLocked_def Let_def set_close_sock recorded_def)

lemma distinct_close_sock: "distinct (map fst socks) \<Longrightarrow> distinct (map fst (close_sock s socks))"
  by (simp add: close_sock_def distinct_map_filter split: option.split)

lemma stopLocked_inv:
  assumes inv: "mgr_inv m" and quiet: "rm_starting m = []"
  shows "mgr_inv (stopLocked k m)"
proof -
  let ?m = "stopLocked k m"
  have rec: "recorded ?m l n \<longleftrightarrow> l \<noteq> k \<and> recorded m l n" for l n
    by (auto simp: recorded_def stopLocked_simps)
  have own: "owns m l n \<longleftrightarrow> recorded m l n" "owns ?m l n \<longleftrightarrow> recorded ?m l n" for l n
    by (simp_all add: owns_def quiet stopLocked_simps)
  from inv have so: "socks_ok m" and mo: "maps_ok m" and rs: "rules_served m" by (simp_all add: mgr_inv_def)
  have s: "recorded m l n \<Longrightarrow> \<exists>r. lookup (rm_rules m) l = Some r \<and> (n, rr_Proto r, rr_Listen r) \<in> set (rm_open m)"
    "recorded m a n \<Longrightarrow> recorded m b n \<Longrightarrow> a = b" "recorded m a n \<Longrightarrow> recorded m a n' \<Longrightarrow> n = n'"
    "n \<in> fst ` set (rm_open m) \<Longrightarrow> \<exists>a. recorded m a n" for l n n' a b
    using so unfolding socks_ok_def own by blast+
  have "distinct (map fst (rm_open ?m))"
    using mo by (simp add: stopLocked_def Let_def maps_ok_def distinct_close_sock)
  moreover have "\<forall>n \<in> fst ` set (rm_open ?m). n < rm_next m"
    using mo by (auto simp: maps_ok_def set_stopLocked_open)
  ultimately have "maps_ok ?m"
    using mo by (simp add: maps_ok_def stopLocked_simps)
  moreover have "starts_ok ?m" by (simp add: starts_ok_def stopLocked_simps quiet)
  moreover have "socks_ok ?m"
    unfolding socks_ok_def own rec set_stopLocked_open
  proof (intro conjI allI impI ballI)
    fix l n
    assume l: "l \<noteq> k \<and> recorded m l n"
    with s(1) obtain r where "lookup (rm_rules m) l = Some r" "(n, rr_Proto r, rr_Listen r) \<in> set (rm_open m)"
      by blast
    moreover have "\<not> recorded m k n" using l s(2) by blast
    ultimately show "\<exists>r. lookup (rm_rules ?m) l = Some r
        \<and> (n, rr_Proto r, rr_Listen r) \<in> {(n, p) \<in> set (rm_open m). \<not> recorded m k n}"
      using l by (simp add: stopLocked_simps)
  next
    fix n
    assume "n \<in> fst ` {(n, p) \<in> set (rm_open m). \<not> recorded m k n}"
    then have "n \<in> fst ` set (rm_open m)" "\<not> recorded m k n" by force+
    with s(4) show "\<exists>l. l \<noteq> k \<and> recorded m l n" by metis
  next
    fix a b n
    assume "a \<noteq> k \<and> recorded m a n" "b \<noteq> k \<and> recorded m b n"
    with s(2) show "a = b" by blast
  next
    fix a n n'
    assume "a \<noteq> k \<and> recorded m a n" "a \<noteq> k \<and> recorded m a n'"
    with s(3) show "n = n'" by blast
  qed
  moreover have "rules_served ?m"
    using rs by (simp add: rules_served_def stopLocked_simps quiet rec)
  ultimately show ?thesis by (simp add: mgr_inv_def)
qed

lemma fold_stop_inv:
  "mgr_inv m \<Longrightarrow> rm_starting m = [] \<Longrightarrow>
     mgr_inv (foldl (\<lambda>m x. if P x then stopLocked (f x) m else m) m xs)
     \<and> rm_starting (foldl (\<lambda>m x. if P x then stopLocked (f x) m else m) m xs) = []"
  by (induction xs arbitrary: m) (simp_all add: stopLocked_inv stopLocked_simps)

lemma fold_stop_rules:
  "lookup (rm_rules (foldl (\<lambda>m x. if P x then stopLocked (f x) m else m) m xs)) k =
     (if \<exists>x \<in> set xs. P x \<and> f x = k then None else lookup (rm_rules m) k)"
  by (induction xs arbitrary: m) (auto simp: stopLocked_simps)

lemma stopAll_inv: "mgr_inv m \<Longrightarrow> rm_starting m = [] \<Longrightarrow> mgr_inv (stopAll m) \<and> rm_starting (stopAll m) = []"
  using fold_stop_inv [of m "\<lambda>x. True" fst "rm_rules m"] by (simp add: stopAll_def)

lemma stopAll_rules: "lookup (rm_rules (stopAll m)) k = None"
proof -
  have "k \<in> fst ` set (rm_rules m)" if "lookup (rm_rules m) k = Some r" for r
    using lookup_Some_in [OF that] by force
  then show ?thesis
    using fold_stop_rules [of "\<lambda>x. True" fst m "rm_rules m" k]
    by (cases "lookup (rm_rules m) k") (auto simp: stopAll_def)
qed

lemma stop_obsolete_inv:
  "mgr_inv m \<Longrightarrow> rm_starting m = [] \<Longrightarrow> mgr_inv (stop_obsolete d m) \<and> rm_starting (stop_obsolete d m) = []"
  using fold_stop_inv [of m "obsolete d" fst "rm_rules m"] by (simp add: stop_obsolete_def)

lemma stop_obsolete_rules:
  assumes "distinct (keys (rm_rules m))"
  shows "lookup (rm_rules (stop_obsolete d m)) k =
    (case lookup (rm_rules m) k of None \<Rightarrow> None | Some r \<Rightarrow> if obsolete d (k, r) then None else Some r)"
proof -
  have "(\<exists>x \<in> set (rm_rules m). obsolete d x \<and> fst x = k) \<longleftrightarrow>
      (\<exists>r. lookup (rm_rules m) k = Some r \<and> obsolete d (k, r))"
  proof
    assume "\<exists>x \<in> set (rm_rules m). obsolete d x \<and> fst x = k"
    then obtain r where "(k, r) \<in> set (rm_rules m)" "obsolete d (k, r)" by auto
    with in_lookup_Some [OF assms] show "\<exists>r. lookup (rm_rules m) k = Some r \<and> obsolete d (k, r)" by blast
  next
    assume "\<exists>r. lookup (rm_rules m) k = Some r \<and> obsolete d (k, r)"
    with lookup_Some_in show "\<exists>x \<in> set (rm_rules m). obsolete d x \<and> fst x = k" by force
  qed
  then show ?thesis
    unfolding stop_obsolete_def fold_stop_rules by (auto split: option.split)
qed

section \<open>Starting\<close>

lemma lookup_pushed_rules_aux:
  "distinct (keys d) \<Longrightarrow> distinct (keys (foldl (\<lambda>m r. put (rr_ID r) r m) d rs))
     \<and> (\<forall>k r. lookup (foldl (\<lambda>m r. put (rr_ID r) r m) d rs) k = Some r \<longrightarrow>
          (r \<in> set rs \<and> rr_ID r = k) \<or> lookup d k = Some r)"
proof (induction rs arbitrary: d)
  case Nil
  then show ?case by simp
next
  case (Cons q rs)
  have d: "distinct (keys (put (rr_ID q) q d))" using Cons.prems by simp
  from Cons.IH [OF d] show ?case by (auto split: if_splits)
qed

lemma pushed_rules_facts:
  "distinct (keys (pushed_rules rs))"
  "lookup (pushed_rules rs) k = Some r \<Longrightarrow> r \<in> set rs \<and> rr_ID r = k"
proof -
  have "distinct (keys (pushed_rules rs)) \<and> (\<forall>k r. lookup (pushed_rules rs) k = Some r \<longrightarrow>
      (r \<in> set rs \<and> rr_ID r = k) \<or> lookup [] k = Some r)"
    unfolding pushed_rules_def by (rule lookup_pushed_rules_aux) simp
  then show "distinct (keys (pushed_rules rs))"
    and "lookup (pushed_rules rs) k = Some r \<Longrightarrow> r \<in> set rs \<and> rr_ID r = k" by simp_all
qed

lemma foldl_put_other:
  "k \<notin> rr_ID ` set rs \<Longrightarrow> lookup (foldl (\<lambda>m r. put (rr_ID r) r m) d rs) k = lookup d k"
  by (induction rs arbitrary: d) auto

lemma pushed_rules_mem:
  assumes "distinct (map rr_ID rs)" and "r \<in> set rs"
  shows "lookup (pushed_rules rs) (rr_ID r) = Some r"
proof -
  obtain as bs where rs: "rs = as @ r # bs" using assms(2) by (meson split_list)
  with assms(1) have "rr_ID r \<notin> rr_ID ` set bs" by simp
  then show ?thesis unfolding pushed_rules_def rs by (simp add: foldl_put_other)
qed

lemma mgr_inv_parts:
  assumes "mgr_inv m"
  shows "lookup (rm_rules m) k = None \<Longrightarrow> \<not> owns m k n"
    and "(r, p) \<in> set (rm_starting m) \<Longrightarrow> lookup (rm_rules m) (rr_ID r) = Some r"
    and "(r, p) \<in> set (rm_starting m) \<Longrightarrow> \<not> recorded m (rr_ID r) n"
  using assms by (fastforce simp: mgr_inv_def socks_ok_def starts_ok_def)+

lemma add_start_inv:
  assumes inv: "mgr_inv m" and new: "lookup (rm_rules m) k = None" and w: "rr_ID w = k" "known_proto w"
  shows "mgr_inv (m\<lparr>rm_rules := put k w (rm_rules m), rm_starting := rm_starting m @ [(w, Begin)]\<rparr>)"
proof -
  let ?m = "m\<lparr>rm_rules := put k w (rm_rules m), rm_starting := rm_starting m @ [(w, Begin)]\<rparr>"
  have rec: "recorded ?m l n = recorded m l n" and own: "owns ?m l n = owns m l n" for l n
    by (auto simp: recorded_def owns_def)
  have none: "\<not> owns m k n" for n by (rule mgr_inv_parts(1) [OF inv new])
  then have nrec: "\<not> recorded m k n" for n by (simp add: owns_def)
  from inv have so: "socks_ok m" and mo: "maps_ok m" and rs: "rules_served m" and st: "starts_ok m"
    by (simp_all add: mgr_inv_def)
  have "maps_ok ?m" using mo w by (auto simp: maps_ok_def)
  moreover have "starts_ok ?m"
  proof -
    have other: "rr_ID (fst x) \<noteq> k" if "x \<in> set (rm_starting m)" for x
    proof
      assume "rr_ID (fst x) = k"
      with mgr_inv_parts(2) [OF inv, of "fst x" "snd x"] that new show False by simp
    qed
    then have "k \<notin> (\<lambda>rp. rr_ID (fst rp)) ` set (rm_starting m)" by blast
    then have "distinct (map (\<lambda>rp. rr_ID (fst rp)) (rm_starting ?m))"
      using st w by (simp add: starts_ok_def)
    moreover have "lookup (rm_rules ?m) (rr_ID r) = Some r \<and> (\<forall>n. \<not> recorded ?m (rr_ID r) n)"
      if "(r, p) \<in> set (rm_starting ?m)" for r p
    proof (cases "(r, p) \<in> set (rm_starting m)")
      case True
      with other [OF True] st show ?thesis unfolding rec starts_ok_def by auto
    next
      case False
      with that nrec w show ?thesis unfolding rec by simp
    qed
    ultimately show ?thesis unfolding starts_ok_def by blast
  qed
  moreover have "socks_ok ?m"
  proof -
    have "\<exists>r. lookup (rm_rules ?m) l = Some r \<and> (n, rr_Proto r, rr_Listen r) \<in> set (rm_open ?m)"
      if "owns m l n" for l n
      using that so none unfolding socks_ok_def by (cases "l = k") auto
    with so show ?thesis unfolding socks_ok_def own by simp
  qed
  moreover have "rules_served ?m"
    using rs unfolding rules_served_def rec by (auto split: if_splits)
  ultimately show ?thesis by (simp add: mgr_inv_def)
qed

lemma start_missing_inv:
  assumes "mgr_inv m" and "\<forall>(k, w) \<in> set d. rr_ID w = k \<and> known_proto w"
  shows "mgr_inv (start_missing d m)"
  using assms
proof (induction d arbitrary: m)
  case Nil
  then show ?case by (simp add: start_missing_def)
next
  case (Cons x d)
  obtain k w where x: "x = (k, w)" by fastforce
  let ?m = "if lookup (rm_rules m) k = None
    then m\<lparr>rm_rules := put k w (rm_rules m), rm_starting := rm_starting m @ [(w, Begin)]\<rparr> else m"
  have "rr_ID w = k" "known_proto w" using Cons.prems(2) x by auto
  with add_start_inv [OF Cons.prems(1), of k w] Cons.prems(1) have "mgr_inv ?m" by simp
  moreover have "start_missing (x # d) m = start_missing d ?m" by (simp add: start_missing_def x)
  ultimately show ?case using Cons.IH [of ?m] Cons.prems(2) by simp
qed

lemma start_missing_rules:
  assumes "distinct (keys d)"
  shows "lookup (rm_rules (start_missing d m)) k =
    (case lookup (rm_rules m) k of Some r \<Rightarrow> Some r | None \<Rightarrow> lookup d k)"
  using assms
proof (induction d arbitrary: m)
  case Nil
  then show ?case by (simp add: start_missing_def split: option.split)
next
  case (Cons x d)
  obtain l w where x: "x = (l, w)" by fastforce
  let ?m = "if lookup (rm_rules m) l = None
    then m\<lparr>rm_rules := put l w (rm_rules m), rm_starting := rm_starting m @ [(w, Begin)]\<rparr> else m"
  have "start_missing (x # d) m = start_missing d ?m" by (simp add: start_missing_def x)
  then show ?case using Cons x by (auto split: option.splits)
qed

lemma start_missing_control: "rm_control (start_missing d m) = rm_control m"
  unfolding start_missing_def by (induction d arbitrary: m) auto

lemma apply_push_inv:
  assumes "mgr_inv m" and "rm_starting m = []" and "list_all known_proto rs"
  shows "mgr_inv (apply_push rs m)"
proof -
  have "\<forall>(k, w) \<in> set (pushed_rules rs). rr_ID w = k \<and> known_proto w"
    using in_lookup_Some [OF pushed_rules_facts(1)] pushed_rules_facts(2) assms(3)
    by (fastforce simp: list_all_iff)
  with stop_obsolete_inv [OF assms(1,2)] show ?thesis
    by (simp add: apply_push_def Let_def start_missing_inv)
qed

text \<open>The rules after a push: those pushed; a rule that only changes settings keeps its old ones.\<close>

lemma apply_push_rules:
  assumes "mgr_inv m"
  shows "lookup (rm_rules (apply_push rs m)) k =
    (case lookup (pushed_rules rs) k of
       None \<Rightarrow> None
     | Some want \<Rightarrow>
         (case lookup (rm_rules m) k of
            None \<Rightarrow> Some want
          | Some cur \<Rightarrow> if rr_Proto want = rr_Proto cur \<and> rr_Listen want = rr_Listen cur
                          \<and> rr_Target want = rr_Target cur then Some cur else Some want))"
proof -
  have d: "distinct (keys (rm_rules m))" using assms by (simp add: mgr_inv_def maps_ok_def)
  show ?thesis
    unfolding apply_push_def Let_def start_missing_rules [OF pushed_rules_facts(1)] stop_obsolete_rules [OF d]
    by (auto simp: obsolete_def split: option.split)
qed

section \<open>Completing the starts\<close>

lemma report_simps [simp]:
  "rm_tcpLns (report st m) = rm_tcpLns m" "rm_udpConns (report st m) = rm_udpConns m"
  "rm_rules (report st m) = rm_rules m" "rm_open (report st m) = rm_open m" "rm_next (report st m) = rm_next m"
  "rm_starting (report st m) = rm_starting m" "rm_control (report st m) = rm_control m"
  by (simp_all add: report_def)

lemma starting_unique:
  assumes "mgr_inv m" and "rm_starting m = xs @ (r, p) # ys" and "(q, pq) \<in> set xs \<union> set ys"
  shows "rr_ID q \<noteq> rr_ID r"
proof -
  have "distinct (map (\<lambda>rp. rr_ID (fst rp)) (xs @ (r, p) # ys))"
    using assms(1,2) by (simp add: mgr_inv_def starts_ok_def)
  then have "rr_ID r \<notin> (\<lambda>rp. rr_ID (fst rp)) ` (set xs \<union> set ys)" by auto
  moreover have "rr_ID q \<in> (\<lambda>rp. rr_ID (fst rp)) ` (set xs \<union> set ys)" using assms(3) by force
  ultimately show ?thesis by metis
qed

lemma socks_okD:
  assumes "socks_ok m"
  shows "owns m k n \<Longrightarrow> \<exists>r. lookup (rm_rules m) k = Some r \<and> (n, rr_Proto r, rr_Listen r) \<in> set (rm_open m)"
    and "owns m k n \<Longrightarrow> owns m l n \<Longrightarrow> k = l" and "owns m k n \<Longrightarrow> owns m k n' \<Longrightarrow> n = n'"
    and "n \<in> fst ` set (rm_open m) \<Longrightarrow> \<exists>k. owns m k n"
  using assms unfolding socks_ok_def by blast+

lemma maps_okI:
  assumes "distinct (keys (rm_tcpLns m))" "distinct (keys (rm_udpConns m))" "distinct (keys (rm_rules m))"
    and "distinct (map fst (rm_open m))" "\<And>n. n \<in> fst ` set (rm_open m) \<Longrightarrow> n < rm_next m"
    and "\<And>k r. lookup (rm_rules m) k = Some r \<Longrightarrow> rr_ID r = k \<and> known_proto r"
  shows "maps_ok m"
  using assms unfolding maps_ok_def by blast

lemma maps_okD:
  assumes "maps_ok m"
  shows "distinct (keys (rm_tcpLns m))" "distinct (keys (rm_udpConns m))" "distinct (keys (rm_rules m))"
    and "distinct (map fst (rm_open m))" "n \<in> fst ` set (rm_open m) \<Longrightarrow> n < rm_next m"
    and "lookup (rm_rules m) k = Some r \<Longrightarrow> rr_ID r = k \<and> known_proto r"
  using assms unfolding maps_ok_def by blast+

lemma starts_okI:
  assumes "distinct (map (\<lambda>rp. rr_ID (fst rp)) (rm_starting m))"
    and "\<And>r p n. (r, p) \<in> set (rm_starting m) \<Longrightarrow> lookup (rm_rules m) (rr_ID r) = Some r \<and> \<not> recorded m (rr_ID r) n"
  shows "starts_ok m"
  using assms unfolding starts_ok_def by blast

lemma rules_servedI:
  assumes "rules_served m"
    and "\<And>k r. lookup (rm_rules m') k = Some r \<Longrightarrow> lookup (rm_rules m) k = Some r"
    and "\<And>k n. recorded m k n \<Longrightarrow> recorded m' k n"
    and "\<And>k r p. lookup (rm_rules m') k = Some r \<Longrightarrow> (r, p) \<in> set (rm_starting m) \<Longrightarrow>
       (\<exists>n. recorded m' k n) \<or> (\<exists>q. (r, q) \<in> set (rm_starting m'))"
  shows "rules_served m'"
  using assms unfolding rules_served_def by meson

lemma starts_ok_step:
  assumes "starts_ok m" and "rm_starting m = xs @ (r, p) # ys"
    and "rm_tcpLns m' = rm_tcpLns m" "rm_udpConns m' = rm_udpConns m" "rm_rules m' = rm_rules m"
    and "rm_starting m' = xs @ (r, q) # ys"
  shows "starts_ok m'"
  using assms by (simp add: starts_ok_def recorded_def)

lemma refused_inv:
  assumes inv: "mgr_inv m" and s: "rm_starting m = xs @ (r, Begin) # ys"
  shows "mgr_inv (m\<lparr>rm_starting := xs @ (r, Refused e) # ys\<rparr>)"
proof -
  let ?m = "m\<lparr>rm_starting := xs @ (r, Refused e) # ys\<rparr>"
  have rec: "recorded ?m k n = recorded m k n" for k n by (simp add: recorded_def)
  have own: "owns ?m k n = owns m k n" for k n by (auto simp: rec owns_def s)
  have "socks_ok m" "maps_ok m" "starts_ok m" "rules_served m" using inv by (simp_all add: mgr_inv_def)
  then have "socks_ok ?m" "maps_ok ?m" unfolding socks_ok_def own maps_ok_def by simp_all
  moreover have "starts_ok ?m" by (rule starts_ok_step [OF \<open>starts_ok m\<close> s]) simp_all
  moreover have "rules_served ?m"
    by (rule rules_servedI [OF \<open>rules_served m\<close>]) (auto simp: rec s)
  ultimately show ?thesis unfolding mgr_inv_def by blast
qed

lemma begin_owns_nothing:
  assumes inv: "mgr_inv m" and s: "rm_starting m = xs @ (r, p) # ys" and p: "\<forall>n. p \<noteq> Opened n"
  shows "\<not> owns m (rr_ID r) j"
proof
  assume "owns m (rr_ID r) j"
  moreover have "\<not> recorded m (rr_ID r) j" by (rule mgr_inv_parts(3) [OF inv, of r p]) (simp add: s)
  ultimately obtain q where q: "(q, Opened j) \<in> set (rm_starting m)" "rr_ID q = rr_ID r"
    unfolding owns_def by blast
  have "(q, Opened j) \<in> set xs \<union> set ys" using q(1) p by (simp add: s) blast
  from starting_unique [OF inv s this] q(2) show False by simp
qed

lemma opened_inv:
  assumes inv: "mgr_inv m" and s: "rm_starting m = xs @ (r, Begin) # ys"
  shows "mgr_inv (m\<lparr>rm_open := (rm_next m, rr_Proto r, rr_Listen r) # rm_open m, rm_next := rm_next m + 1,
     rm_starting := xs @ (r, Opened (rm_next m)) # ys\<rparr>)"
proof -
  let ?n = "rm_next m"
  let ?m = "m\<lparr>rm_open := (?n, rr_Proto r, rr_Listen r) # rm_open m, rm_next := ?n + 1,
     rm_starting := xs @ (r, Opened ?n) # ys\<rparr>"
  from inv have so: "socks_ok m" and mo: "maps_ok m" and rs: "rules_served m" and st: "starts_ok m"
    by (simp_all add: mgr_inv_def)
  have rec: "recorded ?m k j = recorded m k j" for k j by (simp add: recorded_def)
  have own: "owns ?m k j \<longleftrightarrow> owns m k j \<or> (k = rr_ID r \<and> j = ?n)" for k j
    unfolding owns_def rec by (auto simp: s)
  have low: "\<forall>n \<in> fst ` set (rm_open m). n < ?n" using mo unfolding maps_ok_def by blast
  then have new: "?n \<notin> fst ` set (rm_open m)" by blast
  have fresh: "\<not> owns m k ?n" for k
    using socks_okD(1) [OF so, of k ?n] new by (metis fst_conv image_eqI)
  note mine = begin_owns_nothing [OF inv s]
  have r: "lookup (rm_rules m) (rr_ID r) = Some r" by (rule mgr_inv_parts(2) [OF inv, of r Begin]) (simp add: s)
  have "\<forall>n \<in> fst ` set (rm_open ?m). n < ?n + 1" using low by (simp add: less_Suc_eq)
  with new have "maps_ok ?m" using mo unfolding maps_ok_def by simp
  moreover have "starts_ok ?m" by (rule starts_ok_step [OF st s]) simp_all
  moreover have "socks_ok ?m"
    unfolding socks_ok_def own
  proof (intro conjI allI impI ballI)
    fix k j
    assume "owns m k j \<or> (k = rr_ID r \<and> j = ?n)"
    then show "\<exists>q. lookup (rm_rules ?m) k = Some q \<and> (j, rr_Proto q, rr_Listen q) \<in> set (rm_open ?m)"
    proof
      assume "owns m k j"
      then obtain q where "lookup (rm_rules m) k = Some q" "(j, rr_Proto q, rr_Listen q) \<in> set (rm_open m)"
        using socks_okD(1) [OF so] by blast
      then show ?thesis by (intro exI [of _ q]) simp
    next
      assume "k = rr_ID r \<and> j = ?n"
      with r show ?thesis by (intro exI [of _ r]) simp
    qed
  next
    fix a b j
    assume "owns m a j \<or> (a = rr_ID r \<and> j = ?n)" "owns m b j \<or> (b = rr_ID r \<and> j = ?n)"
    with socks_okD(2) [OF so] fresh show "a = b" by blast
  next
    fix a j j'
    assume "owns m a j \<or> (a = rr_ID r \<and> j = ?n)" "owns m a j' \<or> (a = rr_ID r \<and> j' = ?n)"
    with socks_okD(3) [OF so] mine show "j = j'" by blast
  next
    fix j
    assume "j \<in> fst ` set (rm_open ?m)"
    then consider "j = ?n" | "j \<in> fst ` set (rm_open m)" by auto
    then show "\<exists>k. owns m k j \<or> (k = rr_ID r \<and> j = ?n)"
      by cases (blast, use socks_okD(4) [OF so] in blast)
  qed
  moreover have "rules_served ?m"
    by (rule rules_servedI [OF rs]) (auto simp: recorded_def s)
  ultimately show ?thesis unfolding mgr_inv_def by blast
qed

lemma record_inv:
  assumes inv: "mgr_inv m" and s: "rm_starting m = xs @ (r, Opened n) # ys"
    and m1: "rm_rules m1 = rm_rules m" "rm_open m1 = rm_open m" "rm_next m1 = rm_next m" "rm_starting m1 = xs @ ys"
      "distinct (keys (rm_tcpLns m1))" "distinct (keys (rm_udpConns m1))"
    and rec: "\<And>k j. recorded m1 k j \<longleftrightarrow> recorded m k j \<or> (k = rr_ID r \<and> j = n)"
  shows "mgr_inv m1"
proof -
  from inv have so: "socks_ok m" and mo: "maps_ok m" and rs: "rules_served m" and st: "starts_ok m"
    by (simp_all add: mgr_inv_def)
  have own: "owns m1 k j \<longleftrightarrow> owns m k j" for k j
    unfolding owns_def rec using s m1(4) by auto
  have "maps_ok m1" using mo unfolding maps_ok_def m1(1,2,3) by (simp add: m1(5,6))
  moreover have "socks_ok m1" using so unfolding socks_ok_def own m1(1,2) .
  moreover have "starts_ok m1"
  proof (rule starts_okI)
    show "distinct (map (\<lambda>rp. rr_ID (fst rp)) (rm_starting m1))"
      using st s m1(4) by (auto simp: starts_ok_def)
  next
    fix q p j
    assume "(q, p) \<in> set (rm_starting m1)"
    then have q: "(q, p) \<in> set (rm_starting m)" "(q, p) \<in> set xs \<union> set ys" by (auto simp: s m1(4))
    have "rr_ID q \<noteq> rr_ID r" using starting_unique [OF inv s q(2)] .
    with mgr_inv_parts(2,3) [OF inv q(1)]
    show "lookup (rm_rules m1) (rr_ID q) = Some q \<and> \<not> recorded m1 (rr_ID q) j" unfolding rec m1(1) by simp
  qed
  moreover have "rules_served m1"
  proof (rule rules_servedI [OF rs])
    fix k q p
    assume q: "lookup (rm_rules m1) k = Some q" and p: "(q, p) \<in> set (rm_starting m)"
    from q mo have "rr_ID q = k" unfolding maps_ok_def m1(1) by blast
    with p s m1(4) show "(\<exists>j. recorded m1 k j) \<or> (\<exists>p. (q, p) \<in> set (rm_starting m1))"
      unfolding rec by auto
  qed (simp_all add: rec m1(1))
  ultimately show ?thesis unfolding mgr_inv_def by blast
qed

lemma forget_inv:
  assumes inv: "mgr_inv m" and s: "rm_starting m = xs @ (r, Refused e) # ys"
  shows "mgr_inv (m\<lparr>rm_starting := xs @ ys, rm_rules := del (rr_ID r) (rm_rules m)\<rparr>)"
proof -
  let ?m = "m\<lparr>rm_starting := xs @ ys, rm_rules := del (rr_ID r) (rm_rules m)\<rparr>"
  from inv have so: "socks_ok m" and mo: "maps_ok m" and rs: "rules_served m" and st: "starts_ok m"
    by (simp_all add: mgr_inv_def)
  have rec: "recorded ?m k j = recorded m k j" for k j by (simp add: recorded_def)
  have own: "owns ?m k j \<longleftrightarrow> owns m k j" for k j unfolding owns_def rec by (auto simp: s)
  have mine: "\<not> owns m (rr_ID r) j" for j by (rule begin_owns_nothing [OF inv s]) simp
  have rules: "lookup (rm_rules ?m) k = (if k = rr_ID r then None else lookup (rm_rules m) k)" for k by simp
  have "maps_ok ?m"
  proof (rule maps_okI)
    show "rr_ID q = k \<and> known_proto q" if "lookup (rm_rules ?m) k = Some q" for k q
      using that maps_okD(6) [OF mo, of k q] unfolding rules by (simp split: if_splits)
    show "n < rm_next ?m" if "n \<in> fst ` set (rm_open ?m)" for n
      using that maps_okD(5) [OF mo, of n] by simp
  qed (use maps_okD(1-4) [OF mo] in \<open>simp_all add: distinct_keys_del\<close>)
  moreover have "starts_ok ?m"
  proof (rule starts_okI)
    have "distinct (map (\<lambda>rp. rr_ID (fst rp)) (xs @ (r, Refused e) # ys))"
      using st unfolding starts_ok_def s by blast
    then show "distinct (map (\<lambda>rp. rr_ID (fst rp)) (rm_starting ?m))" by simp
  next
    fix q p j
    assume "(q, p) \<in> set (rm_starting ?m)"
    then have q: "(q, p) \<in> set (rm_starting m)" "(q, p) \<in> set xs \<union> set ys" by (auto simp: s)
    have "rr_ID q \<noteq> rr_ID r" using starting_unique [OF inv s q(2)] .
    with mgr_inv_parts(2,3) [OF inv q(1)]
    show "lookup (rm_rules ?m) (rr_ID q) = Some q \<and> \<not> recorded ?m (rr_ID q) j" unfolding rules rec by simp
  qed
  moreover have "socks_ok ?m"
    unfolding socks_ok_def own
  proof (intro conjI allI impI ballI)
    fix k j
    assume k: "owns m k j"
    then have "k \<noteq> rr_ID r" using mine by blast
    then have "lookup (rm_rules ?m) k = lookup (rm_rules m) k" unfolding rules by simp
    moreover have "rm_open ?m = rm_open m" by simp
    ultimately show "\<exists>q. lookup (rm_rules ?m) k = Some q \<and> (j, rr_Proto q, rr_Listen q) \<in> set (rm_open ?m)"
      using socks_okD(1) [OF so k] by (simp only:)
  next
    fix j
    assume "j \<in> fst ` set (rm_open ?m)"
    then have "j \<in> fst ` set (rm_open m)" by simp
    then show "\<exists>k. owns m k j" by (rule socks_okD(4) [OF so])
  qed (use socks_okD(2,3) [OF so] in blast)+
  moreover have "rules_served ?m"
  proof (rule rules_servedI [OF rs])
    fix k q p
    assume q: "lookup (rm_rules ?m) k = Some q" and p: "(q, p) \<in> set (rm_starting m)"
    from q have "k \<noteq> rr_ID r" "lookup (rm_rules m) k = Some q" unfolding rules by (simp_all split: if_splits)
    moreover from this(2) mo have "rr_ID q = k" unfolding maps_ok_def by blast
    ultimately show "(\<exists>n. recorded ?m k n) \<or> (\<exists>p. (q, p) \<in> set (rm_starting ?m))" using p s by auto
  next
    fix k q
    assume "lookup (rm_rules ?m) k = Some q"
    then show "lookup (rm_rules m) k = Some q" unfolding rules by (simp split: if_splits)
  qed (simp add: rec)
  ultimately show ?thesis unfolding mgr_inv_def by blast
qed

lemma start_listen_cases:
  "start_listen os r m = (m', p) \<longleftrightarrow>
     (\<exists>e. os (map snd (rm_open m)) (rr_Proto r) (rr_Listen r) = Some e \<and> m' = m \<and> p = Refused e)
     \<or> (os (map snd (rm_open m)) (rr_Proto r) (rr_Listen r) = None
        \<and> m' = m\<lparr>rm_open := (rm_next m, rr_Proto r, rr_Listen r) # rm_open m, rm_next := rm_next m + 1\<rparr>
        \<and> p = Opened (rm_next m))"
  by (auto simp: start_listen_def split: option.splits)

lemma start_finish_inv:
  assumes inv: "mgr_inv m" and s: "rm_starting m = xs @ (r, p) # ys" and "p \<noteq> Begin"
  shows "mgr_inv (start_finish r p (m\<lparr>rm_starting := xs @ ys\<rparr>))"
proof (cases p)
  case Begin
  with assms(3) show ?thesis by simp
next
  case (Opened n)
  let ?m0 = "m\<lparr>rm_starting := xs @ ys\<rparr>"
  let ?m1 = "if rr_Proto r = ''tcp'' then ?m0\<lparr>rm_tcpLns := put (rr_ID r) n (rm_tcpLns ?m0)\<rparr>
    else ?m0\<lparr>rm_udpConns := put (rr_ID r) n (rm_udpConns ?m0)\<rparr>"
  have mo: "maps_ok m" using inv by (simp add: mgr_inv_def)
  have none: "\<not> recorded m (rr_ID r) j" for j by (rule mgr_inv_parts(3) [OF inv, of r p]) (simp add: s)
  have "mgr_inv ?m1"
  proof (rule record_inv [OF inv s [unfolded Opened]])
    show "recorded ?m1 k j \<longleftrightarrow> recorded m k j \<or> (k = rr_ID r \<and> j = n)" for k j
      using none [of j] by (auto simp: recorded_def)
  qed (use maps_okD(1,2) [OF mo] in \<open>simp_all add: distinct_keys_put\<close>)
  moreover have "start_finish r p ?m0 = report \<lparr>st_ID = rr_ID r, st_OK = True, st_Err = []\<rparr> ?m1"
    unfolding start_finish_def Opened by simp
  ultimately show ?thesis
    using mgr_inv_cong [of "report \<lparr>st_ID = rr_ID r, st_OK = True, st_Err = []\<rparr> ?m1" ?m1] by (simp only: report_simps)
next
  case (Refused e)
  let ?m1 = "m\<lparr>rm_starting := xs @ ys, rm_rules := del (rr_ID r) (rm_rules m)\<rparr>"
  have "mgr_inv ?m1" by (rule forget_inv [OF inv s [unfolded Refused]])
  moreover have "mgr_inv (start_finish r p (m\<lparr>rm_starting := xs @ ys\<rparr>)) = mgr_inv ?m1"
    by (rule mgr_inv_cong) (simp_all add: start_finish_def Refused Let_def)
  ultimately show ?thesis by simp
qed

lemma start_step_inv: "start_step os m m' \<Longrightarrow> mgr_inv m \<Longrightarrow> mgr_inv m'"
proof (induction rule: start_step.induct)
  case (listen m xs r ys m' p)
  from listen(3) [unfolded start_listen_cases] refused_inv [OF listen(4,1)] opened_inv [OF listen(4,1)]
  show ?case by auto
next
  case (finish m xs r p ys)
  then show ?case by (intro start_finish_inv)
qed

lemma calm_reach_inv: "calm_reach os m \<Longrightarrow> mgr_inv m"
proof (induction rule: calm_reach.induct)
  case start
  show ?case by (rule mgr_inv_new)
next
  case (connect m)
  then show ?case using mgr_inv_cong [of "m\<lparr>rm_control := True\<rparr>" m] by simp
next
  case (push m rules)
  then show ?case by (intro apply_push_inv)
next
  case (go m m')
  then show ?case by (blast intro: start_step_inv)
next
  case (disconnect m)
  then have "mgr_inv (m\<lparr>rm_control := False\<rparr>)" using mgr_inv_cong [of "m\<lparr>rm_control := False\<rparr>" m] by simp
  with disconnect stopAll_inv [of "m\<lparr>rm_control := False\<rparr>"] show ?case by simp
qed

text \<open>With no start under way, sockets and rules correspond one to one.\<close>

lemma settled:
  assumes inv: "mgr_inv m" and quiet: "rm_starting m = []"
  shows "(\<exists>r. lookup (rm_rules m) k = Some r) \<longleftrightarrow> (\<exists>n. recorded m k n)"
    and "recorded m k n \<Longrightarrow> \<exists>r. lookup (rm_rules m) k = Some r \<and> (n, rr_Proto r, rr_Listen r) \<in> set (rm_open m)"
    and "(n, p) \<in> set (rm_open m) \<Longrightarrow> \<exists>k. recorded m k n"
    and "length (rm_open m) = length (rm_rules m)"
proof -
  have own: "owns m k n \<longleftrightarrow> recorded m k n" for k n by (simp add: owns_def quiet)
  from inv have so: "socks_ok m" and mo: "maps_ok m" and rs: "rules_served m" by (simp_all add: mgr_inv_def)
  show r: "(\<exists>r. lookup (rm_rules m) k = Some r) \<longleftrightarrow> (\<exists>n. recorded m k n)" for k
  proof
    assume "\<exists>r. lookup (rm_rules m) k = Some r"
    with rs show "\<exists>n. recorded m k n" unfolding rules_served_def quiet by simp
  next
    assume "\<exists>n. recorded m k n"
    with socks_okD(1) [OF so, of k] show "\<exists>r. lookup (rm_rules m) k = Some r" unfolding own by blast
  qed
  show "recorded m k n \<Longrightarrow> \<exists>r. lookup (rm_rules m) k = Some r \<and> (n, rr_Proto r, rr_Listen r) \<in> set (rm_open m)"
    using socks_okD(1) [OF so, of k n] unfolding own .
  show "(n, p) \<in> set (rm_open m) \<Longrightarrow> \<exists>k. recorded m k n"
    using socks_okD(4) [OF so, of n] unfolding own by force
  define f where "f k = (THE n. recorded m k n)" for k
  have f: "f k = n" if "recorded m k n" for k n
    unfolding f_def using that socks_okD(3) [OF so, unfolded own] by blast
  have "bij_betw f (set (keys (rm_rules m))) (fst ` set (rm_open m))"
  proof (rule bij_betw_imageI)
    show "inj_on f (set (keys (rm_rules m)))"
    proof (rule inj_onI)
      fix a b
      assume "a \<in> set (keys (rm_rules m))" "b \<in> set (keys (rm_rules m))" and eq: "f a = f b"
      then have "lookup (rm_rules m) a \<noteq> None" "lookup (rm_rules m) b \<noteq> None"
        by (simp_all add: map_of_eq_None_iff)
      then obtain na nb where "recorded m a na" "recorded m b nb" using r by blast
      with f eq socks_okD(2) [OF so, unfolded own] show "a = b" by metis
    qed
    show "f ` set (keys (rm_rules m)) = fst ` set (rm_open m)"
    proof (intro equalityI subsetI)
      fix n
      assume "n \<in> f ` set (keys (rm_rules m))"
      then obtain a where a: "a \<in> set (keys (rm_rules m))" "n = f a" by blast
      then have "lookup (rm_rules m) a \<noteq> None" by (simp add: map_of_eq_None_iff)
      then obtain na where na: "recorded m a na" using r by blast
      with a f have "n = na" by blast
      with socks_okD(1) [OF so, unfolded own, OF na] show "n \<in> fst ` set (rm_open m)" by force
    next
      fix n
      assume "n \<in> fst ` set (rm_open m)"
      with socks_okD(4) [OF so, unfolded own] obtain k where k: "recorded m k n" by blast
      then have "k \<in> set (keys (rm_rules m))" using r [of k] by (metis key_in lookup_Some_in)
      with f [OF k] show "n \<in> f ` set (keys (rm_rules m))" by blast
    qed
  qed
  then have "card (set (keys (rm_rules m))) = card (fst ` set (rm_open m))" by (rule bij_betw_same_card)
  moreover have "card (fst ` set (rm_open m)) = length (rm_open m)"
    using maps_okD(4) [OF mo] distinct_card [of "map fst (rm_open m)"] by simp
  moreover have "card (set (keys (rm_rules m))) = length (rm_rules m)"
    using maps_okD(3) [OF mo] distinct_card [of "keys (rm_rules m)"] by simp
  ultimately show "length (rm_open m) = length (rm_rules m)" by simp
qed

section \<open>A push is served\<close>

definition ports_apart :: "reverse_rule gomap \<Rightarrow> bool" where
  "ports_apart rs \<longleftrightarrow> (\<forall>k l r q. lookup rs k = Some r \<longrightarrow> lookup rs l = Some q \<longrightarrow> k \<noteq> l \<longrightarrow>
     (rr_Proto r, rr_Listen r) \<noteq> (rr_Proto q, rr_Listen q))"

definition none_refused :: "rev_mgr \<Rightarrow> bool" where
  "none_refused m \<longleftrightarrow> (\<forall>r e. (r, Refused e) \<notin> set (rm_starting m))"

text \<open>Where the system refuses only ports in use, no start of rules with different ports fails.\<close>

lemma start_step_serves:
  assumes "start_step os m m'" and "mgr_inv m" and "exclusive os" and "ports_apart (rm_rules m)" and "none_refused m"
  shows "rm_rules m' = rm_rules m \<and> none_refused m'"
  using assms
proof (induction rule: start_step.induct)
  case (listen m xs r ys m' p)
  note inv = listen.prems(1)
  from inv have so: "socks_ok m" by (simp add: mgr_inv_def)
  have r: "lookup (rm_rules m) (rr_ID r) = Some r"
    by (rule mgr_inv_parts(2) [OF inv, of r Begin]) (simp add: listen(1))
  have "(rr_Proto r, rr_Listen r) \<notin> set (map snd (rm_open m))"
  proof
    assume "(rr_Proto r, rr_Listen r) \<in> set (map snd (rm_open m))"
    then obtain n where n: "(n, rr_Proto r, rr_Listen r) \<in> set (rm_open m)" by auto
    then have "n \<in> fst ` set (rm_open m)" by force
    with socks_okD(4) [OF so] obtain k where k: "owns m k n" by blast
    from socks_okD(1) [OF so k] obtain q where q: "lookup (rm_rules m) k = Some q"
      "(n, rr_Proto q, rr_Listen q) \<in> set (rm_open m)" by blast
    have "distinct (map fst (rm_open m))" using inv by (simp add: mgr_inv_def maps_ok_def)
    from eq_key_imp_eq_value [OF this q(2) n] have "(rr_Proto q, rr_Listen q) = (rr_Proto r, rr_Listen r)" .
    with listen.prems(3) q(1) r have "k = rr_ID r" unfolding ports_apart_def by metis
    with k begin_owns_nothing [OF inv listen(1)] show False by simp
  qed
  then have "os (map snd (rm_open m)) (rr_Proto r) (rr_Listen r) = None"
    using listen.prems(2) unfolding exclusive_def by blast
  with listen(3) have m': "m' = m\<lparr>rm_open := (rm_next m, rr_Proto r, rr_Listen r) # rm_open m, rm_next := rm_next m + 1\<rparr>"
    and p: "p = Opened (rm_next m)" by (auto simp: start_listen_cases)
  show ?case using listen.prems(4) listen(1) by (auto simp: m' p none_refused_def)
next
  case (finish m xs r p ys)
  then show ?case by (cases p) (auto simp: start_finish_def none_refused_def)
qed

lemma starts_serve:
  assumes "(start_step os)\<^sup>*\<^sup>* m m'" and "mgr_inv m" and "exclusive os" and "ports_apart (rm_rules m)" and "none_refused m"
  shows "mgr_inv m' \<and> rm_rules m' = rm_rules m \<and> none_refused m'"
  using assms(1)
proof (induction rule: rtranclp_induct)
  case base
  with assms show ?case by simp
next
  case (step m1 m2)
  with start_step_serves [OF step(2)] start_step_inv [OF step(2)] assms show ?case by simp
qed

text \<open>The starts come to an end: each step shortens the work that is left.\<close>

definition work_left :: "rev_mgr \<Rightarrow> nat" where
  "work_left m = sum_list (map (\<lambda>rp. if snd rp = Begin then 2 else 1) (rm_starting m))"

lemma start_step_shortens: "start_step os m m' \<Longrightarrow> work_left m' < work_left m"
proof (induction rule: start_step.induct)
  case (listen m xs r ys m' p)
  then have "p \<noteq> Begin" by (auto simp: start_listen_cases)
  with listen(1) show ?case by (simp add: work_left_def)
next
  case (finish m xs r p ys)
  have "rm_starting (start_finish r p (m\<lparr>rm_starting := xs @ ys\<rparr>)) = xs @ ys"
    by (cases p) (simp_all add: start_finish_def Let_def)
  with finish show ?case by (simp add: work_left_def)
qed

lemma start_possible:
  assumes inv: "mgr_inv m" and "rm_starting m \<noteq> []"
  shows "\<exists>m'. start_step os m m'"
proof -
  obtain r p ys where s: "rm_starting m = [] @ (r, p) # ys" using assms(2) by (cases "rm_starting m") auto
  show ?thesis
  proof (cases "p = Begin")
    case True
    have "known_proto r"
      using mgr_inv_parts(2) [OF inv, of r p] s maps_okD(6) [of m "rr_ID r" r] inv
      by (simp add: mgr_inv_def)
    moreover obtain m1 q where "start_listen os r m = (m1, q)" by fastforce
    ultimately show ?thesis using start_step.listen s True by blast
  next
    case False
    with start_step.finish [OF s] show ?thesis by blast
  qed
qed

interpretation starts: winding "start_step os" work_left mgr_inv "\<lambda>m. rm_starting m = []" for os
  by unfold_locales (auto intro: start_step_shortens start_step_inv dest: start_possible)

lemma starts_finish: "mgr_inv m \<Longrightarrow> \<exists>m'. (start_step os)\<^sup>*\<^sup>* m m' \<and> rm_starting m' = []"
  using starts.finishes by blast

text \<open>After a push whose starts have finished, exactly the pushed rules have a listener.\<close>

lemma push_served:
  assumes inv: "mgr_inv m" and quiet: "rm_starting m = []"
    and rs: "list_all known_proto rs" "distinct (map rr_ID rs)" "distinct (map (\<lambda>r. (rr_Proto r, rr_Listen r)) rs)"
    and os: "exclusive os" and run: "(start_step os)\<^sup>*\<^sup>* (apply_push rs m) m'" and fin: "rm_starting m' = []"
  shows "r \<in> set rs \<Longrightarrow> \<exists>n q. recorded m' (rr_ID r) n \<and> (n, rr_Proto r, rr_Listen r) \<in> set (rm_open m')
      \<and> lookup (rm_rules m') (rr_ID r) = Some q \<and> rr_Target q = rr_Target r"
    and "length (rm_open m') = length rs"
proof -
  let ?a = "apply_push rs m"
  note rules = apply_push_rules [OF inv, of rs]
  have port: "\<exists>r \<in> set rs. rr_ID r = k \<and> rr_Proto q = rr_Proto r \<and> rr_Listen q = rr_Listen r
      \<and> rr_Target q = rr_Target r" if "lookup (rm_rules ?a) k = Some q" for k q
    using that pushed_rules_facts(2) [of rs k] unfolding rules
    by (cases "lookup (pushed_rules rs) k"; cases "lookup (rm_rules m) k") (force split: if_splits)+
  have "ports_apart (rm_rules ?a)"
    unfolding ports_apart_def
  proof (intro allI impI)
    fix k l p q
    assume p: "lookup (rm_rules ?a) k = Some p" and q: "lookup (rm_rules ?a) l = Some q" and "k \<noteq> l"
    from port [OF p] obtain rk where rk: "rk \<in> set rs" "rr_ID rk = k" "rr_Proto p = rr_Proto rk" "rr_Listen p = rr_Listen rk"
      by blast
    from port [OF q] obtain rl where rl: "rl \<in> set rs" "rr_ID rl = l" "rr_Proto q = rr_Proto rl" "rr_Listen q = rr_Listen rl"
      by blast
    have "rk \<noteq> rl" using rk(2) rl(2) \<open>k \<noteq> l\<close> by blast
    with rs(3) rk(1) rl(1) have "(rr_Proto rk, rr_Listen rk) \<noteq> (rr_Proto rl, rr_Listen rl)"
      unfolding distinct_map inj_on_def by blast
    with rk rl show "(rr_Proto p, rr_Listen p) \<noteq> (rr_Proto q, rr_Listen q)" by simp
  qed
  moreover have "none_refused ?a"
  proof -
    have "(r, Refused e) \<notin> set (rm_starting (start_missing d x))"
      if "(r, Refused e) \<notin> set (rm_starting x)" for r e d x
      using that unfolding start_missing_def by (induction d arbitrary: x) auto
    with stop_obsolete_inv [OF inv quiet] show ?thesis
      by (simp add: none_refused_def apply_push_def Let_def)
  qed
  ultimately have m': "mgr_inv m'" "rm_rules m' = rm_rules ?a"
    using starts_serve [OF run apply_push_inv [OF inv quiet rs(1)] os] by simp_all
  note settle = settled [OF m'(1) fin]
  have served: "\<exists>n q. recorded m' (rr_ID r) n \<and> (n, rr_Proto r, rr_Listen r) \<in> set (rm_open m')
      \<and> lookup (rm_rules m') (rr_ID r) = Some q \<and> rr_Target q = rr_Target r" if r: "r \<in> set rs" for r
  proof -
    have "lookup (rm_rules ?a) (rr_ID r) \<noteq> None"
      unfolding rules pushed_rules_mem [OF rs(2) r] by (simp split: option.split)
    then obtain q where q0: "lookup (rm_rules ?a) (rr_ID r) = Some q" by blast
    from port [OF this] obtain r' where r': "r' \<in> set rs" "rr_ID r' = rr_ID r"
      "rr_Proto q = rr_Proto r'" "rr_Listen q = rr_Listen r'" "rr_Target q = rr_Target r'" by blast
    have "r' = r" using rs(2) r r'(1,2) unfolding distinct_map inj_on_def by blast
    with r' q0 m'(2) have q: "lookup (rm_rules m') (rr_ID r) = Some q"
      "rr_Proto q = rr_Proto r" "rr_Listen q = rr_Listen r" "rr_Target q = rr_Target r" by simp_all
    then obtain n where n: "recorded m' (rr_ID r) n" using settle(1) [of "rr_ID r"] by blast
    with settle(2) [OF n] q show ?thesis by auto
  qed
  then show "r \<in> set rs \<Longrightarrow> \<exists>n q. recorded m' (rr_ID r) n \<and> (n, rr_Proto r, rr_Listen r) \<in> set (rm_open m')
      \<and> lookup (rm_rules m') (rr_ID r) = Some q \<and> rr_Target q = rr_Target r" .
  have "set (keys (rm_rules m')) = set (map rr_ID rs)"
  proof (intro equalityI subsetI)
    fix k
    assume "k \<in> set (keys (rm_rules m'))"
    then have "lookup (rm_rules m') k \<noteq> None" by (simp add: map_of_eq_None_iff)
    then obtain q where "lookup (rm_rules ?a) k = Some q" unfolding m'(2) by blast
    with port show "k \<in> set (map rr_ID rs)" by fastforce
  next
    fix k
    assume "k \<in> set (map rr_ID rs)"
    then obtain r where "r \<in> set rs" "k = rr_ID r" by auto
    with served obtain q where "lookup (rm_rules m') k = Some q" by blast
    then show "k \<in> set (keys (rm_rules m'))" by (metis key_in lookup_Some_in)
  qed
  moreover have "distinct (keys (rm_rules m'))" using m'(1) by (simp add: mgr_inv_def maps_ok_def)
  ultimately have "length (rm_rules m') = length rs"
    using rs(2) by (metis distinct_card length_map)
  with settle(4) show "length (rm_open m') = length rs" by simp
qed

text \<open>What a server pushes satisfies the conditions: its rules of one client never share a port.\<close>

lemma reverse_rules_ok:
  assumes "rules_inv cfg"
  shows "list_all known_proto (reverse_rules (Rules cfg) name)"
    and "distinct (map rr_ID (reverse_rules (Rules cfg) name))"
    and "distinct (map (\<lambda>r. (rr_Proto r, rr_Listen r)) (reverse_rules (Rules cfg) name))"
proof -
  let ?P = "\<lambda>r. SideOf r = ''client'' \<and> Client r = name \<and> Enabled r"
  let ?rs = "filter ?P (Rules cfg)"
  from assms have ids: "distinct (map ID (Rules cfg))" and po: "ports_ok (Rules cfg)"
    and ok: "\<forall>r \<in> set (Rules cfg). rule_ok r (Clients cfg)" by (simp_all add: rules_inv_def ids_ok_def)
  show "list_all known_proto (reverse_rules (Rules cfg) name)"
    using ok by (auto simp: list_all_iff reverse_rules_def known_proto_def to_reverse_def rule_ok_def)
  show "distinct (map rr_ID (reverse_rules (Rules cfg) name))"
    using ids by (simp add: reverse_rules_def comp_def to_reverse_def distinct_map_filter)
  have inj: "inj_on Listen (set ?rs)"
  proof (rule inj_onI)
    fix p q
    assume pq: "p \<in> set ?rs" "q \<in> set ?rs" and eq: "Listen p = Listen q"
    from pq have c: "clash p q" by (simp add: clash_def)
    from pq obtain i j where ij: "i < length (Rules cfg)" "Rules cfg ! i = p" "j < length (Rules cfg)" "Rules cfg ! j = q"
      by (auto simp: in_set_conv_nth)
    have "i \<noteq> j \<longrightarrow> Listen (Rules cfg ! i) = Listen (Rules cfg ! j) \<longrightarrow> \<not> clash (Rules cfg ! i) (Rules cfg ! j)"
      using po ij(1,3) unfolding ports_ok_def by blast
    with c eq have "i = j" unfolding ij(2,4) by blast
    with ij(2,4) show "p = q" by simp
  qed
  have "inj_on (\<lambda>r. (Proto r, Listen r)) (set ?rs)"
  proof (rule inj_onI)
    fix p q
    assume "p \<in> set ?rs" "q \<in> set ?rs" and eq: "(Proto p, Listen p) = (Proto q, Listen q)"
    with inj_onD [OF inj] show "p = q" by blast
  qed
  moreover have "distinct (Rules cfg)" using ids by (simp add: distinct_map)
  ultimately have "distinct (map (\<lambda>r. (Proto r, Listen r)) ?rs)" unfolding distinct_map by simp
  then show "distinct (map (\<lambda>r. (rr_Proto r, rr_Listen r)) (reverse_rules (Rules cfg) name))"
    by (simp add: reverse_rules_def comp_def to_reverse_def)
qed

end
