(* ===== verification/ClientForward.thy ===== *)
theory ClientForward
  imports ReverseMgr UdpRelay
begin

text \<open>
  The data paths of the client's reverse listeners (\<open>client/reverse.go\<close>): which visitors they admit,
  the stream they open to the server for a connection, and the UDP relay, the second implementation
  of the \<open>visitor_table\<close> contract. The blacklist of the server plays no part here.
\<close>

section \<open>Streams to the server\<close>

text \<open>The session: opening a stream and writing its header; \<open>None\<close> is no session.\<close>

record session =
  se_open :: "string + nat"
  se_header :: "nat \<Rightarrow> stream_header \<Rightarrow> string option"
  se_write :: "nat \<Rightarrow> bytes \<Rightarrow> bool"

datatype stream_error = NotConnected | StreamFailed string

definition openReverseHDR :: "session option \<Rightarrow> stream_header \<Rightarrow> stream_error + nat" where
  "openReverseHDR sess hdr =
     (case sess of
        None \<Rightarrow> Inl NotConnected
      | Some se \<Rightarrow>
          (case se_open se of
             Inl e \<Rightarrow> Inl (StreamFailed e)
           | Inr stream \<Rightarrow>
               (case se_header se stream hdr of
                  Some e \<Rightarrow> Inl (StreamFailed e)
                | None \<Rightarrow> Inr stream)))"

definition reverse_header :: "reverse_rule \<Rightarrow> bool \<Rightarrow> stream_header" where
  "reverse_header r udp =
     \<lparr>h_ID = rr_ID r, h_Target = rr_Target r, h_UDP = udp, h_Visitor = [], h_DstAddr = [], h_ProxyProto = 0\<rparr>"

definition openReverse :: "session option \<Rightarrow> reverse_rule \<Rightarrow> bool \<Rightarrow> stream_error + nat" where
  "openReverse sess r udp =
     (case sess of
        None \<Rightarrow> Inl NotConnected
      | Some se \<Rightarrow>
          (case se_open se of
             Inl e \<Rightarrow> Inl (StreamFailed e)
           | Inr stream \<Rightarrow>
               (case se_header se stream (reverse_header r udp) of
                  Some e \<Rightarrow> Inl (StreamFailed e)
                | None \<Rightarrow> Inr stream)))"

section \<open>TCP\<close>

text \<open>A source address that does not parse passes the access list.\<close>

definition rev_denied :: "acl \<Rightarrow> string \<Rightarrow> bool" where
  "rev_denied a remote = (case ParseAddrPort remote of None \<Rightarrow> False | Some (ip, n) \<Rightarrow> \<not> Allows a ip)"

definition proxy_header_fields :: "reverse_rule \<Rightarrow> string \<Rightarrow> string \<Rightarrow> stream_header" where
  "proxy_header_fields r remote local =
     (reverse_header r False)\<lparr>h_Visitor := remote, h_DstAddr := local, h_ProxyProto := rr_ProxyProto r\<rparr>"

datatype rev_result = RevDenied | RevOverLimit | RevNoStream stream_error | RevRelay nat stream_header

text \<open>\<open>handleTCP\<close> up to the copying; the counter is the rule's own, and the copy takes it down again.\<close>

definition rev_handleTCP ::
  "session option \<Rightarrow> reverse_rule \<Rightarrow> acl \<Rightarrow> string \<Rightarrow> string \<Rightarrow> int \<Rightarrow> int \<times> rev_result" where
  "rev_handleTCP sess r a remote local cnt =
     (if rev_denied a remote then (cnt, RevDenied)
      else (let cnt1 = cnt + 1 in
            if rr_MaxConns r > 0 \<and> cnt1 > rr_MaxConns r then (cnt1 - 1, RevOverLimit)
            else (let (hdr, res) =
                    (if rr_ProxyProto r > 0
                     then (let h = proxy_header_fields r remote local in (h, openReverseHDR sess h))
                     else (reverse_header r False, openReverse sess r False))
                  in case res of
                       Inl e \<Rightarrow> (cnt1 - 1, RevNoStream e)
                     | Inr stream \<Rightarrow> (cnt1, RevRelay stream hdr))))"

definition rev_relaying :: "rev_result \<Rightarrow> bool" where
  "rev_relaying res = (case res of RevRelay _ _ \<Rightarrow> True | _ \<Rightarrow> False)"

lemma openReverse_eq: "openReverse sess r udp = openReverseHDR sess (reverse_header r udp)"
  by (simp add: openReverse_def openReverseHDR_def)

lemma rev_handleTCP_cases:
  assumes "rev_handleTCP sess r a remote local cnt = (cnt', res)"
  shows "cnt' = cnt + (if rev_relaying res then 1 else 0)"
    and "rev_relaying res \<Longrightarrow> 0 < rr_MaxConns r \<Longrightarrow> cnt' \<le> rr_MaxConns r"
    and "res = RevRelay st hdr \<Longrightarrow> h_ID hdr = rr_ID r \<and> h_Target hdr = rr_Target r \<and> \<not> h_UDP hdr
       \<and> (0 < rr_ProxyProto r \<longrightarrow> h_Visitor hdr = remote \<and> h_ProxyProto hdr = rr_ProxyProto r)"
  using assms
  by (auto simp: rev_handleTCP_def Let_def rev_relaying_def proxy_header_fields_def reverse_header_def
      split: if_splits sum.splits)

section \<open>UDP\<close>

record rev_relay = vtable +
  rv_acl :: acl
  rv_stream :: nat
  rv_up :: bool

text \<open>\<open>udpRelay\<close> when its stream opens; when it does not, the socket stays bound with no reader.\<close>

definition rev_relay_start :: "session option \<Rightarrow> reverse_rule \<Rightarrow> acl \<Rightarrow> stream_error + rev_relay" where
  "rev_relay_start sess r a =
     (case openReverse sess r True of
        Inl e \<Rightarrow> Inl e
      | Inr stream \<Rightarrow>
          Inr \<lparr>vt_visitors = [], vt_next = 0, vt_packets = 0, rv_acl = a, rv_stream = stream, rv_up = True\<rparr>)"

definition rev_admit :: "int \<Rightarrow> int \<Rightarrow> udp_addr \<Rightarrow> rev_relay \<Rightarrow> rev_relay \<times> 32 word option" where
  "rev_admit cap now src t =
     (let key = udp_key src in
      case (case lookup (vt_visitors t) key of
              Some v \<Rightarrow> Some (v, t)
            | None \<Rightarrow>
                if cap > 0 \<and> int (length (vt_visitors t)) \<ge> cap then None
                else (let i = vt_next t + 1; v = \<lparr>ve_id = i, ve_addr = src, ve_seen = zero_time\<rparr>
                      in Some (v, t\<lparr>vt_next := i, vt_visitors := put key v (vt_visitors t)\<rparr>))) of
        None \<Rightarrow> (t, None)
      | Some (v, t1) \<Rightarrow>
          (let t2 = t1\<lparr>vt_visitors := put key (v\<lparr>ve_seen := now\<rparr>) (vt_visitors t1),
                       vt_packets := vt_packets t1 + 1\<rparr>;
               t3 = (if vt_packets t2 mod 64 = 0
                     then t2\<lparr>vt_visitors := sweep_visitors udpIdleTimeout now (vt_visitors t2)\<rparr>
                     else t2)
           in (t3, Some (ve_id v))))"

text \<open>One packet; a failed write ends the relay.\<close>

definition rev_packet ::
  "session \<Rightarrow> reverse_rule \<Rightarrow> int \<Rightarrow> udp_addr \<Rightarrow> bytes \<Rightarrow> rev_relay \<Rightarrow> rev_relay \<times> bytes option" where
  "rev_packet se r now src payload t =
     (if \<not> Allows (rv_acl t) (udpIP src) then (t, None)
      else (case rev_admit (rr_MaxConns r) now src t of
              (t1, None) \<Rightarrow> (t1, None)
            | (t1, Some i) \<Rightarrow>
                (case WriteUDPPacket \<lparr>ConnID = i, Payload = payload\<rparr> of
                   Inl e \<Rightarrow> (t1\<lparr>rv_up := False\<rparr>, None)
                 | Inr b \<Rightarrow> if se_write se (rv_stream t1) b then (t1, Some b) else (t1\<lparr>rv_up := False\<rparr>, None))))"

definition rev_reply :: "udp_packet \<Rightarrow> rev_relay \<Rightarrow> (udp_addr \<times> bytes) option" where
  "rev_reply pkt t = map_option (\<lambda>a. (a, Payload pkt)) (visitor_of (ConnID pkt) (vt_visitors t))"

text \<open>The end of the stream closes the socket.\<close>

definition rev_broken :: "rev_relay \<Rightarrow> rev_relay" where
  "rev_broken t = t\<lparr>rv_up := False\<rparr>"

text \<open>The table work is the server's: the two relays differ in what they count.\<close>

definition as_tun :: "rev_relay \<Rightarrow> tun_relay" where
  "as_tun t =
     \<lparr>vt_visitors = vt_visitors t, vt_next = vt_next t, vt_packets = vt_packets t, tr_conns = 0,
      tr_listener = \<lparr>ls_acl = None, ls_bl = None, ls_blVer = 0\<rparr>, tr_stream = None, tr_in = 0, tr_out = 0\<rparr>"

lemma as_tun_simps [simp]:
  "vt_visitors (as_tun t) = vt_visitors t" "vt_next (as_tun t) = vt_next t" "vt_packets (as_tun t) = vt_packets t"
  by (simp_all add: as_tun_def)

lemma rev_admit_tunnel:
  "rev_admit cap now src t = (t', r) \<Longrightarrow>
     \<exists>u. tunnel_admit cap now src (as_tun t) = (u, r) \<and> vt_visitors u = vt_visitors t' \<and> vt_next u = vt_next t'"
  by (auto simp: rev_admit_def tunnel_admit_def Let_def udpIdle_def udpIdleTimeout_def
      split: option.splits if_splits)

lemma rev_admit_None:
  "rev_admit cap now src t = (t', None) \<Longrightarrow> t' = t"
  by (auto simp: rev_admit_def Let_def split: option.splits if_splits)

interpretation rev_table: visitor_table rev_admit vt_visitors vt_next udpIdleTimeout
proof (unfold_locales, goal_cases)
  case (1 cap now src t t')
  from rev_admit_tunnel [OF 1] obtain u where u: "tunnel_admit cap now src (as_tun t) = (u, None)" by blast
  from tunnel_table.drops [OF u] rev_admit_None [OF 1] show ?case by simp
next
  case (2 cap now src t t' i e)
  from rev_admit_tunnel [OF 2(1)] obtain u where
    u: "tunnel_admit cap now src (as_tun t) = (u, Some i)" "vt_next u = vt_next t'" by blast
  from tunnel_table.known [OF u(1), of e] 2(2) show ?case unfolding u(2) as_tun_simps by blast
next
  case (3 cap now src t t' i)
  from rev_admit_tunnel [OF 3(1)] obtain u where
    u: "tunnel_admit cap now src (as_tun t) = (u, Some i)" "vt_next u = vt_next t'" by blast
  from tunnel_table.fresh [OF u(1)] 3(2) show ?case unfolding u(2) as_tun_simps by blast
next
  case (4 cap now src t t' r)
  from rev_admit_tunnel [OF 4(1)] obtain u where
    u: "tunnel_admit cap now src (as_tun t) = (u, r)" "vt_visitors u = vt_visitors t'" by blast
  from tunnel_table.keys_kept [OF u(1)] 4(2) show ?case unfolding u(2) as_tun_simps by blast
next
  case (5 cap now src t t' i)
  from rev_admit_tunnel [OF 5(1)] obtain u where
    u: "tunnel_admit cap now src (as_tun t) = (u, Some i)" "vt_visitors u = vt_visitors t'" by blast
  from tunnel_table.self [OF u(1)] 5(2) show ?case unfolding u(2) as_tun_simps by blast
next
  case (6 cap now src t t' i k)
  from rev_admit_tunnel [OF 6(1)] obtain u where
    u: "tunnel_admit cap now src (as_tun t) = (u, Some i)" "vt_visitors u = vt_visitors t'" by blast
  have "udpIdleTimeout = udpIdle" by (simp add: udpIdle_def udpIdleTimeout_def)
  with tunnel_table.others [OF u(1), of k] 6(2,3) show ?case unfolding u(2) as_tun_simps by metis
next
  case (7 cap now src t t' i)
  from rev_admit_tunnel [OF 7(1)] obtain u where
    u: "tunnel_admit cap now src (as_tun t) = (u, Some i)" "vt_visitors u = vt_visitors t'" by blast
  from tunnel_table.size [OF u(1)] 7(2) show ?case unfolding u(2) as_tun_simps by blast
qed

section \<open>A relay from its start\<close>

inductive rev_reach :: "reverse_rule \<Rightarrow> nat \<Rightarrow> rev_relay \<Rightarrow> bool" for r where
  start: "rev_relay_start sess r a = Inr t \<Longrightarrow> rev_reach r 0 t"
| packet: "rev_reach r n t \<Longrightarrow> rv_up t \<Longrightarrow> rev_packet se r now src payload t = (t', sent) \<Longrightarrow> rev_reach r (Suc n) t'"
| broken: "rev_reach r n t \<Longrightarrow> rev_reach r n (rev_broken t)"

lemma rev_packet_table:
  assumes "rev_packet se r now src payload t = (t', sent)"
  shows "(vt_visitors t' = vt_visitors t \<and> vt_next t' = vt_next t \<and> sent = None)
     \<or> (\<exists>t1 i. rev_admit (rr_MaxConns r) now src t = (t1, Some i) \<and> vt_visitors t' = vt_visitors t1
          \<and> vt_next t' = vt_next t1 \<and> (\<forall>b. sent = Some b \<longrightarrow> WriteUDPPacket \<lparr>ConnID = i, Payload = payload\<rparr> = Inr b))"
proof -
  obtain t1 q where a: "rev_admit (rr_MaxConns r) now src t = (t1, q)" by fastforce
  show ?thesis
  proof (cases "\<not> Allows (rv_acl t) (udpIP src) \<or> q = None")
    case True
    then have "t' = t \<and> sent = None"
      using assms a rev_admit_None [of "rr_MaxConns r" now src t t1]
      by (auto simp: rev_packet_def split: if_splits)
    then show ?thesis by simp
  next
    case False
    then show ?thesis using assms a by (auto simp: rev_packet_def split: sum.splits if_splits)
  qed
qed

lemma rev_table_cong:
  "vt_visitors t' = vt_visitors t \<Longrightarrow> vt_next t' = vt_next t \<Longrightarrow>
     rev_table.table_ok t' = rev_table.table_ok t \<and> rev_table.within_cap cap t' = rev_table.within_cap cap t"
  by (simp add: rev_table.table_ok_def rev_table.within_cap_def)

lemma rev_reach_ok:
  "rev_reach r n t \<Longrightarrow> n < 2 ^ 32 \<Longrightarrow>
     rev_table.table_ok t \<and> rev_table.within_cap (rr_MaxConns r) t \<and> unat (vt_next t) \<le> n"
proof (induction rule: rev_reach.induct)
  case (start sess a t)
  then show ?case
    by (auto simp: rev_relay_start_def rev_table.table_ok_def rev_table.within_cap_def split: sum.splits)
next
  case (packet n t se now src payload t' sent)
  then have ok: "rev_table.table_ok t" "rev_table.within_cap (rr_MaxConns r) t" "unat (vt_next t) \<le> n"
    "n < 2 ^ 32 - 1" by simp_all
  from rev_packet_table [OF packet.hyps(3)] show ?case
  proof (elim disjE exE conjE)
    assume "vt_visitors t' = vt_visitors t" "vt_next t' = vt_next t"
    with ok rev_table_cong [of t' t] show ?thesis by simp
  next
    fix t1 i
    assume a: "rev_admit (rr_MaxConns r) now src t = (t1, Some i)"
      and t1: "vt_visitors t' = vt_visitors t1" "vt_next t' = vt_next t1"
    have "distinct (keys (vt_visitors t))" using ok(1) by (simp add: rev_table.table_ok_def)
    from rev_table.packet_counted [OF ok(1) a ok(3,4)] rev_table.packet_cap [OF a this ok(2)]
      rev_table_cong [OF t1] t1 show ?thesis by simp
  qed
next
  case (broken n t)
  then show ?case using rev_table_cong [of "rev_broken t" t] by (simp add: rev_broken_def)
qed

lemma rev_answer:
  assumes "rev_reach r n t" and "n < 2 ^ 32 - 1"
    and p: "rev_packet se r now src payload t = (t', Some b)"
  shows "\<exists>i a. ReadUDPPacket b = Inr (\<lparr>ConnID = i, Payload = payload\<rparr>, [])
     \<and> rev_reply \<lparr>ConnID = i, Payload = answer\<rparr> t' = Some (a, answer) \<and> udp_key a = udp_key src"
proof -
  from rev_reach_ok [OF assms(1)] assms(2) have ok: "rev_table.table_ok t" "unat (vt_next t) \<le> n" by simp_all
  from rev_packet_table [OF p] obtain t1 x where
    a: "rev_admit (rr_MaxConns r) now src t = (t1, Some x)" and t1: "vt_visitors t' = vt_visitors t1"
    and w: "WriteUDPPacket \<lparr>ConnID = x, Payload = payload\<rparr> = Inr b" by auto
  from rev_table.reply_to_sender [OF ok(1) a last_id_room [OF ok(2) assms(2)]]
  obtain v where v: "visitor_of x (vt_visitors t1) = Some v" "udp_key v = udp_key src" by blast
  have "udp_ok \<lparr>ConnID = x, Payload = payload\<rparr>"
    using w by (simp add: WriteUDPPacket_def udp_ok_def split: if_splits)
  from ReadUDP_WriteUDP [OF this] w have "ReadUDPPacket (b @ []) = Inr (\<lparr>ConnID = x, Payload = payload\<rparr>, [])"
    unfolding w sum.inject by blast
  then have "ReadUDPPacket b = Inr (\<lparr>ConnID = x, Payload = payload\<rparr>, [])" by simp
  with v t1 show ?thesis by (auto simp: rev_reply_def)
qed

end
