(* ===== verification/Client.thy ===== *)
theory Client
  imports ClientForward Backends
begin

text \<open>
  The client (\<open>client/client.go\<close>): the reconnecting loop with its backoff, one session from the dial
  to its end, and the dispatch of the streams the server opens. The server's counterpart for the
  streams the client opens, \<open>handleReverseStream\<close> of \<open>server/reverse.go\<close>, is here as well, because
  the two write the same PROXY header for a connection that came through the tunnel.
\<close>

section \<open>Dialling a target\<close>

definition client_dialBalanced ::
  "(nat \<Rightarrow> string \<Rightarrow> 'e + 'c) \<Rightarrow> string \<Rightarrow> 64 word \<Rightarrow> ('e, 'c) dialled \<times> 64 word" where
  "client_dialBalanced dial target rr =
     (let targets = ParseTargets target in
      if length targets = 0 then (NoTargets, rr)
      else (dial_loop dial targets rr 0 (length targets) None, rr + 1))"

interpretation client_balancer: balancer client_dialBalanced
  by unfold_locales
     (simp_all add: client_dialBalanced_def Let_def dial_loop_first_ok [where i = 0, simplified])

section \<open>Streams\<close>

text \<open>\<open>net.ResolveTCPAddr\<close> and the dial are arguments; the bytes are what is written to the backend
  before the copy starts.\<close>

definition header_for :: "(string \<Rightarrow> tcp_addr option) \<Rightarrow> stream_header \<Rightarrow> bytes" where
  "header_for resolve hdr =
     (case resolve (h_Visitor hdr) of
        None \<Rightarrow> []
      | Some src \<Rightarrow>
          (case resolve (h_DstAddr hdr) of
             None \<Rightarrow> []
           | Some dst \<Rightarrow> (case ProxyHeader (h_ProxyProto hdr) src dst of Inl e \<Rightarrow> [] | Inr b \<Rightarrow> b)))"

datatype stream_use =
    BadHeader frame_error
  | ControlStream
  | UDPStream string
  | NoBackendFor string
  | Piped nat bytes

definition handleStream ::
  "(bytes \<Rightarrow> stream_header option) \<Rightarrow> (string \<Rightarrow> tcp_addr option) \<Rightarrow> (nat \<Rightarrow> string \<Rightarrow> string + nat)
     \<Rightarrow> bytes \<Rightarrow> 64 word \<Rightarrow> stream_use \<times> 64 word" where
  "handleStream dec resolve dial stream rr =
     (case ReadJSONFrame dec stream of
        Inl e \<Rightarrow> (BadHeader e, rr)
      | Inr (hdr, rest) \<Rightarrow>
          if h_ID hdr = ControlID then (ControlStream, rr)
          else if h_UDP hdr then (UDPStream (h_Target hdr), rr)
          else (case client_dialBalanced dial (h_Target hdr) rr of
                  (Conn backend, rr1) \<Rightarrow>
                    (Piped backend (if h_ProxyProto hdr > 0 then header_for resolve hdr else []), rr1)
                | (_, rr1) \<Rightarrow> (NoBackendFor (h_Target hdr), rr1)))"

text \<open>The server's end of a stream the client opened, with the statistics of its rule. A connection
  is counted from the dial on, its end takes it off again.\<close>

definition handleReverseStream ::
  "(bytes \<Rightarrow> stream_header option) \<Rightarrow> (string \<Rightarrow> tcp_addr option) \<Rightarrow> (nat \<Rightarrow> string \<Rightarrow> string + nat)
     \<Rightarrow> bytes \<Rightarrow> server \<Rightarrow> server \<times> stream_use" where
  "handleReverseStream dec resolve dial stream s =
     (case ReadJSONFrame dec stream of
        Inl e \<Rightarrow> (s, BadHeader e)
      | Inr (hdr, rest) \<Rightarrow>
          if h_ID hdr = ControlID then (s, ControlStream)
          else (let s1 = statFor (h_ID hdr) s in
                if h_UDP hdr then
                  (s1, if ParseTargets (h_Target hdr) = [] then NoBackendFor (h_Target hdr) else UDPStream (h_Target hdr))
                else (case dialBalanced dial (h_Target hdr) (s_rr s1) of
                        (Conn backend, rr1) \<Rightarrow>
                          (upd_stat (h_ID hdr) (\<lambda>st. st\<lparr>ConnsTotal := ConnsTotal st + 1, Conns := Conns st + 1\<rparr>)
                             (s1\<lparr>s_rr := rr1\<rparr>),
                           Piped backend (if h_ProxyProto hdr > 0 \<and> h_Visitor hdr \<noteq> []
                                          then header_for resolve hdr else []))
                      | (_, rr1) \<Rightarrow> (s1\<lparr>s_rr := rr1\<rparr>, NoBackendFor (h_Target hdr)))))"

definition reverse_stream_end :: "string \<Rightarrow> int \<Rightarrow> int \<Rightarrow> server \<Rightarrow> server" where
  "reverse_stream_end rid n_in n_out s =
     upd_stat rid (\<lambda>st. st\<lparr>BytesIn := BytesIn st + n_in, BytesOut := BytesOut st + n_out, Conns := Conns st - 1\<rparr>) s"

lemma handleStream_target:
  "handleStream dec resolve dial stream rr = (Piped b pre, rr') \<Longrightarrow>
     \<exists>hdr rest. ReadJSONFrame dec stream = Inr (hdr, rest) \<and> h_ID hdr \<noteq> ControlID \<and> \<not> h_UDP hdr
       \<and> fst (client_dialBalanced dial (h_Target hdr) rr) = Conn b
       \<and> pre = (if h_ProxyProto hdr > 0 then header_for resolve hdr else [])"
proof -
  assume a: "handleStream dec resolve dial stream rr = (Piped b pre, rr')"
  then obtain hdr rest where h: "ReadJSONFrame dec stream = Inr (hdr, rest)"
    by (cases "ReadJSONFrame dec stream") (auto simp: handleStream_def)
  then have nc: "h_ID hdr \<noteq> ControlID" "\<not> h_UDP hdr" using a by (auto simp: handleStream_def split: if_splits)
  obtain d rr1 where d: "client_dialBalanced dial (h_Target hdr) rr = (d, rr1)" by fastforce
  show ?thesis using a h nc d by (cases d) (auto simp: handleStream_def)
qed

section \<open>A session\<close>

datatype serve_error =
    ServeDial dial_error
  | SendFailed
  | ReplyFailed frame_error
  | Rejected string
  | MuxFailed string

text \<open>
  \<open>serveOnce\<close> up to the session: the request it writes and the reply it reads. \<open>sent\<close> says whether
  the request was written, \<open>reply\<close> is what the server sends back.
\<close>

definition serve_auth ::
  "(auth_request \<Rightarrow> bytes option) \<Rightarrow> (bytes \<Rightarrow> auth_reply option) \<Rightarrow> (dial_error + 'c) \<Rightarrow> string \<Rightarrow> string
     \<Rightarrow> bool \<Rightarrow> bytes \<Rightarrow> client_config \<Rightarrow> bytes \<times> (serve_error + 'c)" where
  "serve_auth enc dec conn host version sent reply cfg =
     (case conn of
        Inl e \<Rightarrow> ([], Inl (ServeDial e))
      | Inr c \<Rightarrow>
          (case WriteJSONFrame enc \<lparr>ar_Token = cc_Token cfg, ar_Host = host, ar_Version = version\<rparr> of
             Inl e \<Rightarrow> ([], Inl SendFailed)
           | Inr b \<Rightarrow>
               if \<not> sent then ([], Inl SendFailed)
               else (case ReadJSONFrame dec reply of
                       Inl e \<Rightarrow> (b, Inl (ReplyFailed e))
                     | Inr (rep, rest) \<Rightarrow>
                         if \<not> rep_OK rep then (b, Inl (Rejected (rep_Message rep))) else (b, Inr c))))"

text \<open>The address of the SOCKS5 listener of a session.\<close>

definition socks_addr :: "client_config \<Rightarrow> string option" where
  "socks_addr cfg =
     (let addr = Socks5Listen cfg in
      if addr = [] then None
      else Some (if CHR '':'' \<notin> set addr then ''0.0.0.0:'' @ addr else addr))"

section \<open>Reconnecting\<close>

definition backoffStart :: int where
  "backoffStart = Second"

definition backoffMax :: int where
  "backoffMax = 30 * Second"

text \<open>One turn: how long \<open>serveOnce\<close> ran, and whether the context was cancelled in it or in the wait.\<close>

record turn =
  tu_alive :: int
  tu_cancelled :: bool
  tu_wait_cancelled :: bool

text \<open>The waits between the turns and whether the loop has returned, which only a cancelled context
  makes it do; the list of turns bounds the observation.\<close>

fun client_Run :: "int \<Rightarrow> turn list \<Rightarrow> int list \<times> bool" where
  "client_Run backoff [] = ([], False)"
| "client_Run backoff (t # ts) =
     (if tu_cancelled t then ([], True)
      else (let b = (if tu_alive t > backoffMax then backoffStart else backoff) in
            if tu_wait_cancelled t then ([b], True)
            else (let b2 = b * 2;
                      b3 = (if b2 > backoffMax then backoffMax else b2);
                      (ws, r) = client_Run b3 ts
                  in (b # ws, r))))"

lemma backoff_bounds: "0 < backoffStart" "backoffStart \<le> backoffMax"
  by (simp_all add: backoffStart_def backoffMax_def Second_def)

lemma client_Run_bounds:
  "backoffStart \<le> b \<Longrightarrow> b \<le> backoffMax \<Longrightarrow> client_Run b ts = (ws, r) \<Longrightarrow>
     list_all (\<lambda>w. backoffStart \<le> w \<and> w \<le> backoffMax) ws"
proof (induction b ts arbitrary: ws r rule: client_Run.induct)
  case (1 b)
  then show ?case by simp
next
  case (2 b t ts)
  let ?b = "if tu_alive t > backoffMax then backoffStart else b"
  let ?b3 = "if ?b * 2 > backoffMax then backoffMax else ?b * 2"
  have b: "backoffStart \<le> ?b" "?b \<le> backoffMax" using 2(2,3) backoff_bounds by auto
  have b3: "backoffStart \<le> ?b3" "?b3 \<le> backoffMax" using b backoff_bounds by auto
  show ?case
  proof (cases "tu_cancelled t \<or> tu_wait_cancelled t")
    case True
    with 2(4) b show ?thesis by (auto simp: Let_def split: if_splits)
  next
    case False
    obtain us r' where rec: "client_Run ?b3 ts = (us, r')" by fastforce
    have "list_all (\<lambda>w. backoffStart \<le> w \<and> w \<le> backoffMax) us"
      using 2(1) [OF _ refl _ refl refl b3 rec] False by simp
    moreover have "ws = ?b # us" using 2(4) False rec by (simp add: Let_def)
    ultimately show ?thesis using b by simp
  qed
qed

text \<open>While sessions fail quickly, the waits double up to the maximum.\<close>

lemma client_Run_doubles:
  assumes "list_all (\<lambda>t. \<not> tu_cancelled t \<and> \<not> tu_wait_cancelled t \<and> tu_alive t \<le> backoffMax) ts"
    and "0 < b" "b \<le> backoffMax"
  shows "client_Run b ts = (map (\<lambda>k. min (b * 2 ^ k) backoffMax) [0..<length ts], False)"
  using assms
proof (induction ts arbitrary: b)
  case Nil
  then show ?case by simp
next
  case (Cons t ts)
  define c where "c = (if b * 2 > backoffMax then backoffMax else b * 2)"
  have c: "0 < c" "c \<le> backoffMax" using Cons.prems backoff_bounds by (auto simp: c_def)
  have "min (c * 2 ^ k) backoffMax = min (b * 2 ^ Suc k) backoffMax" for k :: nat
  proof (cases "b * 2 > backoffMax")
    case True
    have "(1 :: int) \<le> 2 ^ k" by simp
    moreover from this Cons.prems have "b * 2 * 1 \<le> b * 2 * 2 ^ k" by (intro mult_left_mono) simp_all
    moreover have "backoffMax * 1 \<le> backoffMax * 2 ^ k"
      using \<open>1 \<le> 2 ^ k\<close> backoff_bounds by (intro mult_left_mono) simp_all
    ultimately show ?thesis using True by (simp add: c_def mult.assoc)
  next
    case False
    then show ?thesis by (simp add: c_def mult.assoc)
  qed
  then have "map (\<lambda>k. min (c * 2 ^ k) backoffMax) [0..<length ts]
      = map (\<lambda>k. min (b * 2 ^ k) backoffMax) (map Suc [0..<length ts])" by (simp add: comp_def)
  moreover have "[0..<length (t # ts)] = 0 # map Suc [0..<length ts]"
    by (simp add: upt_conv_Cons map_Suc_upt del: upt_Suc)
  moreover have "client_Run c ts = (map (\<lambda>k. min (c * 2 ^ k) backoffMax) [0..<length ts], False)"
    using Cons.IH [OF _ c] Cons.prems(1) by simp
  ultimately show ?case using Cons.prems by (simp add: Let_def c_def [symmetric])
qed

text \<open>Only a cancelled context ends the loop.\<close>

lemma client_Run_ends:
  "snd (client_Run b ts) \<longleftrightarrow> (\<exists>t \<in> set ts. tu_cancelled t \<or> tu_wait_cancelled t)"
  by (induction b ts rule: client_Run.induct) (auto simp: Let_def split: prod.splits)

end
