(* ===== verification/Socks.thy ===== *)
theory Socks
  imports Client
begin

text \<open>
  The SOCKS5 proxy of the client (\<open>client/socks5.go\<close>): the handshake as a function of the bytes the
  visitor sends, what it is answered, and the stream that is opened for it. Deadlines are not
  modelled: a visitor that stops sending is a stream that ends.
\<close>

definition socksReply :: "byte \<Rightarrow> bytes" where
  "socksReply rep = [5, rep, 0, 1, 0, 0, 0, 0, 0, 0]"

definition openSocks :: "session option \<Rightarrow> string \<Rightarrow> stream_error + nat" where
  "openSocks sess target =
     openReverseHDR sess \<lparr>h_ID = ''socks5'', h_Target = target, h_UDP = False, h_Visitor = [], h_DstAddr = [],
                          h_ProxyProto = 0\<rparr>"

definition bytes_to_string :: "bytes \<Rightarrow> string" where
  "bytes_to_string b = map (\<lambda>x. char_of (unat x)) b"

text \<open>The destination host by address type; \<open>None\<close> as the first result is an unknown type.\<close>

definition socks_host :: "byte \<Rightarrow> bytes \<Rightarrow> (frame_error + string \<times> bytes) option" where
  "socks_host atyp s =
     (if atyp = 1 then
        Some (case ReadFull 4 s of Inl e \<Rightarrow> Inl e | Inr (b, s1) \<Rightarrow> Inr (IPString b, s1))
      else if atyp = 3 then
        Some (case ReadFull 1 s of
                Inl e \<Rightarrow> Inl e
              | Inr (n, s1) \<Rightarrow>
                  (case ReadFull (unat (hd n)) s1 of Inl e \<Rightarrow> Inl e | Inr (d, s2) \<Rightarrow> Inr (bytes_to_string d, s2)))
      else if atyp = 4 then
        Some (case ReadFull 16 s of Inl e \<Rightarrow> Inl e | Inr (b, s1) \<Rightarrow> Inr (IPString b, s1))
      else None)"

datatype socks_end = SocksClosed | SocksNoStream string | SocksRelay nat string bytes

text \<open>The request after the negotiation: what is written and how it ends.\<close>

definition socks_request :: "session option \<Rightarrow> bytes \<Rightarrow> bytes \<times> socks_end" where
  "socks_request sess s =
     (case ReadFull 4 s of
        Inl e \<Rightarrow> ([], SocksClosed)
      | Inr (req, s1) \<Rightarrow>
          if req ! 0 \<noteq> 5 then ([], SocksClosed)
          else if req ! 1 \<noteq> 1 then (socksReply 7, SocksClosed)
          else (case socks_host (req ! 3) s1 of
                  None \<Rightarrow> (socksReply 1, SocksClosed)
                | Some (Inl e) \<Rightarrow> ([], SocksClosed)
                | Some (Inr (host, s2)) \<Rightarrow>
                    (case ReadFull 2 s2 of
                       Inl e \<Rightarrow> ([], SocksClosed)
                     | Inr (port, s3) \<Rightarrow>
                         (let target = JoinHostPort host (Itoa (int (get_u16 port))) in
                          case openSocks sess target of
                            Inl e \<Rightarrow> (socksReply 5, SocksNoStream target)
                          | Inr stream \<Rightarrow> (socksReply 0, SocksRelay stream target s3)))))"

text \<open>\<open>handleSocks\<close>; \<open>wr\<close> says whether the answer to the negotiation can be written.\<close>

definition handleSocks :: "bool \<Rightarrow> session option \<Rightarrow> bytes \<Rightarrow> bytes \<times> socks_end" where
  "handleSocks wr sess s =
     (case ReadFull 2 s of
        Inl e \<Rightarrow> ([], SocksClosed)
      | Inr (head, s1) \<Rightarrow>
          if head ! 0 \<noteq> 5 then ([], SocksClosed)
          else (case ReadFull (unat (head ! 1)) s1 of
                  Inl e \<Rightarrow> ([], SocksClosed)
                | Inr (methods, s2) \<Rightarrow>
                    if \<not> list_ex (\<lambda>m. m = 0) methods then ([5, 255], SocksClosed)
                    else if \<not> wr then ([], SocksClosed)
                    else (let (out, r) = socks_request sess s2 in ([5, 0] @ out, r))))"

section \<open>A reference client\<close>

text \<open>The bytes a client sends to connect to a host and port (RFC 1928), no authentication.\<close>

datatype socks_dest = DestV4 bytes | DestName string | DestV6 bytes

fun dest_ok :: "socks_dest \<Rightarrow> bool" where
  "dest_ok (DestV4 b) = (length b = 4)"
| "dest_ok (DestName d) = (length d < 256)"
| "dest_ok (DestV6 b) = (length b = 16)"

fun dest_bytes :: "socks_dest \<Rightarrow> bytes" where
  "dest_bytes (DestV4 b) = 1 # b"
| "dest_bytes (DestName d) = 3 # of_nat (length d) # map (\<lambda>c. of_nat (of_char c)) d"
| "dest_bytes (DestV6 b) = 4 # b"

fun dest_host :: "socks_dest \<Rightarrow> string" where
  "dest_host (DestV4 b) = IPString b"
| "dest_host (DestName d) = d"
| "dest_host (DestV6 b) = IPString b"

definition connect_bytes :: "bytes \<Rightarrow> socks_dest \<Rightarrow> nat \<Rightarrow> bytes" where
  "connect_bytes methods dest port =
     5 # of_nat (length methods) # methods @ [5, 1, 0] @ dest_bytes dest @ put_u16 port"

lemma bytes_to_string_name: "bytes_to_string (map (\<lambda>c. of_nat (of_char c)) d) = d"
proof (induction d)
  case Nil
  then show ?case by (simp add: bytes_to_string_def)
next
  case (Cons c d)
  have "(of_char c :: nat) < 256" by simp
  then have "unat (of_nat (of_char c) :: byte) = of_char c" by (simp add: unat_of_nat)
  with Cons show ?case by (simp add: bytes_to_string_def)
qed

lemma unat_length_byte: "length xs < 256 \<Longrightarrow> unat (of_nat (length xs) :: byte) = length xs"
  by (simp add: unat_of_nat)

lemma socks_host_dest:
  assumes "dest_ok dest"
  shows "socks_host (hd (dest_bytes dest)) (tl (dest_bytes dest) @ s) = Some (Inr (dest_host dest, s))"
proof (cases dest)
  case (DestV4 b)
  with assms have "ReadFull 4 (b @ s) = Inr (b, s)" by (intro ReadFull_append_n) simp
  with DestV4 show ?thesis by (simp add: socks_host_def)
next
  case (DestName d)
  let ?b = "map (\<lambda>c. of_nat (of_char c)) d :: bytes"
  have "ReadFull 1 (of_nat (length d) # ?b @ s) = Inr ([of_nat (length d)], ?b @ s)"
    by (simp add: ReadFull_def)
  moreover have "ReadFull (length d) (?b @ s) = Inr (?b, s)" by (rule ReadFull_append_n) simp
  moreover have "unat (of_nat (length d) :: byte) = length d"
    using assms DestName by (intro unat_length_byte) simp
  ultimately show ?thesis using DestName by (simp add: socks_host_def bytes_to_string_name)
next
  case (DestV6 b)
  with assms have "ReadFull 16 (b @ s) = Inr (b, s)" by (intro ReadFull_append_n) simp
  with DestV6 show ?thesis by (simp add: socks_host_def)
qed

text \<open>A well-formed CONNECT opens a stream to exactly the host and port asked for, and the bytes that
  follow the handshake are the ones relayed.\<close>

lemma handleSocks_connect:
  assumes "dest_ok dest" and "port < 65536" and "0 \<in> set methods" and "length methods < 256"
    and "openSocks (Some se) (JoinHostPort (dest_host dest) (show_nat port)) = Inr st"
  shows "handleSocks True (Some se) (connect_bytes methods dest port @ rest)
     = ([5, 0] @ socksReply 0, SocksRelay st (JoinHostPort (dest_host dest) (show_nat port)) rest)"
proof -
  let ?req = "[5, 1, 0] @ dest_bytes dest @ put_u16 port @ rest"
  obtain aty db where d: "dest_bytes dest = aty # db" by (cases dest) auto
  have "ReadFull 2 (connect_bytes methods dest port @ rest)
      = Inr ([5, of_nat (length methods)], methods @ ?req)"
    by (simp add: connect_bytes_def ReadFull_def numeral_2_eq_2)
  moreover have "unat (of_nat (length methods) :: byte) = length methods"
    using assms(4) by (rule unat_length_byte)
  moreover have "ReadFull (length methods) (methods @ ?req) = Inr (methods, ?req)" by simp
  moreover have "list_ex (\<lambda>m. m = 0) methods" using assms(3) by (auto simp: list_ex_iff)
  ultimately have h: "handleSocks True (Some se) (connect_bytes methods dest port @ rest)
      = (let (out, r) = socks_request (Some se) ?req in ([5, 0] @ out, r))"
    by (simp add: handleSocks_def)
  have "ReadFull 4 ?req = Inr ([5, 1, 0, aty], db @ put_u16 port @ rest)"
    by (simp add: d ReadFull_def)
  moreover have "socks_host aty (db @ put_u16 port @ rest) = Some (Inr (dest_host dest, put_u16 port @ rest))"
    using socks_host_dest [OF assms(1), of "put_u16 port @ rest"] by (simp add: d)
  moreover have "ReadFull 2 (put_u16 port @ rest) = Inr (put_u16 port, rest)" by (rule ReadFull_append_n) simp
  moreover have "Itoa (int (get_u16 (put_u16 port))) = show_nat port"
    using assms(2) by (simp add: get_put_u16 Itoa_def)
  ultimately have "socks_request (Some se) ?req
      = (socksReply 0, SocksRelay st (JoinHostPort (dest_host dest) (show_nat port)) rest)"
    using assms(5) by (simp add: socks_request_def Let_def eval_nat_numeral)
  with h show ?thesis by simp
qed

text \<open>The target the server is given splits back into the host and the port, unless the host holds a
  bracket; a host with a comma becomes several targets.\<close>

lemma socks_target_splits:
  assumes "CHR ''['' \<notin> set host" "CHR '']'' \<notin> set host"
  shows "SplitHostPort (JoinHostPort host (show_nat port)) = Some (host, show_nat port)"
  using assms by (intro SplitHostPort_JoinHostPort) simp_all

end
