(* ===== verification/ClientProperties.thy ===== *)
theory ClientProperties
  imports ServerProperties ReverseLive Socks Tls
begin

text \<open>
  The properties of the client and of what server and client do together: reverse listeners, the
  answers of their UDP relays, reconnecting, the pinned certificate and the SOCKS5 proxy.
\<close>

section \<open>Reverse listeners\<close>

definition demo_reverse :: rule where
  "demo_reverse = demo_rule\<lparr>ID := ''r2'', Side := ''client''\<rparr>"








text \<open>When the rule set is emptied while a start is under way, the socket of that start stays open
  with no rule that could ever stop it.\<close>

theorem late_start_leaks:
  assumes "known_proto r" and "os [] (rr_Proto r) (rr_Listen r) = None"
  shows "\<exists>m n. rm_reach os m \<and> rm_starting m = [] \<and> rm_rules m = []
     \<and> (n, rr_Proto r, rr_Listen r) \<in> set (rm_open m)"
proof -
  let ?m1 = "newReverseMgr\<lparr>rm_control := True\<rparr>"
  let ?m2 = "apply_push [r] ?m1"
  let ?m3 = "?m2\<lparr>rm_open := [(0, rr_Proto r, rr_Listen r)], rm_next := 1, rm_starting := [(r, Opened 0)]\<rparr>"
  let ?m4 = "apply_push [] ?m3"
  let ?m5 = "start_finish r (Opened 0) (?m4\<lparr>rm_starting := []\<rparr>)"
  have m2: "?m2 = ?m1\<lparr>rm_rules := [(rr_ID r, r)], rm_starting := [(r, Begin)]\<rparr>"
    by (simp add: apply_push_def pushed_rules_def stop_obsolete_def start_missing_def newReverseMgr_def)
  have m4: "?m4 = ?m3\<lparr>rm_rules := []\<rparr>"
    by (simp add: m2 apply_push_def pushed_rules_def stop_obsolete_def start_missing_def obsolete_def
        stopLocked_def close_sock_def newReverseMgr_def)
  have "rm_step os newReverseMgr ?m1" by (rule rm_step.connect)
  moreover have "rm_step os ?m1 ?m2" by (rule rm_step.push) simp
  moreover have "rm_step os ?m2 ?m3"
  proof -
    have "start_listen os r ?m2 = (?m2\<lparr>rm_open := [(0, rr_Proto r, rr_Listen r)], rm_next := 1\<rparr>, Opened 0)"
      unfolding start_listen_def m2 by (simp add: assms(2) newReverseMgr_def)
    from rm_step.listen [OF _ assms(1) this, of "[]" "[]"] show ?thesis by (simp add: m2)
  qed
  moreover have "rm_step os ?m3 ?m4" by (rule rm_step.push) (simp add: m2)
  moreover have "rm_step os ?m4 ?m5"
  proof -
    have "rm_starting ?m4 = [] @ (r, Opened 0) # []" unfolding m4 by simp
    from rm_step.finish [OF this, of os] show ?thesis by simp
  qed
  ultimately have "rm_reach os ?m5" by (meson rm_reach.start rm_reach.step)
  moreover have "rm_starting ?m5 = []" "rm_rules ?m5 = []" "(0, rr_Proto r, rr_Listen r) \<in> set (rm_open ?m5)"
    unfolding m4 start_finish_def report_def by simp_all
  ultimately show ?thesis by blast
qed

theorem late_start_leaks_witness:
  "\<exists>m n. rm_reach demo_os m \<and> rm_rules m = [] \<and> (n, ''tcp'', 8080) \<in> set (rm_open m)"
  using late_start_leaks [of "to_reverse demo_reverse" demo_os]
  by (auto simp: known_proto_def to_reverse_def demo_reverse_def demo_rule_def demo_os_def)

section \<open>The data paths\<close>

definition demo_session :: session where
  "demo_session = \<lparr>se_open = Inr 5, se_header = (\<lambda>st h. None), se_write = (\<lambda>st b. True)\<rparr>"



text \<open>A well-formed SOCKS5 request for a host and port is answered with success, opens a stream whose
  target splits back into that host and port, and relays exactly the bytes that follow it.\<close>

theorem socks_opens_asked:
  assumes "dest_ok dest" and "port < 65536" and "0 \<in> set methods" and "length methods < 256"
    and "openSocks (Some se) (JoinHostPort (dest_host dest) (show_nat port)) = Inr st"
    and "CHR ''['' \<notin> set (dest_host dest)" and "CHR '']'' \<notin> set (dest_host dest)"
  shows "\<exists>target. handleSocks True (Some se) (connect_bytes methods dest port @ rest)
       = ([5, 0] @ socksReply 0, SocksRelay st target rest)
     \<and> SplitHostPort target = Some (dest_host dest, show_nat port)"
  using handleSocks_connect [OF assms(1-5)] socks_target_splits [OF assms(6,7)] by blast

theorem socks_opens_asked_witness:
  "\<exists>target. handleSocks True (Some demo_session) (connect_bytes [0] (DestName ''a.b'') 80 @ [9])
       = ([5, 0] @ socksReply 0, SocksRelay 5 target [9])
     \<and> SplitHostPort target = Some (''a.b'', show_nat 80)"
proof -
  have "openSocks (Some demo_session) (JoinHostPort (dest_host (DestName ''a.b'')) (show_nat 80)) = Inr 5"
    by (simp add: openSocks_def openReverseHDR_def demo_session_def)
  from socks_opens_asked [OF _ _ _ _ this, of "[0]" "[9]"] show ?thesis by simp
qed

section \<open>Sessions\<close>

text \<open>C39: The waits between two attempts of the client are between one and thirty seconds, they double while
  sessions fail quickly, and the loop returns only when its context was cancelled.\<close>

theorem reconnect_waits:
  assumes "client_Run backoffStart ts = (ws, returned)"
  shows "list_all (\<lambda>w. Second \<le> w \<and> w \<le> 30 * Second) ws
     \<and> (returned \<longleftrightarrow> list_ex (\<lambda>t. tu_cancelled t \<or> tu_wait_cancelled t) ts)
     \<and> (list_all (\<lambda>t. \<not> tu_cancelled t \<and> \<not> tu_wait_cancelled t \<and> tu_alive t \<le> 30 * Second) ts \<longrightarrow>
          ws = map (\<lambda>k. min (Second * 2 ^ k) (30 * Second)) [0..<length ts])"
proof (intro conjI impI)
  show "list_all (\<lambda>w. Second \<le> w \<and> w \<le> 30 * Second) ws"
    using client_Run_bounds [OF _ _ assms] backoff_bounds by (simp add: backoffStart_def backoffMax_def)
  show "returned \<longleftrightarrow> list_ex (\<lambda>t. tu_cancelled t \<or> tu_wait_cancelled t) ts"
    using client_Run_ends [of backoffStart ts] assms by (simp add: list_ex_iff)
next
  assume "list_all (\<lambda>t. \<not> tu_cancelled t \<and> \<not> tu_wait_cancelled t \<and> tu_alive t \<le> 30 * Second) ts"
  with client_Run_doubles [of ts backoffStart] backoff_bounds assms
  show "ws = map (\<lambda>k. min (Second * 2 ^ k) (30 * Second)) [0..<length ts]"
    by (simp add: backoffMax_def) (simp add: backoffStart_def)
qed

theorem reconnect_waits_witness:
  "fst (client_Run backoffStart (replicate 3 \<lparr>tu_alive = 0, tu_cancelled = False, tu_wait_cancelled = False\<rparr>))
     = [Second, 2 * Second, 4 * Second]"
proof -
  let ?t = "\<lparr>tu_alive = 0, tu_cancelled = False, tu_wait_cancelled = False\<rparr>"
  have l: "replicate 3 ?t = [?t, ?t, ?t]" by (simp add: numeral_3_eq_3)
  obtain ws r where c: "client_Run backoffStart [?t, ?t, ?t] = (ws, r)" by fastforce
  have "ws = map (\<lambda>k. min (Second * 2 ^ k) (30 * Second)) [0..<length [?t, ?t, ?t]]"
    using reconnect_waits [OF c] by (simp add: Second_def)
  also have "[0..<length [?t, ?t, ?t]] = [0, 1, 2]" by (simp add: upt_rec)
  finally have "ws = [Second, 2 * Second, 4 * Second]" by (simp add: Second_def)
  with c show ?thesis unfolding l by simp
qed

text \<open>C37: A server started again shows the certificate it was first started with, and a client that
  pins its fingerprint, in any letter case, accepts exactly the peers whose certificate has that
  digest.\<close>

theorem pinned_certificate_survives:
  assumes "LoadOrGenerate x cfgPath c0 k0 fs = (Inr cm, fs')"
    and "fst (cert_paths x cfgPath c0 k0) \<noteq> snd (cert_paths x cfgPath c0 k0)"
    and "x_beside y = x_beside x" "x_load y = x_load x" "x_sha256 y = x_sha256 x"
    and "\<not> cc_NoTLS cfg" and "ToLower (TLSFingerprint cfg) = cm_fingerprint cm" and "TLSFingerprint cfg \<noteq> []"
  shows "LoadOrGenerate y cfgPath c0 k0 fs' = (Inr cm, fs')
     \<and> (fst (dialServer (x_sha256 x) (Inr c) (Inr certs) cfg) = Inr c
          \<longleftrightarrow> certs \<noteq> [] \<and> x_sha256 x (hd certs) = x_sha256 x (cm_cert cm))"
proof -
  have "cm = newManager x (cm_cert cm)" by (rule LoadOrGenerate_manager [OF assms(1)])
  with assms(7) have "ToLower (TLSFingerprint cfg) = cm_fingerprint (newManager x (cm_cert cm))" by simp
  from restart_same [OF assms(1-5)] pinned_accepts_iff [OF assms(6) this assms(8)] show ?thesis by (rule conjI)
qed

definition demo_x509 :: x509 where
  "demo_x509 =
     \<lparr>x_beside = (\<lambda>p n. n), x_load = (\<lambda>c k. Inr [7]), x_sha256 = (\<lambda>b. take 2 (b @ [0, 0])),
      x_pem = (\<lambda>t b. t), x_key = Inr [1], x_create = (\<lambda>k. Inr [7]), x_marshal = (\<lambda>k. Inr [1]), x_write = (\<lambda>p. None)\<rparr>"

theorem pinned_certificate_survives_witness:
  "\<exists>cm fs'. LoadOrGenerate demo_x509 ''p'' [] [] (\<lambda>p. None) = (Inr cm, fs')
     \<and> LoadOrGenerate demo_x509 ''p'' [] [] fs' = (Inr cm, fs')
     \<and> fst (dialServer (x_sha256 demo_x509) (Inr (3 :: nat)) (Inr [[8 :: byte]])
           \<lparr>ServerAddr = [], cc_Token = [], cc_NoTLS = False, TLSFingerprint = cm_fingerprint cm, cc_LogFile = [],
            Socks5Listen = []\<rparr>) \<noteq> Inr 3"
proof -
  obtain cm fs' where l: "LoadOrGenerate demo_x509 ''p'' [] [] (\<lambda>p. None) = (Inr cm, fs')"
    and cm: "cm = newManager demo_x509 [7]"
    by (simp add: LoadOrGenerate_def generate_def write_file_def cert_paths_def demo_x509_def Let_def newManager_def)
  have fp: "cm_fingerprint cm = hex_encode [7, 0]" by (simp add: cm newManager_def demo_x509_def)
  let ?cfg = "\<lparr>ServerAddr = [], cc_Token = [], cc_NoTLS = False, TLSFingerprint = cm_fingerprint cm,
      cc_LogFile = [], Socks5Listen = []\<rparr>"
  have "LoadOrGenerate demo_x509 ''p'' [] [] fs' = (Inr cm, fs')
     \<and> (fst (dialServer (x_sha256 demo_x509) (Inr (3 :: nat)) (Inr [[8 :: byte]]) ?cfg) = Inr 3
          \<longleftrightarrow> [[8 :: byte]] \<noteq> [] \<and> x_sha256 demo_x509 (hd [[8 :: byte]]) = x_sha256 demo_x509 (cm_cert cm))"
    by (rule pinned_certificate_survives [OF l])
      (simp_all add: cert_paths_def demo_x509_def fp, simp add: hex_encode_def)
  with l show ?thesis by (simp add: cm newManager_def demo_x509_def)
qed

text \<open>A certificate whose key file is missing is not kept: the start writes a new self-signed one over
  it.\<close>

theorem lone_certificate_lost:
  assumes "cert_paths x cfgPath c0 k0 = (c, k)" and "c \<noteq> k" and "fs k = None"
    and "LoadOrGenerate x cfgPath c0 k0 fs = (Inr cm, fs')"
  shows "\<exists>key der. x_key x = Inr key \<and> x_create x key = Inr der \<and> fs' c = Some (x_pem x ''CERTIFICATE'' der)"
  by (rule lone_certificate_replaced [OF assms])

theorem lone_certificate_lost_witness:
  "\<exists>cm fs'. LoadOrGenerate demo_x509 ''p'' ''my.crt'' ''my.key'' [''my.crt'' \<mapsto> ''mine''] = (Inr cm, fs')
     \<and> fs' ''my.crt'' \<noteq> Some ''mine''"
proof -
  have p: "cert_paths demo_x509 ''p'' ''my.crt'' ''my.key'' = (''my.crt'', ''my.key'')"
    by (simp add: cert_paths_def)
  have "\<exists>cm fs'. LoadOrGenerate demo_x509 ''p'' ''my.crt'' ''my.key'' [''my.crt'' \<mapsto> ''mine''] = (Inr cm, fs')"
    unfolding LoadOrGenerate_def p by (simp add: generate_def write_file_def demo_x509_def Let_def)
  then obtain cm fs' where
    l: "LoadOrGenerate demo_x509 ''p'' ''my.crt'' ''my.key'' [''my.crt'' \<mapsto> ''mine''] = (Inr cm, fs')" by blast
  from lone_certificate_lost [OF p _ _ l] have "fs' ''my.crt'' = Some ''CERTIFICATE''"
    by (auto simp: demo_x509_def)
  with l show ?thesis by auto
qed

end
