(* ===== verification/Panel.thy ===== *)
theory Panel
  imports Views LogBuf
begin

text \<open>
  The web panel (\<open>panel/panel.go\<close>): requests are routed, authorised by source address and session
  cookie, decoded, and handed to the operations of the server. A request and a response are the parts
  the code reads and writes; \<open>net/http\<close>'s parsing and cleaning of the request and the JSON decoders are parameters.
  \<open>HMAC-SHA256\<close> is a parameter too.
\<close>

section \<open>State, requests, responses\<close>

record panel =
  p_srv :: server
  p_log :: ring
  p_prefix :: string
  p_NoAuth :: bool
  p_secret :: string
  p_fails :: fails

definition New_panel :: "server \<Rightarrow> ring \<Rightarrow> string \<Rightarrow> string \<Rightarrow> panel" where
  "New_panel srv lg secret prefix =
     \<lparr>p_srv = srv, p_log = lg, p_prefix = prefix, p_NoAuth = False, p_secret = secret, p_fails = []\<rparr>"

record request =
  rq_method :: string
  rq_path :: string
  rq_remote :: string
  rq_cookie :: "string option"
  rq_n :: string
  rq_body :: string

record decoders =
  d_rule :: "string \<Rightarrow> rule option"
  d_enabled :: "string \<Rightarrow> bool option"
  d_client :: "string \<Rightarrow> (string \<times> string) option"
  d_entries :: "string \<Rightarrow> string list option"
  d_config :: "string \<Rightarrow> server_cfg option"
  d_password :: "string \<Rightarrow> string option"
  d_notify :: "string \<Rightarrow> (string \<times> string) option"

record web_env =
  w_env :: env
  w_now :: int
  w_ifaces :: "bytes list option"
  w_hmac :: "string \<Rightarrow> string \<Rightarrow> bytes"
  w_dec :: decoders
  w_sort :: "rule_view list \<Rightarrow> rule_view list"
  w_fmt :: "int \<Rightarrow> string"
  w_dur :: "int \<Rightarrow> string"
  w_answer :: "int option"

datatype body =
    BodyOK
  | BodyError
  | BodyOverview overview
  | BodyRules "rule_view list"
  | BodyPoints "hist_point list"
  | BodyClients "client_view list"
  | BodyEntries "string list"
  | BodyConfig server_cfg
  | BodyNotify string string
  | BodyLines "string list"
  | BodyMetrics overview "rule_view list" "client_view list"
  | BodyFile string

record response =
  rs_status :: nat
  rs_cookie :: "string option"
  rs_body :: body

datatype panel_error = ApiErr nat | SrvErr srv_error | NotifyErr send_error

section \<open>Helpers\<close>

definition clientIP :: "request \<Rightarrow> string" where
  "clientIP rq = (case SplitHostPort (rq_remote rq) of None \<Rightarrow> rq_remote rq | Some (host, port) \<Rightarrow> host)"

definition error_status :: "panel_error \<Rightarrow> nat" where
  "error_status e =
     (case e of
        ApiErr n \<Rightarrow> n
      | SrvErr s \<Rightarrow> (case s of NotFound \<Rightarrow> 404 | Conflict _ \<Rightarrow> 409 | _ \<Rightarrow> 500)
      | NotifyErr _ \<Rightarrow> 500)"

definition writeErr :: "panel_error \<Rightarrow> response" where
  "writeErr e = \<lparr>rs_status = error_status e, rs_cookie = None, rs_body = BodyError\<rparr>"

definition writeJSON :: "body \<Rightarrow> response" where
  "writeJSON b = \<lparr>rs_status = 200, rs_cookie = None, rs_body = b\<rparr>"

definition not_found :: response where
  "not_found = \<lparr>rs_status = 404, rs_cookie = None, rs_body = BodyError\<rparr>"

definition decode_body :: "(string \<Rightarrow> 'a option) \<Rightarrow> request \<Rightarrow> panel_error + 'a" where
  "decode_body d rq = (case d (rq_body rq) of None \<Rightarrow> Inl (ApiErr 400) | Some v \<Rightarrow> Inr v)"

section \<open>Sessions\<close>

definition sessionTTL :: int where
  "sessionTTL = 24 * 60 * Minute"

definition sign :: "web_env \<Rightarrow> string \<Rightarrow> int \<Rightarrow> string" where
  "sign w secret expiry = hex_encode (w_hmac w secret (''caochuan:'' @ Itoa expiry))"

definition session_value :: "web_env \<Rightarrow> string \<Rightarrow> string" where
  "session_value w secret =
     (let e = Unix (w_now w + sessionTTL) in Itoa e @ CHR ''|'' # sign w secret e)"

definition setSession :: "web_env \<Rightarrow> panel \<Rightarrow> response \<Rightarrow> response" where
  "setSession w p rs = rs\<lparr>rs_cookie := Some (session_value w (p_secret p))\<rparr>"

definition validSession :: "web_env \<Rightarrow> panel \<Rightarrow> request \<Rightarrow> bool" where
  "validSession w p rq =
     (case rq_cookie rq of
        None \<Rightarrow> False
      | Some c \<Rightarrow>
          (case split_first CHR ''|'' c of
             None \<Rightarrow> False
           | Some (t, mac) \<Rightarrow>
               (case ParseInt64 t of
                  None \<Rightarrow> False
                | Some e \<Rightarrow> if Unix (w_now w) > e then False else mac = sign w (p_secret p) e)))"

section \<open>Routes\<close>

datatype route =
    RLogin | RLogout | RMe | ROverview | RRules | RHistory string | RAddRule | RUpdateRule string
  | RDeleteRule string | RToggle string | RClients | RAddClient | RDeleteClient string
  | RWhitelist | RSetWhitelist | RBlacklist | RSetBlacklist | RExport | RImport | RMetrics
  | RPassword | RNotify | RSetNotify | RTestNotify | RLogs | RClientError | RIndex

text \<open>The patterns of the mux; a wildcard is one non-empty segment, \<open>GET\<close> includes \<open>HEAD\<close>, and every
  other request is the index's.\<close>

definition is_get :: "string \<Rightarrow> bool" where
  "is_get m \<longleftrightarrow> m = ''GET'' \<or> m = ''HEAD''"

definition wild :: "string list \<Rightarrow> string list \<Rightarrow> bool" where
  "wild pre segs \<longleftrightarrow> length segs = Suc (length pre) \<and> take (length pre) segs = pre \<and> last segs \<noteq> []"

definition route_of :: "string \<Rightarrow> string \<Rightarrow> route" where
  "route_of m path =
     (let segs = tl (split_on CHR ''/'' path) in
      if m = ''POST'' \<and> segs = [''api'', ''login''] then RLogin
      else if m = ''POST'' \<and> segs = [''api'', ''logout''] then RLogout
      else if is_get m \<and> segs = [''api'', ''me''] then RMe
      else if is_get m \<and> segs = [''api'', ''overview''] then ROverview
      else if is_get m \<and> segs = [''api'', ''rules''] then RRules
      else if is_get m \<and> wild [''api'', ''history''] segs then RHistory (last segs)
      else if m = ''POST'' \<and> segs = [''api'', ''rules''] then RAddRule
      else if m = ''PUT'' \<and> wild [''api'', ''rules''] segs then RUpdateRule (last segs)
      else if m = ''DELETE'' \<and> wild [''api'', ''rules''] segs then RDeleteRule (last segs)
      else if m = ''POST'' \<and> wild [''api'', ''rules''] (butlast segs) \<and> last segs = ''toggle''
      then RToggle (last (butlast segs))
      else if is_get m \<and> segs = [''api'', ''clients''] then RClients
      else if m = ''POST'' \<and> segs = [''api'', ''clients''] then RAddClient
      else if m = ''DELETE'' \<and> wild [''api'', ''clients''] segs then RDeleteClient (last segs)
      else if is_get m \<and> segs = [''api'', ''whitelist''] then RWhitelist
      else if m = ''PUT'' \<and> segs = [''api'', ''whitelist''] then RSetWhitelist
      else if is_get m \<and> segs = [''api'', ''blacklist''] then RBlacklist
      else if m = ''PUT'' \<and> segs = [''api'', ''blacklist''] then RSetBlacklist
      else if is_get m \<and> segs = [''api'', ''config'', ''export''] then RExport
      else if m = ''POST'' \<and> segs = [''api'', ''config'', ''import''] then RImport
      else if is_get m \<and> segs = [''metrics''] then RMetrics
      else if m = ''PUT'' \<and> segs = [''api'', ''password''] then RPassword
      else if is_get m \<and> segs = [''api'', ''notify''] then RNotify
      else if m = ''PUT'' \<and> segs = [''api'', ''notify''] then RSetNotify
      else if m = ''POST'' \<and> segs = [''api'', ''notify'', ''test''] then RTestNotify
      else if is_get m \<and> segs = [''api'', ''logs''] then RLogs
      else if m = ''POST'' \<and> segs = [''api'', ''client-error''] then RClientError
      else RIndex)"

section \<open>Handlers behind the session check\<close>

definition srv_result :: "server \<times> srv_error option \<Rightarrow> server \<times> (panel_error + body)" where
  "srv_result r = (case r of (s, None) \<Rightarrow> (s, Inr BodyOK) | (s, Some e) \<Rightarrow> (s, Inl (SrvErr e)))"

definition with_body ::
  "(string \<Rightarrow> 'a option) \<Rightarrow> request \<Rightarrow> server \<Rightarrow> ('a \<Rightarrow> server \<times> srv_error option) \<Rightarrow> server \<times> (panel_error + body)" where
  "with_body d rq s f = (case decode_body d rq of Inl e \<Rightarrow> (s, Inl e) | Inr v \<Rightarrow> srv_result (f v))"

text \<open>The handlers given to \<open>auth\<close>; one that writes nothing gets the body \<open>BodyOK\<close>.\<close>

definition api :: "web_env \<Rightarrow> ring \<Rightarrow> request \<Rightarrow> route \<Rightarrow> server \<Rightarrow> server \<times> (panel_error + body)" where
  "api w lg rq r s =
     (let env = w_env w; d = w_dec w in
      case r of
        ROverview \<Rightarrow> (s, Inr (BodyOverview (Overview (w_fmt w) (w_dur w) (w_now w) s)))
      | RRules \<Rightarrow> (s, Inr (BodyRules (ListRules (w_sort w) s)))
      | RHistory rid \<Rightarrow> (s, Inr (BodyPoints (GetHistory s rid)))
      | RAddRule \<Rightarrow> with_body (d_rule d) rq s (\<lambda>x. AddRule env x s)
      | RUpdateRule rid \<Rightarrow> with_body (d_rule d) rq s (\<lambda>x. UpdateRule env rid x s)
      | RDeleteRule rid \<Rightarrow> srv_result (DeleteRule env rid s)
      | RToggle rid \<Rightarrow> with_body (d_enabled d) rq s (\<lambda>x. SetRuleEnabled env rid x s)
      | RClients \<Rightarrow> (s, Inr (BodyClients (ListClients (w_fmt w) s)))
      | RAddClient \<Rightarrow> with_body (d_client d) rq s (\<lambda>(name, nt). AddClient env name nt s)
      | RDeleteClient name \<Rightarrow> srv_result (DeleteClient env name s)
      | RWhitelist \<Rightarrow> (s, Inr (BodyEntries (get_IPWhitelist s)))
      | RSetWhitelist \<Rightarrow> with_body (d_entries d) rq s (\<lambda>x. SetIPWhitelist env x s)
      | RBlacklist \<Rightarrow> (s, Inr (BodyEntries (get_IPBlacklist s)))
      | RSetBlacklist \<Rightarrow> with_body (d_entries d) rq s (\<lambda>x. SetIPBlacklist env x s)
      | RExport \<Rightarrow> (s, Inr (BodyConfig (ExportConfig s)))
      | RImport \<Rightarrow> with_body (d_config d) rq s (\<lambda>x. ImportConfig env x s)
      | RPassword \<Rightarrow> with_body (d_password d) rq s (\<lambda>x. SetPassword env x s)
      | RNotify \<Rightarrow> (let (url, format) = NotifySettings s in (s, Inr (BodyNotify url format)))
      | RSetNotify \<Rightarrow> with_body (d_notify d) rq s (\<lambda>(url, format). SetNotify env url format s)
      | RTestNotify \<Rightarrow>
          (case NotifyTest (w_now w) (w_answer w) s of
             (s1, None) \<Rightarrow> (s1, Inr BodyOK)
           | (s1, Some e) \<Rightarrow> (s1, Inl (NotifyErr e)))
      | RLogs \<Rightarrow>
          (s, Inr (BodyLines (Tail (case ParseInt64 (rq_n rq) of None \<Rightarrow> 0 | Some n \<Rightarrow> n) lg)))
      | _ \<Rightarrow> (s, Inr BodyOK))"

definition auth :: "web_env \<Rightarrow> request \<Rightarrow> route \<Rightarrow> panel \<Rightarrow> panel \<times> response" where
  "auth w rq r p =
     (if \<not> IPAllowed (w_ifaces w) (p_srv p) (clientIP rq) then (p, writeErr (ApiErr 403))
      else if \<not> p_NoAuth p \<and> \<not> validSession w p rq then (p, writeErr (ApiErr 401))
      else (case api w (p_log p) rq r (p_srv p) of
              (s, Inl e) \<Rightarrow> (p\<lparr>p_srv := s\<rparr>, writeErr e)
            | (s, Inr b) \<Rightarrow> (p\<lparr>p_srv := s\<rparr>, writeJSON b)))"

section \<open>The other handlers\<close>

text \<open>\<open>handleLogin\<close>; its two critical sections on the failures are one here.\<close>

definition handleLogin :: "web_env \<Rightarrow> request \<Rightarrow> panel \<Rightarrow> panel \<times> response" where
  "handleLogin w rq p =
     (let ip = clientIP rq in
      if \<not> IPAllowed (w_ifaces w) (p_srv p) ip then (p, writeErr (ApiErr 403))
      else (let p1 = p\<lparr>p_fails := sweepFails (w_now w) (p_fails p)\<rparr> in
            if blocked (w_now w) ip (p_fails p1) then (p1, writeErr (ApiErr 429))
            else (case decode_body (d_password (w_dec w)) rq of
                    Inl e \<Rightarrow> (p1, writeErr e)
                  | Inr pw \<Rightarrow>
                      if \<not> CheckPassword (p_srv p1) pw
                      then (p1\<lparr>p_fails := recordLoginFail (w_now w) ip (p_fails p1)\<rparr>, writeErr (ApiErr 401))
                      else (p1\<lparr>p_fails := del ip (p_fails p1)\<rparr>, setSession w p1 (writeJSON BodyOK)))))"

definition handleLogout :: response where
  "handleLogout = (writeJSON BodyOK)\<lparr>rs_cookie := Some []\<rparr>"

definition handleMetrics :: "web_env \<Rightarrow> request \<Rightarrow> panel \<Rightarrow> response" where
  "handleMetrics w rq p =
     (if \<not> IPAllowed (w_ifaces w) (p_srv p) (clientIP rq) then writeErr (ApiErr 403)
      else writeJSON (BodyMetrics (Overview (w_fmt w) (w_dur w) (w_now w) (p_srv p))
                        (ListRules (w_sort w) (p_srv p)) (ListClients (w_fmt w) (p_srv p))))"

definition handleClientError :: "web_env \<Rightarrow> request \<Rightarrow> panel \<Rightarrow> response" where
  "handleClientError w rq p =
     (if \<not> IPAllowed (w_ifaces w) (p_srv p) (clientIP rq) then not_found else writeJSON BodyOK)"

text \<open>\<open>handleIndex\<close> with the embedded files there, as \<open>runServer\<close> passes them.\<close>

definition handleIndex :: "string \<Rightarrow> response" where
  "handleIndex path = (if starts_with path ''/api/'' then not_found else writeJSON (BodyFile path))"

definition apiHandler :: "web_env \<Rightarrow> request \<Rightarrow> string \<Rightarrow> panel \<Rightarrow> panel \<times> response" where
  "apiHandler w rq path p =
     (let r = route_of (rq_method rq) path in
      case r of
        RLogin \<Rightarrow> handleLogin w rq p
      | RLogout \<Rightarrow> (p, handleLogout)
      | RMetrics \<Rightarrow> (p, handleMetrics w rq p)
      | RClientError \<Rightarrow> (p, handleClientError w rq p)
      | RIndex \<Rightarrow> (p, handleIndex path)
      | _ \<Rightarrow> auth w rq r p)"

text \<open>\<open>Handler\<close>: below the random prefix only; the prefix without its slash is redirected.\<close>

definition mount :: "string \<Rightarrow> string" where
  "mount prefix = CHR ''/'' # Trim CHR ''/'' prefix @ ''/''"

definition Handler :: "web_env \<Rightarrow> request \<Rightarrow> panel \<Rightarrow> panel \<times> response" where
  "Handler w rq p =
     (if p_prefix p = [] then apiHandler w rq (rq_path rq) p
      else if starts_with (rq_path rq) (mount (p_prefix p))
      then apiHandler w rq (drop (length (mount (p_prefix p)) - 1) (rq_path rq)) p
      else if rq_path rq @ ''/'' = mount (p_prefix p)
      then (p, \<lparr>rs_status = 301, rs_cookie = None, rs_body = BodyError\<rparr>)
      else (p, not_found))"

section \<open>What the panel guarantees\<close>

definition authorised :: "web_env \<Rightarrow> panel \<Rightarrow> request \<Rightarrow> bool" where
  "authorised w p rq \<longleftrightarrow>
     IPAllowed (w_ifaces w) (p_srv p) (clientIP rq) \<and> (p_NoAuth p \<or> validSession w p rq)"

text \<open>What a response may hold for everyone: no data of the server.\<close>

definition public_body :: "body \<Rightarrow> bool" where
  "public_body b = (case b of BodyOK \<Rightarrow> True | BodyError \<Rightarrow> True | BodyFile _ \<Rightarrow> True | _ \<Rightarrow> False)"

lemma auth_guarded:
  "auth w rq r p = (p', rs) \<Longrightarrow> \<not> authorised w p rq \<Longrightarrow> p' = p \<and> public_body (rs_body rs) \<and> rs_cookie rs = None"
  by (auto simp: auth_def authorised_def writeErr_def public_body_def split: if_splits)

lemma handleLogin_server: "handleLogin w rq p = (p', rs) \<Longrightarrow> p_srv p' = p_srv p \<and> public_body (rs_body rs)"
  by (auto simp: handleLogin_def Let_def writeErr_def writeJSON_def setSession_def public_body_def
      split: if_splits sum.splits)

lemma apiHandler_cases:
  "apiHandler w rq path p = (p', rs) \<Longrightarrow>
     (route_of (rq_method rq) path = RLogin \<and> handleLogin w rq p = (p', rs))
     \<or> (p' = p \<and> (public_body (rs_body rs)
          \<or> (route_of (rq_method rq) path = RMetrics \<and> IPAllowed (w_ifaces w) (p_srv p) (clientIP rq))))
     \<or> auth w rq (route_of (rq_method rq) path) p = (p', rs)"
  by (cases "route_of (rq_method rq) path")
     (auto simp: apiHandler_def Let_def handleLogout_def handleMetrics_def handleClientError_def
       handleIndex_def writeJSON_def writeErr_def not_found_def public_body_def split: if_splits)

lemma apiHandler_guarded:
  assumes "apiHandler w rq path p = (p', rs)" and "\<not> authorised w p rq"
  shows "p_srv p' = p_srv p \<and> (public_body (rs_body rs)
      \<or> (route_of (rq_method rq) path = RMetrics \<and> IPAllowed (w_ifaces w) (p_srv p) (clientIP rq)))"
  using apiHandler_cases [OF assms(1)] handleLogin_server auth_guarded [OF _ assms(2)] by blast

lemma Handler_guarded:
  assumes "Handler w rq p = (p', rs)" and "\<not> authorised w p rq"
  shows "p_srv p' = p_srv p
     \<and> (public_body (rs_body rs) \<or> IPAllowed (w_ifaces w) (p_srv p) (clientIP rq))"
  using assms apiHandler_guarded [OF _ assms(2)]
  by (auto simp: Handler_def not_found_def public_body_def split: if_splits)

lemma Handler_off_prefix:
  assumes "p_prefix p \<noteq> []" and "\<not> starts_with (rq_path rq) (mount (p_prefix p))"
  shows "fst (Handler w rq p) = p \<and> public_body (rs_body (snd (Handler w rq p)))"
  using assms by (simp add: Handler_def not_found_def public_body_def)

text \<open>A cookie is valid when it carries the signature of its own expiry, and not after that.\<close>

lemma validSession_iff:
  "validSession w p rq \<longleftrightarrow>
     (\<exists>t e. rq_cookie rq = Some (t @ CHR ''|'' # sign w (p_secret p) e) \<and> CHR ''|'' \<notin> set t
        \<and> ParseInt64 t = Some e \<and> Unix (w_now w) \<le> e)"
proof
  assume "validSession w p rq"
  then obtain c t mac e where c: "rq_cookie rq = Some c" "split_first CHR ''|'' c = Some (t, mac)"
    "ParseInt64 t = Some e" "\<not> Unix (w_now w) > e" "mac = sign w (p_secret p) e"
    by (auto simp: validSession_def split: option.splits if_splits)
  from split_first_SomeD [OF c(2)] have "c = t @ CHR ''|'' # mac" "CHR ''|'' \<notin> set t" by auto
  with c show "\<exists>t e. rq_cookie rq = Some (t @ CHR ''|'' # sign w (p_secret p) e) \<and> CHR ''|'' \<notin> set t
        \<and> ParseInt64 t = Some e \<and> Unix (w_now w) \<le> e"
    by (intro exI [of _ t] exI [of _ e]) simp
next
  assume "\<exists>t e. rq_cookie rq = Some (t @ CHR ''|'' # sign w (p_secret p) e) \<and> CHR ''|'' \<notin> set t
        \<and> ParseInt64 t = Some e \<and> Unix (w_now w) \<le> e"
  then show "validSession w p rq" by (auto simp: validSession_def)
qed

lemma Itoa_no_bar: "CHR ''|'' \<notin> set (Itoa i)"
  by (auto simp: Itoa_def show_nat_no_sep is_digit_def dest: show_nat_no_sep)

lemma session_lives:
  assumes "rq_cookie rq = Some (session_value w (p_secret p))" and "w_hmac v = w_hmac w"
    and "- (2 ^ 63) \<le> Unix (w_now w + sessionTTL)" "Unix (w_now w + sessionTTL) < 2 ^ 63"
  shows "validSession v p rq \<longleftrightarrow> Unix (w_now v) \<le> Unix (w_now w + sessionTTL)"
proof -
  let ?e = "Unix (w_now w + sessionTTL)"
  have s: "split_first CHR ''|'' (Itoa ?e @ CHR ''|'' # sign w (p_secret p) ?e) = Some (Itoa ?e, sign w (p_secret p) ?e)"
    using Itoa_no_bar by (rule split_first_append)
  have "sign v (p_secret p) ?e = sign w (p_secret p) ?e" by (simp add: sign_def assms(2))
  then show ?thesis
    unfolding validSession_def assms(1) session_value_def Let_def option.case s prod.case ParseInt64_Itoa [OF assms(3,4)]
    by auto
qed

end
