(* ===== verification/Cmd.thy ===== *)
theory Cmd
  imports Panel Client
begin

text \<open>
  The program around server and client (\<open>cmd/caochuan\<close>, and \<open>New\<close> to \<open>Run\<close> of
  \<open>server/server.go\<close>): the choice of the command, the \<open>-c\<close> flag, the start of the server with its
  panel, the loggers, the shutdown, and the Windows service. The service control manager is a
  parameter; \<open>flag\<close>, \<open>io.MultiWriter\<close> and \<open>os.Args\<close> are modelled as the standard library has them.
\<close>

section \<open>Arguments\<close>

text \<open>\<open>flag.FlagSet\<close> with the one string flag \<open>c\<close> and \<open>ExitOnError\<close>: an exit status, or the value.\<close>

definition flag_value :: "string \<Rightarrow> string \<times> string option" where
  "flag_value name =
     (case name of
        [] \<Rightarrow> ([], None)
      | x # r \<Rightarrow> (case split_first CHR ''='' r of None \<Rightarrow> (name, None) | Some (a, v) \<Rightarrow> (x # a, Some v)))"

fun parse_flags :: "string \<Rightarrow> string list \<Rightarrow> nat + string" where
  "parse_flags cur [] = Inr cur"
| "parse_flags cur (a # as) =
     (if length a < 2 \<or> hd a \<noteq> CHR ''-'' \<or> a = ''--'' then Inr cur
      else (let name = (if a ! 1 = CHR ''-'' then drop 2 a else drop 1 a); (key, v) = flag_value name in
            if hd name = CHR ''-'' \<or> hd name = CHR ''='' then Inl 2
            else if key = ''c'' then
              (case v of
                 Some w \<Rightarrow> parse_flags w as
               | None \<Rightarrow> (case as of [] \<Rightarrow> Inl 2 | w # rest \<Rightarrow> parse_flags w rest))
            else if key = ''help'' \<or> key = ''h'' then Inl 0
            else Inl 2))"

datatype command =
    RunServer "string list"
  | RunClient "string list"
  | Service "string list"
  | PrintVersion
  | UsageExit nat

text \<open>\<open>main\<close> on \<open>os.Args\<close>.\<close>

definition main_command :: "string list \<Rightarrow> command" where
  "main_command args =
     (case drop 1 args of
        [] \<Rightarrow> UsageExit 2
      | c # rest \<Rightarrow>
          if c = ''server'' then RunServer rest
          else if c = ''client'' then RunClient rest
          else if c = ''service'' then Service rest
          else if c = ''version'' \<or> c = ''-v'' \<or> c = ''--version'' then PrintVersion
          else UsageExit 2)"

fun service_args :: "string \<times> string \<Rightarrow> string list \<Rightarrow> string \<times> string" where
  "service_args rc [] = rc"
| "service_args rc [a] = rc"
| "service_args (role, cfgPath) (a # v # as) =
     (if a = ''-role'' then service_args (v, cfgPath) as
      else if a = ''-c'' then service_args (role, v) as
      else service_args (role, cfgPath) (v # as))"

definition parseServiceArgs :: "string list \<Rightarrow> string \<times> string" where
  "parseServiceArgs args =
     (let (role, cfgPath) = service_args ([], []) args in
      (role, if cfgPath = [] then ''conf/'' @ role @ ''.json'' else cfgPath))"

text \<open>The arguments \<open>installService\<close> registers; Windows starts the program with its path before them.\<close>

definition service_command :: "string \<Rightarrow> string \<Rightarrow> string list" where
  "service_command role cfgPath = [''service'', ''-role'', role, ''-c'', cfgPath]"

lemma parseServiceArgs_path: "snd (parseServiceArgs args) \<noteq> []"
  by (simp add: parseServiceArgs_def Let_def case_prod_beta)

lemma service_command_reads_back:
  "cfgPath \<noteq> [] \<Longrightarrow> parseServiceArgs (drop 1 (service_command role cfgPath)) = (role, cfgPath)"
  by (simp add: parseServiceArgs_def service_command_def)

section \<open>The start of the server\<close>

datatype start_error =
    LoadFailed cfg_error
  | IndexPanic
  | PrefixSave cfg_error
  | NewFailed srv_error

text \<open>
  \<open>runServer\<close> up to \<open>srv.Run\<close>. \<open>rnd 0\<close> to \<open>rnd 3\<close> and \<open>io 0\<close>, \<open>io 1\<close> are those of \<open>LoadServer\<close>;
  \<open>rnd 4\<close> and \<open>io 2\<close> belong to the missing panel prefix. Printing the generated values reads the
  first client.
\<close>

definition runServer ::
  "(string \<Rightarrow> server_cfg option) \<Rightarrow> (server_cfg \<Rightarrow> string) \<Rightarrow> (nat \<Rightarrow> save_io) \<Rightarrow> (nat \<Rightarrow> bytes)
     \<Rightarrow> cfg_error option \<Rightarrow> x509 \<Rightarrow> int \<Rightarrow> ring \<Rightarrow> string \<Rightarrow> files \<Rightarrow> (start_error + panel) \<times> files" where
  "runServer dec enc io rnd rd x now lg path fs =
     (case LoadServer dec enc io rnd rd path fs of
        (Inl e, fs1) \<Rightarrow> (Inl (LoadFailed e), fs1)
      | (Inr (cfg, generated), fs1) \<Rightarrow>
          if generated \<and> Clients cfg = [] then (Inl IndexPanic, fs1)
          else
            (let cfg1 = (if PanelPrefix cfg = [] then cfg\<lparr>PanelPrefix := short_token (rnd 4)\<rparr> else cfg);
                 (fs2, e) = (if PanelPrefix cfg = [] then save (io 2) path (enc cfg1) fs1 else (fs1, None))
             in case e of
                  Some er \<Rightarrow> (Inl (PrefixSave er), fs2)
                | None \<Rightarrow>
                    (case New_with_certs x now cfg1 path fs2 of
                       Inl er \<Rightarrow> (Inl (NewFailed er), fs2)
                     | Inr srv \<Rightarrow>
                         (Inr ((New_panel srv lg (Secret cfg1) (PanelPrefix cfg1))\<lparr>p_NoAuth := NoAuth cfg1\<rparr>),
                          s_files srv))))"

datatype client_start = TemplateWritten | ClientLoadFailed cfg_error | ClientRuns client_config

text \<open>\<open>runClient\<close>: a missing configuration is replaced by a template, which counts as success.\<close>

definition runClient ::
  "(string \<Rightarrow> client_config option) \<Rightarrow> (client_config \<Rightarrow> string) \<Rightarrow> save_io \<Rightarrow> cfg_error option \<Rightarrow> string
     \<Rightarrow> files \<Rightarrow> client_start \<times> files" where
  "runClient dec enc io rd path fs =
     (case LoadClient dec enc io rd path fs of
        (Inl e, fs1) \<Rightarrow> (if e = NotExist then TemplateWritten else ClientLoadFailed e, fs1)
      | (Inr cfg, fs1) \<Rightarrow> (ClientRuns cfg, fs1))"

lemma New_fields: "New now certs cfg path fs = Inr s \<Longrightarrow> s_cfg s = cfg \<and> s_files s = fs \<and> s_runners s = []"
  by (auto simp: New_def Let_def split: if_splits sum.splits)

lemma New_with_certs_cfg: "New_with_certs x now cfg path fs = Inr s \<Longrightarrow> s_cfg s = cfg"
  by (auto simp: New_with_certs_def Let_def dest: New_fields split: if_splits prod.splits)

lemma New_with_certs_New: "New_with_certs x now cfg path fs = Inr s \<Longrightarrow> \<exists>certs fs1. New now certs cfg path fs1 = Inr s"
  by (auto simp: New_with_certs_def Let_def split: if_splits prod.splits)

text \<open>A server that comes up has a signing secret, its panel is below a prefix nobody else chose, and
  there is a password unless the configuration switches it off.\<close>

lemma runServer_safe:
  assumes r: "runServer dec enc io rnd rd x now lg path fs = (Inr p, fs')" and ok: "random_ok rnd"
  shows "p_secret p \<noteq> [] \<and> p_prefix p \<noteq> [] \<and> (p_NoAuth p \<or> Password (s_cfg (p_srv p)) \<noteq> [])
     \<and> p_secret p = Secret (s_cfg (p_srv p)) \<and> p_NoAuth p = NoAuth (s_cfg (p_srv p)) \<and> p_fails p = []"
proof -
  obtain cfg g fs1 where l: "LoadServer dec enc io rnd rd path fs = (Inr (cfg, g), fs1)"
    using r by (auto simp: runServer_def split: prod.splits sum.splits)
  let ?cfg = "if PanelPrefix cfg = [] then cfg\<lparr>PanelPrefix := short_token (rnd 4)\<rparr> else cfg"
  obtain srv fs2 where n: "New_with_certs x now ?cfg path fs2 = Inr srv"
    and p: "p = (New_panel srv lg (Secret ?cfg) (PanelPrefix ?cfg))\<lparr>p_NoAuth := NoAuth ?cfg\<rparr>"
    using r l by (auto simp: runServer_def Let_def split: if_splits prod.splits option.splits sum.splits)
  have "s_cfg srv = ?cfg" using n by (rule New_with_certs_cfg)
  then show ?thesis
    using LoadServer_secret [OF l ok] LoadServer_password [OF l ok]
      short_token_nonempty [OF random_ok_nonempty [OF ok], of 4]
    by (simp add: p New_panel_def)
qed

text \<open>A configuration without a password and without clients is given a password and saved; then the
  message about it reads the first client.\<close>

lemma runServer_panics:
  assumes "fs path = Some b" and "dec b = Some cfg" and "Secret cfg \<noteq> []" and "\<not> NoAuth cfg"
    and "Password cfg = []" and "Clients cfg = []"
    and "save (io 1) path (enc (cfg\<lparr>Password := short_token (rnd 1)\<rparr>)) fs = (fs', None)"
  shows "runServer dec enc io rnd None x now lg path fs = (Inl IndexPanic, fs')"
  using assms by (simp add: runServer_def LoadServer_def)

section \<open>Running and stopping\<close>

text \<open>\<open>(*Server).Run\<close> until it waits: \<open>fault\<close> is that of the tunnel's listener.\<close>

definition tls_note :: "string \<Rightarrow> string" where
  "tls_note fp =
     [CHR 0xE9, CHR 0x9A, CHR 0xA7, CHR 0xE9, CHR 0x81, CHR 0x93] @ '' TLS '' @
     [CHR 0xE5, CHR 0xB7, CHR 0xB2, CHR 0xE5, CHR 0x90, CHR 0xAF, CHR 0xE7, CHR 0x94, CHR 0xA8] @ '', '' @
     [CHR 0xE8, CHR 0xAF, CHR 0x81, CHR 0xE4, CHR 0xB9, CHR 0xA6, CHR 0xE6, CHR 0x8C, CHR 0x87,
      CHR 0xE7, CHR 0xBA, CHR 0xB9] @ '': '' @ fp @ [CHR 0x0A]"

definition Run_start :: "env \<Rightarrow> string option \<Rightarrow> server \<times> ring \<Rightarrow> string + server \<times> ring" where
  "Run_start env fault sl =
     (let (s, lg) = sl in
      case fault of
        Some e \<Rightarrow> Inl e
      | None \<Rightarrow>
          Inr (apply_rules env s,
               (case s_fingerprint s of None \<Rightarrow> lg | Some fp \<Rightarrow> ring_Write (tls_note fp) lg)))"

text \<open>What \<open>Run\<close> does once its context is cancelled: the listeners it stops and the server after it.\<close>

definition Run_stop :: "server \<Rightarrow> server \<times> string list" where
  "Run_stop s =
     (foldl (\<lambda>t cc. close_session (cn_Session cc) t) (s\<lparr>s_stopping := True\<rparr>) (map snd (s_clients s)),
      keys (s_runners s))"

lemma close_loop:
  "foldl (\<lambda>t cc. close_session (cn_Session cc) t) s ccs = s\<lparr>s_closed := s_closed s \<union> cn_Session ` set ccs\<rparr>"
  by (induction ccs arbitrary: s) (simp_all add: close_session_def)

lemma Run_stop_eq:
  "Run_stop s = (s\<lparr>s_stopping := True, s_closed := s_closed s \<union> cn_Session ` snd ` set (s_clients s)\<rparr>,
     keys (s_runners s))"
  by (simp add: Run_stop_def close_loop)

text \<open>After a start every enabled rule of the server is listening.\<close>

lemma Run_start_serves:
  assumes n: "New now certs cfg path fs = Inr s0" and inv: "rules_inv cfg" and "go_order (e_ord env)"
    and "exclusive (e_os env)" and st: "Run_start env None (s0, lg) = Inr (s, lg')"
  shows "listening s \<and> server_inv s"
proof -
  have f: "s_cfg s0 = cfg" "s_runners s0 = []" using New_fields [OF n] by simp_all
  have i0: "server_inv s0" using n inv by (rule New_inv)
  have s: "s = apply_rules env s0" using st by (simp add: Run_start_def)
  have ids: "ports_ok (Rules cfg)" "ids_ok (Rules cfg)" "\<forall>r \<in> set (Rules cfg). rule_ok r (Clients cfg)"
    using inv by (simp_all add: rules_inv_def)
  have rn: "s_runners s = runners_after env (Rules cfg) s0"
    by (simp add: s f runners_after_def apply_rules_runners)
  have c: "s_cfg s = cfg" by (simp add: s f)
  have "served (desired_rules (Rules cfg)) (s_runners s)"
    unfolding rn runners_after_def
    by (rule apply_serves [OF assms(3,4) _ apart_desired [OF ids(1,2)]])
      (use ids(3) in \<open>simp_all add: f unobstructed_def rule_ok_def\<close>)
  then have "listening s"
    unfolding listening_def using lookup_desired ids(2) by (simp add: served_def s f ids_ok_def)
  moreover have "runners_inv s"
    by (rule runners_after_inv [OF assms(3), of s0]) (simp_all add: rn f c)
  moreover have "s_notifier s = notifier_after env (Rules cfg) s0"
    by (simp add: s f notifier_after_def apply_rules_notifier)
  ultimately show ?thesis
    using i0 notifier_after_inv [of s0 env "Rules cfg"]
    by (simp add: server_inv_def notif_inv_def s f)
qed

section \<open>Logging\<close>

text \<open>The writers of \<open>setupLogger\<close>: standard output, the ring and, when a file is configured, the rotator.\<close>

record loggers =
  lo_ring :: ring
  lo_file :: "(rotator \<times> files) option"

definition setupLogger :: "ring \<Rightarrow> string \<Rightarrow> files \<Rightarrow> loggers" where
  "setupLogger lg logFile fs =
     \<lparr>lo_ring = lg, lo_file = (if logFile = [] then None else Some (NewRotator logFile 10 3, fs))\<rparr>"

text \<open>\<open>io.MultiWriter\<close> hands a line to the writers in order and stops at the first one that fails.
  \<open>stdout\<close> says whether standard output takes the line.\<close>

definition log_line :: "bool \<Rightarrow> bool \<Rightarrow> nat \<Rightarrow> string \<Rightarrow> loggers \<Rightarrow> loggers" where
  "log_line stdout can_open n line lo =
     (if \<not> stdout then lo
      else (let lo1 = lo\<lparr>lo_ring := ring_Write line (lo_ring lo)\<rparr> in
            case lo_file lo1 of
              None \<Rightarrow> lo1
            | Some rf \<Rightarrow> lo1\<lparr>lo_file := Some (fst (rot_Write can_open n line rf))\<rparr>))"

section \<open>The Windows service\<close>

datatype svc_cmd = Interrogate nat | SvcStop | SvcShutdown | OtherCmd nat

datatype svc_event = ChangeRequest svc_cmd | ProcessEnded

datatype svc_status = StartPending | Running | StopPending | Current nat

text \<open>The loop of \<open>Execute\<close>: the statuses it reports and its exit status, once it returns. A stop
  request waits for the program to end.\<close>

fun svc_loop :: "svc_event list \<Rightarrow> svc_status list \<times> nat option" where
  "svc_loop [] = ([], None)"
| "svc_loop (ProcessEnded # es) = ([], Some 1)"
| "svc_loop (ChangeRequest c # es) =
     (case c of
        Interrogate st \<Rightarrow> (let (out, r) = svc_loop es in (Current st # out, r))
      | OtherCmd k \<Rightarrow> svc_loop es
      | _ \<Rightarrow> ([StopPending], if ProcessEnded \<in> set es then Some 0 else None))"

definition Execute :: "string \<Rightarrow> svc_event list \<Rightarrow> bool \<times> svc_status list \<times> nat option" where
  "Execute role es =
     (let (out, r) = svc_loop es in (role = ''client'', StartPending # Running # out, r))"

text \<open>The service control manager: the faults of its calls, and whether the service is registered and
  with which program and arguments.\<close>

record scm =
  m_exe :: "string + string"
  m_connects :: bool
  m_create :: "string option"
  m_start :: "string option"
  m_service :: "(string \<times> string list) option"

datatype install_error = NoExe string | NeedsAdmin | AlreadyInstalled | CreateFailed string | StartFailed string

definition installService :: "string \<Rightarrow> string \<Rightarrow> scm \<Rightarrow> scm \<times> install_error option" where
  "installService role cfgPath m =
     (case m_exe m of
        Inl e \<Rightarrow> (m, Some (NoExe e))
      | Inr exe \<Rightarrow>
          if \<not> m_connects m then (m, Some NeedsAdmin)
          else if m_service m \<noteq> None then (m, Some AlreadyInstalled)
          else (case m_create m of
                  Some e \<Rightarrow> (m, Some (CreateFailed e))
                | None \<Rightarrow>
                    (m\<lparr>m_service := Some (exe, service_command role cfgPath)\<rparr>,
                     map_option StartFailed (m_start m))))"

datatype service_result = Installed | Removed | Started | Stopped | SvcExit nat | SvcRan string string

text \<open>
  \<open>removeService\<close>: \<open>query\<close> is whether the service is stopped, when that can be found out, \<open>control\<close>
  and \<open>delete\<close> are faults of the calls on the opened service. The wait for it to stop, half a minute
  at most, has no influence on the result.
\<close>

definition open_service :: "scm \<Rightarrow> bool" where
  "open_service m \<longleftrightarrow> m_connects m \<and> m_service m \<noteq> None"

definition removeService :: "bool option \<Rightarrow> string option \<Rightarrow> string option \<Rightarrow> scm \<Rightarrow> scm \<times> bool" where
  "removeService query control delete m =
     (if \<not> open_service m then (m, False)
      else if query = Some False \<and> control \<noteq> None then (m, False)
      else if delete \<noteq> None then (m, False)
      else (m\<lparr>m_service := None\<rparr>, True))"

text \<open>\<open>serviceMain\<close>: \<open>started\<close> is whether the manager started the program, with the arguments \<open>os_args\<close>;
  \<open>args\<close> are those given by a user.\<close>

definition serviceMain ::
  "string + bool \<Rightarrow> string list \<Rightarrow> bool option \<Rightarrow> string option \<Rightarrow> string option \<Rightarrow> string list \<Rightarrow> scm
     \<Rightarrow> scm \<times> service_result" where
  "serviceMain started os_args query control delete args m =
     (case started of
        Inl e \<Rightarrow> (m, SvcExit 1)
      | Inr True \<Rightarrow> (let (role, cfgPath) = parseServiceArgs (drop 2 os_args) in (m, SvcRan role cfgPath))
      | Inr False \<Rightarrow>
          (case args of
             [] \<Rightarrow> (m, SvcExit 2)
           | a # rest \<Rightarrow>
               if a = ''install'' then
                 (let (role, cfgPath) = parseServiceArgs rest in
                  if role \<noteq> ''server'' \<and> role \<noteq> ''client'' then (m, SvcExit 2)
                  else (case installService role cfgPath m of
                          (m1, Some e) \<Rightarrow> (m1, SvcExit 1)
                        | (m1, None) \<Rightarrow> (m1, Installed)))
               else if a = ''remove'' then
                 (case removeService query control delete m of
                    (m1, ok) \<Rightarrow> (m1, if ok then Removed else SvcExit 1))
               else if a = ''start'' then
                 (if \<not> open_service m \<or> m_start m \<noteq> None then (m, SvcExit 1) else (m, Started))
               else if a = ''stop'' then
                 (if \<not> open_service m \<or> control \<noteq> None then (m, SvcExit 1) else (m, Stopped))
               else (m, SvcExit 2)))"

text \<open>Windows starts what was installed: the role and configuration that were asked for.\<close>

lemma install_then_start:
  assumes "serviceMain (Inr False) as1 q c d (''install'' # args) m = (m1, Installed)"
  shows "\<exists>exe cmd. m_service m1 = Some (exe, cmd)
     \<and> snd (serviceMain (Inr True) (exe # cmd) q c d [] m1) = SvcRan (fst (parseServiceArgs args)) (snd (parseServiceArgs args))"
proof -
  obtain role cfgPath where p: "parseServiceArgs args = (role, cfgPath)" by fastforce
  then have ne: "cfgPath \<noteq> []" using parseServiceArgs_path [of args] by simp
  obtain exe where m1: "m_service m1 = Some (exe, service_command role cfgPath)"
    using assms p by (auto simp: serviceMain_def installService_def split: if_splits sum.splits option.splits prod.splits)
  have "parseServiceArgs (drop 2 (exe # service_command role cfgPath)) = (role, cfgPath)"
    using service_command_reads_back [OF ne, of role] by (simp add: numeral_2_eq_2)
  with m1 p show ?thesis by (simp add: serviceMain_def)
qed

end
