(* ===== verification/Metrics.thy ===== *)
theory Metrics
  imports Panel
begin

text \<open>
  The Prometheus page of the panel (\<open>panel/metrics.go\<close>). \<open>%q\<close> is \<open>strconv.Quote\<close>: of an ASCII
  character its escape, of a byte from 128 on the byte itself, as for the letters of any script
  (the code points \<open>strconv\<close> calls unprintable are not told apart). \<open>scrape\<close> is the reader the
  exposition format documents: in a label value the backslash escapes a backslash, a quote or an n.
\<close>

section \<open>Labels\<close>

abbreviation quote_mark :: char where
  "quote_mark \<equiv> CHR 0x22"

abbreviation backslash :: char where
  "backslash \<equiv> CHR 0x5C"

abbreviation newline :: char where
  "newline \<equiv> CHR 0x0A"

definition sanitizeLabel :: "string \<Rightarrow> string" where
  "sanitizeLabel s =
     replace_char newline (backslash # ''n'')
       (replace_char quote_mark [backslash, quote_mark] (replace_char backslash [backslash, backslash] s))"

definition quote_char :: "char \<Rightarrow> string" where
  "quote_char c =
     (let n = (of_char c :: nat) in
      if c = quote_mark \<or> c = backslash then [backslash, c]
      else if 32 \<le> n \<and> n \<noteq> 127 then [c]
      else backslash #
        (if n = 7 then ''a'' else if n = 8 then ''b'' else if n = 12 then ''f'' else if n = 10 then ''n''
         else if n = 13 then ''r'' else if n = 9 then ''t'' else if n = 11 then ''v''
         else [CHR ''x'', hex_char (n div 16), hex_char (n mod 16)]))"

definition go_quote :: "string \<Rightarrow> string" where
  "go_quote s = quote_mark # concat (map quote_char s) @ [quote_mark]"

section \<open>The page\<close>

definition help_rules_total :: string where
  "help_rules_total =
    [CHR 0xE8, CHR 0xA7, CHR 0x84, CHR 0xE5, CHR 0x88, CHR 0x99, CHR 0xE6, CHR 0x80, CHR 0xBB, CHR
    0xE6, CHR 0x95, CHR 0xB0]"

definition help_clients_total :: string where
  "help_clients_total =
    [CHR 0xE6, CHR 0xB3, CHR 0xA8, CHR 0xE5, CHR 0x86, CHR 0x8C, CHR 0xE5, CHR 0xAE, CHR 0xA2, CHR
    0xE6, CHR 0x88, CHR 0xB7, CHR 0xE7, CHR 0xAB, CHR 0xAF, CHR 0xE6, CHR 0x95, CHR 0xB0]"

definition help_clients_online :: string where
  "help_clients_online =
    [CHR 0xE5, CHR 0x9C, CHR 0xA8, CHR 0xE7, CHR 0xBA, CHR 0xBF, CHR 0xE5, CHR 0xAE, CHR 0xA2, CHR
    0xE6, CHR 0x88, CHR 0xB7, CHR 0xE7, CHR 0xAB, CHR 0xAF, CHR 0xE6, CHR 0x95, CHR 0xB0]"

definition help_rule_bytes_total :: string where
  "help_rule_bytes_total =
    [CHR 0xE8, CHR 0xA7, CHR 0x84, CHR 0xE5, CHR 0x88, CHR 0x99, CHR 0xE7, CHR 0xB4, CHR 0xAF, CHR
    0xE8, CHR 0xAE, CHR 0xA1, CHR 0xE6, CHR 0xB5, CHR 0x81, CHR 0xE9, CHR 0x87, CHR 0x8F, CHR
    0xE5, CHR 0xAD, CHR 0x97, CHR 0xE8, CHR 0x8A, CHR 0x82]"

definition help_rule_conns :: string where
  "help_rule_conns =
    [CHR 0xE8, CHR 0xA7, CHR 0x84, CHR 0xE5, CHR 0x88, CHR 0x99, CHR 0xE5, CHR 0xBD, CHR 0x93, CHR
    0xE5, CHR 0x89, CHR 0x8D, CHR 0xE8, CHR 0xBF, CHR 0x9E, CHR 0xE6, CHR 0x8E, CHR 0xA5, CHR
    0xE6, CHR 0x95, CHR 0xB0]"

definition help_client_online :: string where
  "help_client_online =
    [CHR 0xE5, CHR 0xAE, CHR 0xA2, CHR 0xE6, CHR 0x88, CHR 0xB7, CHR 0xE7, CHR 0xAB, CHR 0xAF, CHR
    0xE5, CHR 0x9C, CHR 0xA8, CHR 0xE7, CHR 0xBA, CHR 0xBF, CHR 0xE7, CHR 0x8A, CHR 0xB6, CHR
    0xE6, CHR 0x80, CHR 0x81]"

definition head :: "string \<Rightarrow> string \<Rightarrow> string \<Rightarrow> string" where
  "head name help kind =
     ''# HELP '' @ name @ '' '' @ help @ newline # ''# TYPE '' @ name @ '' '' @ kind @ [newline]"

definition label :: "string \<Rightarrow> string \<Rightarrow> string" where
  "label name v = name @ ''='' @ go_quote v"

definition sample :: "string \<Rightarrow> string list \<Rightarrow> int \<Rightarrow> string" where
  "sample name labels v =
     name @ (if labels = [] then [] else ''{'' @ join_with CHR '','' labels @ ''}'') @ '' '' @ Itoa v @ [newline]"

definition rule_labels :: "rule_view \<Rightarrow> string list" where
  "rule_labels r =
     [label ''rule'' (ID (v_Rule r)), label ''name'' (sanitizeLabel (Name (v_Rule r))),
      label ''side'' (sanitizeLabel (SideOf (v_Rule r)))]"

definition byte_samples :: "rule_view \<Rightarrow> string" where
  "byte_samples r =
     sample ''caochuan_rule_bytes_total'' (rule_labels r @ [label ''direction'' ''in'']) (v_BytesIn r)
     @ sample ''caochuan_rule_bytes_total'' (rule_labels r @ [label ''direction'' ''out'']) (v_BytesOut r)"

definition conn_sample :: "rule_view \<Rightarrow> string" where
  "conn_sample r = sample ''caochuan_rule_conns'' (rule_labels r) (v_Conns r)"

definition online_sample :: "client_view \<Rightarrow> string" where
  "online_sample c =
     sample ''caochuan_client_online'' [label ''client'' (sanitizeLabel (cv_Name c))] (if cv_Online c then 1 else 0)"

text \<open>\<open>writeMetrics\<close> of what the server shows at one moment: the code lists the rules twice.\<close>

definition writeMetrics :: "overview \<Rightarrow> rule_view list \<Rightarrow> client_view list \<Rightarrow> string" where
  "writeMetrics ov rules clients =
     head ''caochuan_rules_total'' help_rules_total ''gauge''
     @ sample ''caochuan_rules_total'' [] (int (ov_rules ov))
     @ head ''caochuan_clients_total'' help_clients_total ''gauge''
     @ sample ''caochuan_clients_total'' [] (int (ov_clients ov))
     @ head ''caochuan_clients_online'' help_clients_online ''gauge''
     @ sample ''caochuan_clients_online'' [] (int (ov_clients_online ov))
     @ head ''caochuan_rule_bytes_total'' help_rule_bytes_total ''counter''
     @ concat (map byte_samples rules)
     @ head ''caochuan_rule_conns'' help_rule_conns ''gauge''
     @ concat (map conn_sample rules)
     @ head ''caochuan_client_online'' help_client_online ''gauge''
     @ concat (map online_sample clients)"

section \<open>What a scraper reads\<close>

text \<open>The value of a quoted label and the text after it.\<close>

fun scrape_value :: "string \<Rightarrow> (string \<times> string) option" where
  "scrape_value [] = None"
| "scrape_value (c # s) =
     (if c = quote_mark then Some ([], s)
      else if c = newline then None
      else if c \<noteq> backslash then map_option (\<lambda>(v, r). (c # v, r)) (scrape_value s)
      else (case s of
              [] \<Rightarrow> None
            | d # t \<Rightarrow>
                if d = backslash \<or> d = quote_mark then map_option (\<lambda>(v, r). (d # v, r)) (scrape_value t)
                else if d = CHR ''n'' then map_option (\<lambda>(v, r). (newline # v, r)) (scrape_value t)
                else None))"

definition scrape :: "string \<Rightarrow> (string \<times> string) option" where
  "scrape s = (case s of [] \<Rightarrow> None | c # t \<Rightarrow> if c = quote_mark then scrape_value t else None)"

text \<open>The characters \<open>%q\<close> writes in the escapes of the format: everything but the other controls.\<close>

definition plain_char :: "char \<Rightarrow> bool" where
  "plain_char c \<longleftrightarrow> c = newline \<or> (32 \<le> (of_char c :: nat) \<and> (of_char c :: nat) \<noteq> 127)"

lemma quote_char_plain:
  "plain_char c \<Longrightarrow> quote_char c =
     (if c = quote_mark \<or> c = backslash then [backslash, c] else if c = newline then [backslash, CHR ''n''] else [c])"
  by (auto simp: quote_char_def plain_char_def Let_def)

lemma scrape_value_quoted:
  "list_all plain_char s \<Longrightarrow> scrape_value (concat (map quote_char s) @ quote_mark # rest) = Some (s, rest)"
  by (induction s) (simp_all add: quote_char_plain)

lemma scrape_quoted: "list_all plain_char s \<Longrightarrow> scrape (go_quote s @ rest) = Some (s, rest)"
  by (simp add: scrape_def go_quote_def scrape_value_quoted)

text \<open>Any other control character makes a label the format does not have.\<close>

lemma scrape_control:
  assumes "list_all plain_char p" and "\<not> plain_char c"
  shows "scrape (go_quote (p @ c # s) @ rest) = None"
proof -
  let ?n = "of_char c :: nat"
  have "c = newline" if "?n = 10"
  proof -
    from that have "?n = of_char newline" by simp
    then show ?thesis by (simp only: of_char_eq_iff)
  qed
  with assms(2) have n: "?n < 32 \<or> ?n = 127" "?n \<noteq> 10" by (auto simp: plain_char_def)
  then have "c \<noteq> quote_mark" "c \<noteq> backslash" by auto
  with n have q: "quote_char c = backslash #
      (if ?n = 7 then ''a'' else if ?n = 8 then ''b'' else if ?n = 12 then ''f''
       else if ?n = 13 then ''r'' else if ?n = 9 then ''t'' else if ?n = 11 then ''v''
       else [CHR ''x'', hex_char (?n div 16), hex_char (?n mod 16)])"
    by (auto simp: quote_char_def Let_def)
  have "\<exists>d t. quote_char c = backslash # d # t \<and> d \<noteq> backslash \<and> d \<noteq> quote_mark \<and> d \<noteq> CHR ''n''"
    unfolding q by simp
  then obtain d t where "quote_char c = backslash # d # t" "d \<noteq> backslash" "d \<noteq> quote_mark" "d \<noteq> CHR ''n''"
    by blast
  then have bad: "scrape_value (quote_char c @ u) = None" for u by simp
  have "scrape_value (concat (map quote_char p) @ quote_char c @ u) = None" for u
    using assms(1) bad [of u] by (induction p) (simp_all add: quote_char_plain)
  then show ?thesis by (simp add: scrape_def go_quote_def)
qed

lemma sanitizeLabel_Nil [simp]: "sanitizeLabel [] = []"
  by (simp add: sanitizeLabel_def replace_char_def)

lemma sanitizeLabel_Cons:
  "sanitizeLabel (c # s) =
     (if c = backslash then [backslash, backslash] else if c = quote_mark then [backslash, quote_mark]
      else if c = newline then [backslash, CHR ''n''] else [c]) @ sanitizeLabel s"
  by (simp add: sanitizeLabel_def replace_char_def)

lemma sanitizeLabel_plain: "list_all plain_char s \<Longrightarrow> list_all plain_char (sanitizeLabel s)"
  by (induction s) (auto simp: sanitizeLabel_Cons plain_char_def)

lemma sanitizeLabel_longer: "length s \<le> length (sanitizeLabel s)"
  by (induction s) (auto simp: sanitizeLabel_Cons)

lemma sanitizeLabel_same: "sanitizeLabel s = s \<longleftrightarrow> backslash \<notin> set s \<and> quote_mark \<notin> set s \<and> newline \<notin> set s"
proof (induction s)
  case Nil
  then show ?case by simp
next
  case (Cons c s)
  have "length s < length (d # sanitizeLabel s)" for d :: char using sanitizeLabel_longer [of s] by simp
  then have "[x, d] @ sanitizeLabel s \<noteq> c # s" for x d by (metis append_Cons append_Nil list.inject nat_neq_iff)
  with Cons show ?case by (auto simp: sanitizeLabel_Cons)
qed

section \<open>Lines\<close>

definition line_count :: "string \<Rightarrow> nat" where
  "line_count s = length (filter (\<lambda>c. c = newline) s)"

lemma line_count_simps [simp]:
  "line_count [] = 0" "line_count (c # s) = (if c = newline then 1 else 0) + line_count s"
  "line_count (s @ t) = line_count s + line_count t"
  by (simp_all add: line_count_def)

lemma line_count_quote_char [simp]: "line_count (quote_char c) = 0"
proof -
  have "hex_char k \<noteq> newline" if "k < 16" for k
    using that by (auto simp: hex_char_def dest: arg_cong [of _ _ "of_char :: char \<Rightarrow> nat"])
  moreover have "(of_char c :: nat) div 16 < 16" "(of_char c :: nat) mod 16 < 16"
    by (simp_all add: less_mult_imp_div_less)
  ultimately show ?thesis by (auto simp: quote_char_def Let_def)
qed

lemma line_count_quoted [simp]: "line_count (go_quote s) = 0"
  by (simp add: go_quote_def) (induction s; simp)

lemma line_count_label [simp]: "line_count (label n v) = line_count n"
  by (simp add: label_def)

lemma line_count_Itoa [simp]: "line_count (Itoa i) = 0"
proof -
  have "newline \<notin> set (show_nat n)" for n by (rule show_nat_no_sep) (simp add: is_digit_def)
  then show ?thesis by (auto simp: Itoa_def line_count_def filter_empty_conv)
qed

lemma line_count_byte_samples [simp]: "line_count (byte_samples r) = 2"
  by (simp add: byte_samples_def sample_def rule_labels_def)

lemma line_count_conn_sample [simp]: "line_count (conn_sample r) = 1"
  by (simp add: conn_sample_def sample_def rule_labels_def)

lemma line_count_online_sample [simp]: "line_count (online_sample c) = 1"
  by (simp add: online_sample_def sample_def)

lemma line_count_concat: "(\<And>x. line_count (f x) = k) \<Longrightarrow> line_count (concat (map f xs)) = k * length xs"
  by (induction xs) simp_all

lemma line_count_help [simp]:
  "line_count help_rules_total = 0" "line_count help_clients_total = 0" "line_count help_clients_online = 0"
  "line_count help_rule_bytes_total = 0" "line_count help_rule_conns = 0" "line_count help_client_online = 0"
  by (simp_all add: help_rules_total_def help_clients_total_def help_clients_online_def
      help_rule_bytes_total_def help_rule_conns_def help_client_online_def)

lemma line_count_head [simp]: "line_count (head n h k) = 2 + 2 * line_count n + line_count h + line_count k"
  by (simp add: head_def)

lemma writeMetrics_lines:
  "line_count (writeMetrics ov rules clients) = 15 + 3 * length rules + length clients"
  by (simp add: writeMetrics_def sample_def line_count_concat [where k = 2] line_count_concat [where k = 1])

end
