(* ===== verification/PanelProperties.thy ===== *)
theory PanelProperties
  imports ServerProperties Cmd Metrics
begin

text \<open>
  The properties of the panel, of the start of the program, and of the Windows service: what a
  request can change, who may ask for it, how long a session lives, what the metrics show, and in
  which state the server comes up.
\<close>

section \<open>Requests\<close>





lemma step_to_inv: "srv_step s (fst p) \<Longrightarrow> server_inv s \<Longrightarrow> server_inv (fst p)"
  by (rule srv_step_inv)





definition demo_web :: web_env where
  "demo_web =
     \<lparr>w_env = demo_env, w_now = 0, w_ifaces = None, w_hmac = (\<lambda>k m. [7]),
      w_dec = \<lparr>d_rule = (\<lambda>b. None), d_enabled = (\<lambda>b. if b = ''off'' then Some False else None),
               d_client = (\<lambda>b. None), d_entries = (\<lambda>b. None), d_config = (\<lambda>b. None),
               d_password = (\<lambda>b. Some b), d_notify = (\<lambda>b. None)\<rparr>,
      w_sort = (\<lambda>vs. vs), w_fmt = (\<lambda>t. []), w_dur = (\<lambda>t. []), w_answer = None\<rparr>"

definition demo_panel :: panel where
  "demo_panel = (New_panel demo_server (New_ring 10) ''k'' [])\<lparr>p_NoAuth := True\<rparr>"

definition demo_toggle :: request where
  "demo_toggle =
     \<lparr>rq_method = ''POST'', rq_path = ''/api/rules/r1/toggle'', rq_remote = ''127.0.0.1:9'', rq_cookie = None,
      rq_n = [], rq_body = ''off''\<rparr>"


lemma demo_allowed: "IPAllowed (w_ifaces w) s (clientIP demo_toggle)"
proof -
  have "clientIP demo_toggle = ''127.0.0.1''" by (simp add: clientIP_def demo_toggle_def parse_defs)
  moreover have "ParseAddr ''127.0.0.1'' = Some (V4 0x7F000001)" by (simp add: parse_defs)
  ultimately show ?thesis by (simp add: IPAllowed_def Unmap_def IsLoopback_def)
qed







text \<open>C13: A login from an admitted address that is not locked out is decided by the password alone. The right
  one clears the failures of the address and sets a cookie that authorises every request from an admitted
  address for a day; a wrong one sets no cookie and is counted. The server is not touched either way.\<close>

theorem login_decides:
  assumes "handleLogin w rq p = (p', rs)" and "IPAllowed (w_ifaces w) (p_srv p) (clientIP rq)"
    and "\<not> blocked (w_now w) (clientIP rq) (sweepFails (w_now w) (p_fails p))"
    and "d_password (w_dec w) (rq_body rq) = Some pw"
    and "- (2 ^ 63) \<le> Unix (w_now w + sessionTTL)" "Unix (w_now w + sessionTTL) < 2 ^ 63"
  shows "p_srv p' = p_srv p
     \<and> (if pw = Password (s_cfg (p_srv p))
         then rs_status rs = 200 \<and> lookup (p_fails p') (clientIP rq) = None
            \<and> (\<exists>c. rs_cookie rs = Some c
                 \<and> (\<forall>v rq'. rq_cookie rq' = Some c \<and> w_hmac v = w_hmac w
                       \<and> IPAllowed (w_ifaces v) (p_srv p') (clientIP rq')
                       \<and> Unix (w_now v) \<le> Unix (w_now w + 24 * 60 * Minute) \<longrightarrow> authorised v p' rq'))
         else rs_status rs = 401 \<and> rs_cookie rs = None
            \<and> p_fails p' = recordLoginFail (w_now w) (clientIP rq) (sweepFails (w_now w) (p_fails p)))"
proof -
  have h: "handleLogin w rq p =
     (let p1 = p\<lparr>p_fails := sweepFails (w_now w) (p_fails p)\<rparr> in
      if pw \<noteq> Password (s_cfg (p_srv p))
      then (p1\<lparr>p_fails := recordLoginFail (w_now w) (clientIP rq) (p_fails p1)\<rparr>, writeErr (ApiErr 401))
      else (p1\<lparr>p_fails := del (clientIP rq) (p_fails p1)\<rparr>, setSession w p1 (writeJSON BodyOK)))"
    using assms(2-4) by (auto simp: handleLogin_def decode_body_def CheckPassword_def Let_def)
  show ?thesis
  proof (cases "pw = Password (s_cfg (p_srv p))")
    case True
    then have p': "p' = p\<lparr>p_fails := del (clientIP rq) (sweepFails (w_now w) (p_fails p))\<rparr>"
      and rs: "rs_status rs = 200" "rs_cookie rs = Some (session_value w (p_secret p))"
      using assms(1) unfolding h by (auto simp: setSession_def writeJSON_def Let_def)
    have "authorised v p' rq'"
      if "rq_cookie rq' = Some (session_value w (p_secret p)) \<and> w_hmac v = w_hmac w
        \<and> IPAllowed (w_ifaces v) (p_srv p') (clientIP rq') \<and> Unix (w_now v) \<le> Unix (w_now w + 24 * 60 * Minute)"
      for v rq'
      using that session_lives [of rq' w p' v] assms(5,6) by (simp add: authorised_def p' sessionTTL_def)
    with True p' rs show ?thesis by simp
  next
    case False
    with assms(1) show ?thesis unfolding h by (auto simp: writeErr_def error_status_def Let_def)
  qed
qed

definition demo_login :: "string \<Rightarrow> request" where
  "demo_login pw = demo_toggle\<lparr>rq_path := ''/api/login'', rq_body := pw\<rparr>"

theorem login_decides_witness:
  "\<exists>p' rs c. handleLogin demo_web (demo_login ''pw'') (demo_panel\<lparr>p_NoAuth := False\<rparr>) = (p', rs)
     \<and> rs_status rs = 200 \<and> rs_cookie rs = Some c
     \<and> authorised demo_web p' (demo_toggle\<lparr>rq_cookie := Some c\<rparr>)
     \<and> rs_status (snd (handleLogin demo_web (demo_login ''no'') (demo_panel\<lparr>p_NoAuth := False\<rparr>))) = 401"
proof -
  let ?p = "demo_panel\<lparr>p_NoAuth := False\<rparr>"
  have "clientIP (demo_login pw) = clientIP demo_toggle" for pw
    by (simp add: clientIP_def demo_login_def split: option.split)
  then have ip: "IPAllowed (w_ifaces demo_web) s (clientIP (demo_login pw))" for s pw
    using demo_allowed by simp
  have f: "p_fails ?p = []" "Password (s_cfg (p_srv ?p)) = ''pw''"
    by (simp_all add: demo_panel_def New_panel_def demo_server_def demo_cfg_def)
  have b: "\<not> blocked (w_now demo_web) (clientIP (demo_login pw)) (sweepFails (w_now demo_web) (p_fails ?p))" for pw
    unfolding f by (simp add: blocked_def sweepFails_def)
  have d: "d_password (w_dec demo_web) (rq_body (demo_login pw)) = Some pw" for pw
    by (simp add: demo_web_def demo_login_def)
  have u: "- (2 ^ 63) \<le> Unix (w_now demo_web + sessionTTL)" "Unix (w_now demo_web + sessionTTL) < 2 ^ 63"
    by (simp_all add: demo_web_def Unix_def sessionTTL_def Minute_def Second_def)
  obtain p' rs where h: "handleLogin demo_web (demo_login ''pw'') ?p = (p', rs)" by fastforce
  obtain q qs where g: "handleLogin demo_web (demo_login ''no'') ?p = (q, qs)" by fastforce
  from login_decides [OF h ip b d u] f(2) obtain c where c: "rs_status rs = 200" "rs_cookie rs = Some c"
    "\<forall>v rq'. rq_cookie rq' = Some c \<and> w_hmac v = w_hmac demo_web \<and> IPAllowed (w_ifaces v) (p_srv p') (clientIP rq')
       \<and> Unix (w_now v) \<le> Unix (w_now demo_web + 24 * 60 * Minute) \<longrightarrow> authorised v p' rq'" by auto
  have "clientIP (demo_toggle\<lparr>rq_cookie := Some c\<rparr>) = clientIP demo_toggle"
    by (simp add: clientIP_def split: option.split)
  then have "IPAllowed (w_ifaces demo_web) (p_srv p') (clientIP (demo_toggle\<lparr>rq_cookie := Some c\<rparr>))"
    using demo_allowed by simp
  moreover have "Unix (w_now demo_web) \<le> Unix (w_now demo_web + 24 * 60 * Minute)"
    by (simp add: demo_web_def Unix_def Minute_def Second_def)
  moreover have "rq_cookie (demo_toggle\<lparr>rq_cookie := Some c\<rparr>) = Some c" by simp
  ultimately have "authorised demo_web p' (demo_toggle\<lparr>rq_cookie := Some c\<rparr>)" using c(3) by blast
  moreover from login_decides [OF g ip b d u] f(2) have "rs_status qs = 401" by simp
  ultimately show ?thesis using h g c(1,2) by simp
qed

section \<open>Metrics\<close>

text \<open>A scraper reads a label value of plain characters as the sanitised text, so it sees the name
  itself only when the name has no backslash, quote or newline: these are escaped twice.\<close>

theorem labels_escaped_twice:
  assumes "list_all plain_char s"
  shows "scrape (go_quote (sanitizeLabel s) @ rest) = Some (sanitizeLabel s, rest)
     \<and> (sanitizeLabel s = s \<longleftrightarrow> backslash \<notin> set s \<and> quote_mark \<notin> set s \<and> newline \<notin> set s)"
  using scrape_quoted [OF sanitizeLabel_plain [OF assms]] sanitizeLabel_same by simp

theorem labels_escaped_twice_witness:
  "\<exists>v. scrape (go_quote (sanitizeLabel [CHR ''a'', backslash])) = Some (v, []) \<and> v \<noteq> [CHR ''a'', backslash]"
  using labels_escaped_twice [of "[CHR ''a'', backslash]" "[]"] by (simp add: plain_char_def)

text \<open>No name can add a line to the metrics: their number depends only on how many rules and clients
  there are.\<close>

theorem metrics_lines_fixed:
  "line_count (writeMetrics ov rules clients) = 15 + 3 * length rules + length clients"
  by (rule writeMetrics_lines)

section \<open>Start\<close>



text \<open>A configuration without password and clients makes the start crash: the password is generated
  and saved, and printing it reads the first client of an empty list.\<close>

theorem start_without_clients_crashes:
  assumes "fs path = Some b" and "dec b = Some cfg" and "Secret cfg \<noteq> []" and "\<not> NoAuth cfg"
    and "Password cfg = []" and "Clients cfg = []"
    and "save (io 1) path (enc (cfg\<lparr>Password := short_token (rnd 1)\<rparr>)) fs = (fs', None)"
  shows "runServer dec enc io rnd None x now lg path fs = (Inl IndexPanic, fs')"
  by (rule runServer_panics) (fact assms)+

theorem start_without_clients_crashes_witness:
  "\<exists>x fs'. runServer (\<lambda>b. Some (demo_cfg\<lparr>Password := [], Clients := []\<rparr>)) (\<lambda>c. []) (\<lambda>k. no_faults)
     (\<lambda>k. replicate 16 1) None x 0 (New_ring 10) ''p'' [''p'' \<mapsto> []] = (Inl IndexPanic, fs')"
proof -
  fix x :: x509
  let ?cfg = "demo_cfg\<lparr>Password := [], Clients := []\<rparr>"
  obtain fs' where "save no_faults ''p'' [] [''p'' \<mapsto> []] = (fs', None)"
    by (simp add: save_def no_faults_def Let_def)
  from start_without_clients_crashes [of "[''p'' \<mapsto> []]" "''p''" "[]" "\<lambda>b. Some ?cfg" ?cfg "\<lambda>k. no_faults" "\<lambda>c. []"
      "\<lambda>k. replicate 16 1", OF _ _ _ _ _ _ this, of x 0 "New_ring 10"]
  show ?thesis by (auto simp: demo_cfg_def)
qed

section \<open>The service\<close>

text \<open>The Windows service that \<open>install\<close> registers runs, when the service manager starts it, the role
  and configuration that were asked for.\<close>

theorem installed_service_runs:
  assumes "serviceMain (Inr False) as1 q c d (''install'' # args) m = (m1, Installed)"
  shows "\<exists>exe cmd. m_service m1 = Some (exe, cmd)
     \<and> snd (serviceMain (Inr True) (exe # cmd) q c d [] m1) = SvcRan (fst (parseServiceArgs args)) (snd (parseServiceArgs args))"
  by (rule install_then_start [OF assms])

theorem installed_service_runs_witness:
  "\<exists>m1 exe cmd. serviceMain (Inr False) [] None None None [''install'', ''-role'', ''client'']
       \<lparr>m_exe = Inr ''x.exe'', m_connects = True, m_create = None, m_start = None, m_service = None\<rparr> = (m1, Installed)
     \<and> m_service m1 = Some (exe, cmd)
     \<and> snd (serviceMain (Inr True) (exe # cmd) None None None [] m1) = SvcRan ''client'' ''conf/client.json''"
proof -
  let ?m = "\<lparr>m_exe = Inr ''x.exe'', m_connects = True, m_create = None, m_start = None, m_service = None\<rparr> :: scm"
  have a: "parseServiceArgs [''-role'', ''client''] = (''client'', ''conf/client.json'')"
    by (simp add: parseServiceArgs_def)
  then obtain m1 where m1: "serviceMain (Inr False) [] None None None [''install'', ''-role'', ''client''] ?m = (m1, Installed)"
    by (simp add: serviceMain_def installService_def)
  from installed_service_runs [OF m1] a m1 show ?thesis by auto
qed

text \<open>A line that standard output does not take, as in a Windows service, which has none, reaches
  neither the ring nor the log file: the writers are served in order up to the first failure.\<close>

theorem log_stops_at_stdout:
  "log_line False can_open n line (setupLogger lg logFile fs) = setupLogger lg logFile fs
     \<and> lo_ring (log_line True can_open n line (setupLogger lg logFile fs)) = ring_Write line lg"
  by (simp add: log_line_def setupLogger_def Let_def split: option.split)

end
