(* ===== verification/EndToEnd.thy ===== *)
theory EndToEnd
  imports Socks Forward
begin

text \<open>
  Server and client together: what one end writes on a stream is what the other end acts on. A
  tunnelled connection is compared with the direct forwarding of the same rule, a reverse connection
  and a SOCKS5 request are followed to the dial of the server, a UDP packet to the socket of the
  target and its answer back to the visitor. The codec of stream headers and the resolver of textual
  addresses are parameters; what is used of them is that this header, these addresses read back.
\<close>

section \<open>Tunnelled connections\<close>

lemma client_dialBalanced_eq: "client_dialBalanced dial target rr = dialBalanced dial target rr"
  by (simp add: client_dialBalanced_def dialBalanced_def)

text \<open>The rule as a direct rule, in the network of the client.\<close>

definition as_direct :: "rule \<Rightarrow> rule" where
  "as_direct r = r\<lparr>Client := []\<rparr>"

definition direct_net :: "(nat \<Rightarrow> string \<Rightarrow> string + nat) \<Rightarrow> net \<Rightarrow> net" where
  "direct_net dial net = net\<lparr>n_dial := dial, n_write := (\<lambda>c b. True)\<rparr>"

definition preface :: "bytes option \<Rightarrow> bytes" where
  "preface h = (case h of None \<Rightarrow> [] | Some b \<Rightarrow> b)"

text \<open>What direct forwarding does with a dialled connection, as the use of a stream.\<close>

definition as_use :: "rule \<Rightarrow> tcp_result \<Rightarrow> stream_use" where
  "as_use r res = (case res of Direct c h \<Rightarrow> Piped c (preface h) | _ \<Rightarrow> NoBackendFor (Target r))"

lemma tunnel_header_fields:
  "tcp_backend net r v rr s = (Tunnelled st hdr, rr') \<Longrightarrow> hdr = tunnel_header r v \<and> rr' = rr"
  by (auto simp: tcp_backend_def split: if_splits sum.splits prod.splits dialled.splits option.splits)

lemma header_for_tunnel:
  assumes "resolve (vc_remote v) = Some (vc_src v)" and "resolve (vc_local v) = Some (vc_dst v)"
    and "0 < ProxyProto r"
  shows "header_for resolve (tunnel_header r v) = preface (proxyHeaderFor (ProxyProto r) (vc_src v) (vc_dst v))"
  using assms by (simp add: header_for_def tunnel_header_def proxyHeaderFor_def preface_def Let_def split: sum.split)

lemma tunnelled_as_direct:
  assumes h: "tcp_backend net r v rr s = (Tunnelled st hdr, rr')" and "json_ok enc dec hdr"
    and fr: "WriteJSONFrame enc hdr = Inr frame" and id: "ID r \<noteq> ControlID"
    and res: "resolve (vc_remote v) = Some (vc_src v)" "resolve (vc_local v) = Some (vc_dst v)"
  shows "handleStream dec resolve dial (frame @ data) crr =
     (let (res, crr') = tcp_backend (direct_net dial net) (as_direct r) v crr s in (as_use r res, crr'))"
proof -
  have hdr: "hdr = tunnel_header r v" using tunnel_header_fields [OF h] by simp
  have f: "h_ID hdr = ID r" "h_Target hdr = Target r" "\<not> h_UDP hdr"
    "h_ProxyProto hdr > 0 \<longleftrightarrow> ProxyProto r > 0"
    by (auto simp: hdr tunnel_header_def Let_def)
  have rd: "ReadJSONFrame dec (frame @ data) = Inr (hdr, data)"
    using ReadJSON_WriteJSON [OF assms(2)] fr by auto
  obtain d crr' where d: "dialBalanced dial (Target r) crr = (d, crr')" by fastforce
  have pre: "0 < ProxyProto r \<Longrightarrow> header_for resolve hdr = preface (proxyHeaderFor (ProxyProto r) (vc_src v) (vc_dst v))"
    unfolding hdr by (rule header_for_tunnel [OF res])
  show ?thesis
  proof (cases d)
    case (Conn c)
    with d rd f id pre show ?thesis
      by (auto simp: handleStream_def client_dialBalanced_eq tcp_backend_def as_direct_def direct_net_def
          as_use_def preface_def Let_def split: option.splits)
  qed (use d rd f id in \<open>simp_all add: handleStream_def client_dialBalanced_eq tcp_backend_def as_direct_def
      direct_net_def as_use_def\<close>)
qed

section \<open>Reverse connections\<close>

lemma reverse_arrives:
  assumes h: "rev_handleTCP sess (to_reverse q) a remote local cnt = (cnt', RevRelay st hdr)"
    and "json_ok enc dec hdr" and fr: "WriteJSONFrame enc hdr = Inr frame" and id: "ID q \<noteq> ControlID"
    and s': "handleReverseStream dec resolve dial (frame @ data) s = (s', use)"
  shows "case dialBalanced dial (Target q) (s_rr s) of
       (Conn c, rr') \<Rightarrow> use = Piped c (if ProxyProto q > 0 \<and> remote \<noteq> [] then header_for resolve hdr else [])
          \<and> s_rr s' = rr'
          \<and> stat_of s' (ID q) = (stat_of s (ID q))\<lparr>ConnsTotal := ConnsTotal (stat_of s (ID q)) + 1,
                                                     Conns := Conns (stat_of s (ID q)) + 1\<rparr>
          \<and> (\<forall>k. k \<noteq> ID q \<longrightarrow> stat_of s' k = stat_of s k)
     | (_, rr') \<Rightarrow> use = NoBackendFor (Target q) \<and> s_rr s' = rr' \<and> (\<forall>k. stat_of s' k = stat_of s k)"
proof -
  have f: "h_ID hdr = ID q" "h_Target hdr = Target q" "\<not> h_UDP hdr"
    "h_ProxyProto hdr > 0 \<and> h_Visitor hdr \<noteq> [] \<longleftrightarrow> ProxyProto q > 0 \<and> remote \<noteq> []"
    using h by (auto simp: rev_handleTCP_def Let_def proxy_header_fields_def reverse_header_def to_reverse_def
        split: if_splits sum.splits)
  have rd: "ReadJSONFrame dec (frame @ data) = Inr (hdr, data)"
    using ReadJSON_WriteJSON [OF assms(2)] fr by auto
  have rr: "s_rr (statFor k s) = s_rr s" for k by (simp add: statFor_def split: option.split)
  have ru: "s_rr (upd_stat k g t) = s_rr t" for k g t by (simp add: upd_stat_def)
  have st: "stat_of (t\<lparr>s_rr := n\<rparr>) k = stat_of t k" for t n k by (simp add: stat_of_def)
  obtain d rr' where d: "dialBalanced dial (Target q) (s_rr s) = (d, rr')" by fastforce
  show ?thesis
    using s' f d id rd by (cases d) (auto simp: handleReverseStream_def rr ru st Let_def)
qed

section \<open>UDP\<close>

text \<open>The packet the client reads carries the visitor's payload, goes to the socket of its connection
  id unchanged, and an answer from that socket is delivered to the visitor.\<close>

lemma udp_there_and_back:
  assumes "tunnel_reach r n t" and "n < 2 ^ 32 - 1"
    and "tunnel_packet net s r now src payload t = (t', Some (sc, b))" and "length answer \<le> 65535"
  shows "\<exists>pkt rb a. ReadUDPPacket b = Inr (pkt, [])
     \<and> (\<forall>dial wr k k' c d. client_backend_packet dial wr (Target r) pkt k = (k', Some (c, d)) \<longrightarrow>
          d = payload \<and> lookup (bk_map k') (ConnID pkt) = Some c)
     \<and> backend_reply (ConnID pkt) answer = Inr rb \<and> (\<exists>p. ReadUDPPacket rb = Inr (p, [])
          \<and> tunnel_reply p t' = Some (a, answer)) \<and> udp_key a = udp_key src"
proof -
  from tunnel_answer [OF assms(1-3), of answer] obtain i a where
    rd: "ReadUDPPacket b = Inr (\<lparr>ConnID = i, Payload = payload\<rparr>, [])"
    and rp: "tunnel_reply \<lparr>ConnID = i, Payload = answer\<rparr> t' = Some (a, answer)" and k: "udp_key a = udp_key src"
    by blast
  have "udp_ok \<lparr>ConnID = i, Payload = answer\<rparr>" using assms(4) by (simp add: udp_ok_def)
  from ReadUDP_WriteUDP [OF this] obtain rb where
    rb: "backend_reply i answer = Inr rb" "ReadUDPPacket rb = Inr (\<lparr>ConnID = i, Payload = answer\<rparr>, [])"
    unfolding backend_reply_def by (metis append_Nil2)
  have "d = payload \<and> lookup (bk_map k') i = Some c"
    if "client_backend_packet dial wr (Target r) \<lparr>ConnID = i, Payload = payload\<rparr> k = (k', Some (c, d))" for dial wr k k' c d
    using that by (auto simp: client_backend_packet_def backend_for_def
        split: option.splits prod.splits if_splits dialled.splits)
  with rd rb rp k show ?thesis by (intro exI [of _ "\<lparr>ConnID = i, Payload = payload\<rparr>"] exI [of _ rb] exI [of _ a]) auto
qed

section \<open>SOCKS5\<close>

lemma ParseTargets_single: "t \<noteq> [] \<Longrightarrow> CHR '','' \<notin> set t \<Longrightarrow> TrimSpace t = t \<Longrightarrow> ParseTargets t = [t]"
  using ParseTargets_join [of "[t]"] by simp

lemma dialBalanced_single:
  assumes "ParseTargets t = [t]"
  shows "fst (dialBalanced dial t rr) = (case dial 0 t of Inr c \<Rightarrow> Conn c | Inl e \<Rightarrow> DialFailed e)"
  using assms by (simp add: dialBalanced_def rr_index_def Let_def split: sum.split)

text \<open>A host of printable ASCII characters other than commas and brackets passes through the server's
  target list unchanged.\<close>

definition printable :: "char \<Rightarrow> bool" where
  "printable c \<longleftrightarrow> 32 < (of_char c :: nat) \<and> (of_char c :: nat) < 127"

definition plain_host :: "string \<Rightarrow> bool" where
  "plain_host h \<longleftrightarrow> list_all (\<lambda>c. printable c \<and> c \<noteq> CHR '','' \<and> c \<noteq> CHR ''['' \<and> c \<noteq> CHR '']'') h"

lemma spaces_not_printable:
  "e \<in> set space_encodings \<Longrightarrow> \<not> printable (hd e) \<and> \<not> printable (hd (rev e))"
proof -
  have "list_all (\<lambda>e. \<not> printable (hd e) \<and> \<not> printable (hd (rev e))) space_encodings"
    by code_simp
  then show "e \<in> set space_encodings \<Longrightarrow> ?thesis" by (simp add: list_all_iff)
qed

lemma starts_with_hd: "starts_with s e \<Longrightarrow> hd e \<in> set s"
  by (cases e; cases s) (auto simp: starts_with_def)

lemma TrimSpace_printable: "list_all printable s \<Longrightarrow> TrimSpace s = s"
proof -
  assume s: "list_all printable s"
  have "strip_front space_encodings s = s"
    by (rule strip_front_id) (use s spaces_not_printable starts_with_hd in \<open>fastforce simp: list_all_iff\<close>)
  moreover have "strip_front (map rev space_encodings) (rev s) = rev s"
  proof (rule strip_front_id, rule notI)
    assume "\<exists>e \<in> set (map rev space_encodings). starts_with (rev s) e"
    then obtain e where "e \<in> set space_encodings" "starts_with (rev s) (rev e)" by auto
    with s spaces_not_printable [of e] starts_with_hd [of "rev s" "rev e"] show False by (simp add: list_all_iff)
  qed
  ultimately show ?thesis by (simp add: TrimSpace_def)
qed

lemma digits_printable: "list_all (\<lambda>c. printable c \<and> c \<noteq> CHR '','') (show_nat n)"
  using show_nat_digits [of n] by (auto simp: list_all_iff is_digit_def printable_def)

lemma socks_target_single:
  assumes "plain_host host"
  shows "ParseTargets (JoinHostPort host (show_nat port)) = [JoinHostPort host (show_nat port)]"
proof (rule ParseTargets_single)
  let ?t = "JoinHostPort host (show_nat port)"
  have p: "list_all (\<lambda>c. printable c \<and> c \<noteq> CHR '','') ?t"
    using assms digits_printable [of port]
    by (auto simp: JoinHostPort_def plain_host_def list_all_iff printable_def)
  show "?t \<noteq> []" by (simp add: JoinHostPort_def)
  show "CHR '','' \<notin> set ?t" using p by (auto simp: list_all_iff)
  show "TrimSpace ?t = ?t" by (rule TrimSpace_printable) (use p in \<open>simp add: list_all_iff\<close>)
qed

definition socks_header :: "string \<Rightarrow> stream_header" where
  "socks_header target =
     \<lparr>h_ID = ''socks5'', h_Target = target, h_UDP = False, h_Visitor = [], h_DstAddr = [], h_ProxyProto = 0\<rparr>"

text \<open>The server dials the host and port the visitor asked for, once, and nothing else.\<close>

lemma socks_header_arrives:
  assumes "json_ok enc dec (socks_header target)" and "WriteJSONFrame enc (socks_header target) = Inr frame"
    and "ParseTargets target = [target]"
  shows "snd (handleReverseStream dec resolve dial (frame @ data) s)
     = (case dial 0 target of Inr c \<Rightarrow> Piped c [] | Inl e \<Rightarrow> NoBackendFor target)"
proof -
  have rd: "ReadJSONFrame dec (frame @ data) = Inr (socks_header target, data)"
    using ReadJSON_WriteJSON [OF assms(1)] assms(2) by auto
  obtain d rr' where d: "dialBalanced dial target (s_rr (statFor ''socks5'' s)) = (d, rr')" by fastforce
  from dialBalanced_single [OF assms(3), of dial "s_rr (statFor ''socks5'' s)"] d
  have "d = (case dial 0 target of Inr c \<Rightarrow> Conn c | Inl e \<Rightarrow> DialFailed e)" by simp
  with rd d show ?thesis
    by (auto simp: handleReverseStream_def socks_header_def ControlID_def Let_def split: sum.splits)
qed

section \<open>Health probes\<close>

text \<open>The probe of a tunnelled rule succeeds when the client takes a stream; it never dials.\<close>

lemma tunnel_probe_blind:
  assumes "SideOf r = ''server''" and "Client r \<noteq> []"
  shows "fst (fst (probeRule os wr txt dial r s)) \<longleftrightarrow>
     (\<exists>cc st. lookup (s_clients s) (Client r) = Some cc \<and> os (cn_Session cc) = Inr st
        \<and> wr st \<lparr>h_ID = ID r, h_Target = Target r, h_UDP = False, h_Visitor = [], h_DstAddr = [],
                 h_ProxyProto = 0\<rparr> = None)"
  using assms by (auto simp: probeRule_def openStreamTo_def split: option.splits sum.splits)

end
