(* ===== verification/Session.thy ===== *)
theory Session
  imports Socks Goroutines
begin

text \<open>
  One session of the client from the multiplexer to its end (\<open>serveOnce\<close> of \<open>client/client.go\<close>) with
  the goroutines that live as long as it does: the one that closes the session when the context is
  cancelled, the SOCKS5 listener and the one that closes that listener (\<open>startSocks5\<close> of
  \<open>client/socks5.go\<close>). A step is what one goroutine does between two blocking calls.
\<close>

section \<open>State\<close>

text \<open>The goroutine of \<open>startSocks5\<close>: none configured, not listening yet, in the accept loop, returned.\<close>

datatype socks_loop = SocksOff | SocksPending string | SocksServing string | SocksReturned

text \<open>\<open>cs_gone\<close> is the closed channel \<open>gone\<close>, \<open>cs_watcher\<close> and \<open>cs_closer\<close> the two goroutines that wait
  for it; the counters are the connections handed to \<open>handleStream\<close> and to \<open>handleSocks\<close>.\<close>

record client_session =
  cs_ctx :: bool
  cs_conn :: bool
  cs_sess :: bool
  cs_gone :: bool
  cs_returned :: bool
  cs_watcher :: bool
  cs_socks :: socks_loop
  cs_listener :: bool
  cs_closer :: bool
  cs_streams :: nat
  cs_proxied :: nat

definition socks_start :: "client_config \<Rightarrow> socks_loop" where
  "socks_start cfg = (case socks_addr cfg of None \<Rightarrow> SocksOff | Some addr \<Rightarrow> SocksPending addr)"

text \<open>The session after a successful authentication, with its goroutines started.\<close>

definition serve_session :: "bool \<Rightarrow> client_config \<Rightarrow> client_session" where
  "serve_session ctx cfg =
     \<lparr>cs_ctx = ctx, cs_conn = True, cs_sess = True, cs_gone = False, cs_returned = False, cs_watcher = True,
      cs_socks = socks_start cfg, cs_listener = False, cs_closer = False, cs_streams = 0, cs_proxied = 0\<rparr>"

text \<open>\<open>serveOnce\<close> up to its accept loop: what it sends, and the error it returns or the session; \<open>mux\<close> is
  the error of \<open>smux.Client\<close>, if any.\<close>

definition serveOnce ::
  "(auth_request \<Rightarrow> bytes option) \<Rightarrow> (bytes \<Rightarrow> auth_reply option) \<Rightarrow> (dial_error + 'c) \<Rightarrow> string \<Rightarrow> string
     \<Rightarrow> bool \<Rightarrow> bytes \<Rightarrow> string option \<Rightarrow> bool \<Rightarrow> client_config \<Rightarrow> bytes \<times> (serve_error + client_session)" where
  "serveOnce enc dec conn host version sent reply mux ctx cfg =
     (case serve_auth enc dec conn host version sent reply cfg of
        (b, Inl e) \<Rightarrow> (b, Inl e)
      | (b, Inr c) \<Rightarrow> (case mux of Some e \<Rightarrow> (b, Inl (MuxFailed e)) | None \<Rightarrow> (b, Inr (serve_session ctx cfg))))"

text \<open>A session begins only after the server has accepted the token of the configuration.\<close>

lemma serveOnce_authenticated:
  assumes "serveOnce enc dec conn host version sent reply mux ctx cfg = (b, Inr c)"
  shows "c = serve_session ctx cfg
     \<and> WriteJSONFrame enc \<lparr>ar_Token = cc_Token cfg, ar_Host = host, ar_Version = version\<rparr> = Inr b
     \<and> (\<exists>rep rest. ReadJSONFrame dec reply = Inr (rep, rest) \<and> rep_OK rep)"
  using assms
  by (auto simp: serveOnce_def serve_auth_def split: prod.splits sum.splits option.splits if_splits)

text \<open>The deferred calls of \<open>serveOnce\<close>, in the order they run: \<open>close(gone)\<close>, \<open>sess.Close()\<close>,
  \<open>conn.Close()\<close>.\<close>

definition serve_return :: "client_session \<Rightarrow> client_session" where
  "serve_return c = c\<lparr>cs_gone := True, cs_sess := False, cs_conn := False, cs_returned := True\<rparr>"

section \<open>Steps\<close>

text \<open>\<open>startSocks5\<close>: the goroutine that listens and then accepts until the listener is closed, and the one
  that closes it when the session has gone.\<close>

inductive socks_step :: "client_session \<Rightarrow> client_session \<Rightarrow> bool" where
  listen: "cs_socks c = SocksPending a \<Longrightarrow>
     socks_step c (c\<lparr>cs_socks := SocksServing a, cs_listener := True, cs_closer := True\<rparr>)"
| refused: "cs_socks c = SocksPending a \<Longrightarrow> socks_step c (c\<lparr>cs_socks := SocksReturned\<rparr>)"
| close: "cs_closer c \<Longrightarrow> cs_gone c \<Longrightarrow> socks_step c (c\<lparr>cs_listener := False, cs_closer := False\<rparr>)"
| return: "cs_socks c = SocksServing a \<Longrightarrow> \<not> cs_listener c \<Longrightarrow> socks_step c (c\<lparr>cs_socks := SocksReturned\<rparr>)"

text \<open>What the client does of its own accord.\<close>

inductive own_step :: "client_session \<Rightarrow> client_session \<Rightarrow> bool" where
  accept_error: "\<not> cs_returned c \<Longrightarrow> \<not> cs_sess c \<Longrightarrow> own_step c (serve_return c)"
| watch_cancel: "cs_watcher c \<Longrightarrow> cs_ctx c \<Longrightarrow> own_step c (c\<lparr>cs_sess := False, cs_watcher := False\<rparr>)"
| watch_gone: "cs_watcher c \<Longrightarrow> cs_gone c \<Longrightarrow> own_step c (c\<lparr>cs_watcher := False\<rparr>)"
| socks: "socks_step c c' \<Longrightarrow> own_step c c'"

text \<open>What others make it do: the server opens a stream, the connection breaks, the context is cancelled,
  a visitor connects to the SOCKS5 port.\<close>

inductive peer_step :: "client_session \<Rightarrow> client_session \<Rightarrow> bool" where
  stream: "\<not> cs_returned c \<Longrightarrow> cs_sess c \<Longrightarrow> peer_step c (c\<lparr>cs_streams := cs_streams c + 1\<rparr>)"
| broken: "cs_sess c \<Longrightarrow> peer_step c (c\<lparr>cs_sess := False\<rparr>)"
| cancel: "peer_step c (c\<lparr>cs_ctx := True\<rparr>)"
| visitor: "cs_socks c = SocksServing a \<Longrightarrow> cs_listener c \<Longrightarrow>
     peer_step c (c\<lparr>cs_proxied := cs_proxied c + 1\<rparr>)"

inductive session_reach :: "client_config \<Rightarrow> client_session \<Rightarrow> bool" for cfg where
  start: "session_reach cfg (serve_session ctx cfg)"
| own: "session_reach cfg c \<Longrightarrow> own_step c c' \<Longrightarrow> session_reach cfg c'"
| peer: "session_reach cfg c \<Longrightarrow> peer_step c c' \<Longrightarrow> session_reach cfg c'"

section \<open>Invariant\<close>

text \<open>\<open>serveOnce\<close> has returned exactly when the channel is closed, and then neither the session nor the
  connection is open. A goroutine stands ready to close the SOCKS5 listener while it is open, the
  listener is the configured one, and nobody else ends it.\<close>

definition session_ok :: "client_config \<Rightarrow> client_session \<Rightarrow> bool" where
  "session_ok cfg c \<longleftrightarrow>
     (cs_returned c \<longleftrightarrow> cs_gone c) \<and> (cs_returned c \<longrightarrow> \<not> cs_sess c \<and> \<not> cs_conn c)
     \<and> (\<not> cs_returned c \<longrightarrow> cs_conn c)
     \<and> (cs_listener c \<longleftrightarrow> cs_closer c)
     \<and> (cs_listener c \<longrightarrow> (\<exists>a. cs_socks c = SocksServing a))
     \<and> (\<forall>a. cs_socks c = SocksServing a \<longrightarrow> cs_listener c \<or> cs_gone c)
     \<and> (\<forall>a. cs_socks c = SocksServing a \<or> cs_socks c = SocksPending a \<longrightarrow> socks_addr cfg = Some a)
     \<and> (\<not> cs_watcher c \<longrightarrow> \<not> cs_sess c)"

lemma session_ok_start: "session_ok cfg (serve_session ctx cfg)"
  by (auto simp: session_ok_def serve_session_def socks_start_def split: option.splits)

lemma session_ok_socks: "socks_step c c' \<Longrightarrow> session_ok cfg c \<Longrightarrow> session_ok cfg c'"
  by (induction rule: socks_step.induct) (auto simp: session_ok_def)

lemma session_ok_own: "own_step c c' \<Longrightarrow> session_ok cfg c \<Longrightarrow> session_ok cfg c'"
proof (induction rule: own_step.induct)
  case (socks c c')
  then show ?case by (blast intro: session_ok_socks)
qed (auto simp: session_ok_def serve_return_def)

lemma session_ok_peer: "peer_step c c' \<Longrightarrow> session_ok cfg c \<Longrightarrow> session_ok cfg c'"
  by (induction rule: peer_step.induct) (auto simp: session_ok_def)

lemma session_reach_ok: "session_reach cfg c \<Longrightarrow> session_ok cfg c"
  by (induction rule: session_reach.induct) (auto intro: session_ok_start session_ok_own session_ok_peer)

section \<open>The end of a session\<close>

definition socks_work :: "socks_loop \<Rightarrow> nat" where
  "socks_work l = (case l of SocksPending a \<Rightarrow> 3 | SocksServing a \<Rightarrow> 1 | _ \<Rightarrow> 0)"

definition session_work :: "client_session \<Rightarrow> nat" where
  "session_work c = of_bool (\<not> cs_returned c) + of_bool (cs_watcher c) + of_bool (cs_closer c)
     + socks_work (cs_socks c)"

lemma socks_step_work: "socks_step c c' \<Longrightarrow> session_work c' < session_work c"
  by (induction rule: socks_step.induct) (auto simp: session_work_def socks_work_def)

lemma own_step_work: "own_step c c' \<Longrightarrow> session_work c' < session_work c"
proof (induction rule: own_step.induct)
  case (socks c c')
  then show ?case by (rule socks_step_work)
qed (simp_all add: session_work_def serve_return_def)

lemma session_work_bound: "session_ok cfg c \<Longrightarrow> session_work c \<le> 5"
  by (auto simp: session_work_def socks_work_def session_ok_def split: socks_loop.splits)

definition ending :: "client_session \<Rightarrow> bool" where
  "ending c \<longleftrightarrow> cs_ctx c \<or> \<not> cs_sess c"

text \<open>Nothing is left of what the session holds: no connection, no listener, none of the goroutines above.
  Those of single streams end with their streams.\<close>

definition wound_down :: "client_session \<Rightarrow> bool" where
  "wound_down c \<longleftrightarrow> cs_returned c \<and> \<not> cs_sess c \<and> \<not> cs_conn c \<and> \<not> cs_listener c \<and> \<not> cs_watcher c
     \<and> \<not> cs_closer c \<and> cs_socks c \<in> {SocksOff, SocksReturned}"

lemma socks_step_ending: "socks_step c c' \<Longrightarrow> ending c' = ending c"
  by (induction rule: socks_step.induct) (simp_all add: ending_def)

lemma own_step_ending: "own_step c c' \<Longrightarrow> ending c \<Longrightarrow> ending c'"
proof (induction rule: own_step.induct)
  case (socks c c')
  then show ?case by (simp add: socks_step_ending)
qed (simp_all add: ending_def serve_return_def)

lemma stuck_wound_down:
  assumes "session_ok cfg c" and "ending c" and stuck: "\<nexists>c'. own_step c c'"
  shows "wound_down c"
proof -
  have sess: "\<not> cs_sess c"
  proof (cases "cs_watcher c")
    case True
    then show ?thesis using assms(2) stuck watch_cancel by (auto simp: ending_def)
  qed (use assms(1) in \<open>simp add: session_ok_def\<close>)
  then have ret: "cs_returned c" using stuck accept_error by blast
  with assms(1) have gone: "cs_gone c" and conn: "\<not> cs_conn c" by (simp_all add: session_ok_def)
  have w: "\<not> cs_watcher c" "\<not> cs_closer c" using stuck gone watch_gone own_step.socks [OF socks_step.close] by blast+
  with assms(1) have l: "\<not> cs_listener c" by (simp add: session_ok_def)
  with stuck have "cs_socks c \<noteq> SocksPending a" "cs_socks c \<noteq> SocksServing a" for a
    using own_step.socks [OF socks_step.refused] own_step.socks [OF socks_step.return] by blast+
  then have "cs_socks c \<in> {SocksOff, SocksReturned}" by (cases "cs_socks c") auto
  with sess ret conn w l show ?thesis by (simp add: wound_down_def)
qed

interpretation session_end: winding own_step session_work "\<lambda>c. session_ok cfg c \<and> ending c" wound_down for cfg
  by unfold_locales (auto intro: own_step_work session_ok_own own_step_ending stuck_wound_down)

text \<open>Once the context is cancelled or the session is broken, the client is done with it after at most
  five steps of its own, whatever their order, and leaves nothing behind.\<close>

lemmas session_winds_down = session_end.winds_down [OF conjI [OF session_reach_ok] session_work_bound [OF session_reach_ok]]

text \<open>A SOCKS5 visitor is served only on the configured address, and not after the session has ended
  and its listener has been closed.\<close>

lemma visitor_needs_listener:
  assumes "session_reach cfg c" and "peer_step c c'" and "cs_proxied c' \<noteq> cs_proxied c"
  shows "\<exists>a. socks_addr cfg = Some a \<and> cs_socks c = SocksServing a \<and> cs_listener c \<and> cs_closer c"
  using assms(2,3) session_reach_ok [OF assms(1)]
  by (cases rule: peer_step.cases) (auto simp: session_ok_def)

end
