(* ===== verification/UdpServe.thy ===== *)
theory UdpServe
  imports Backends Frames
begin

text \<open>
  The loop over one UDP stream at its far end (\<open>handleUDPStream\<close> of \<open>client/client.go\<close>, mirrored by
  \<open>udpBackendFromStream\<close> of \<open>server/reverse.go\<close>): the reader of the stream and one goroutine per
  socket, which all write to the stream under one lock. Shown are that the two ends treat a packet
  alike, that what the goroutines write reads back packet by packet, that an answer carries the id
  whose packets its socket was given, and which sockets can be left open.
\<close>

section \<open>The two ends agree\<close>

lemma backends_more [simp]:
  "backends.truncate (t\<lparr>bk_in := n\<rparr>) = backends.truncate (t :: counted_backends)"
  "backends.truncate (t\<lparr>bk_out := n\<rparr>) = backends.truncate (t :: counted_backends)"
  "backends.truncate (t\<lparr>bk_conns := n\<rparr>) = backends.truncate (t :: counted_backends)"
  by (simp_all add: backends.defs)

lemma far_packet_agrees:
  fixes t :: counted_backends
  assumes "server_backend_packet dial wr target pkt t = (t', sent)"
  shows "client_backend_packet dial wr target pkt (backends.truncate t) = (backends.truncate t', sent)"
  using assms
  by (auto simp: server_backend_packet_def client_backend_packet_def backend_for_def Let_def backends.defs
      split: option.splits prod.splits dialled.splits if_splits)

lemma far_end_agrees:
  "backend_end i b (backends.truncate t) = backends.truncate (server_backend_end i b t)"
  by (simp add: backend_end_def server_backend_end_def backends.defs)

section \<open>State and steps\<close>

text \<open>\<open>us_in\<close> is what the peer still sends before the stream ends, \<open>us_wire\<close> what was written to it.
  Ghosts: the sockets dialled so far with the id each was dialled for, the writes to sockets, and the
  answers that were read from sockets.\<close>

record udp_serve =
  us_bk :: backends
  us_in :: bytes
  us_wire :: bytes
  us_closed :: "nat set"
  us_done :: bool
  us_dialled :: "(nat \<times> 32 word) list"
  us_sent :: "(nat \<times> udp_packet) list"
  us_answers :: "(nat \<times> udp_packet) list"

definition udp_serve_start :: "64 word \<Rightarrow> bytes \<Rightarrow> udp_serve" where
  "udp_serve_start rr input =
     \<lparr>us_bk = \<lparr>bk_map = [], bk_live = [], bk_rr = rr\<rparr>, us_in = input, us_wire = [], us_closed = {},
      us_done = False, us_dialled = [], us_sent = [], us_answers = []\<rparr>"

text \<open>One turn of the reader: the socket of the id, then the write; a failed write closes the socket
  and forgets it.\<close>

definition serve_packet ::
  "(nat \<Rightarrow> string \<Rightarrow> string + nat) \<Rightarrow> (nat \<Rightarrow> bool) \<Rightarrow> string \<Rightarrow> udp_packet \<Rightarrow> udp_serve \<Rightarrow> udp_serve" where
  "serve_packet dial wr target pkt u =
     (let i = ConnID pkt; (k1, b) = backend_for dial target i (us_bk u) in
      case b of
        None \<Rightarrow> u\<lparr>us_bk := k1\<rparr>
      | Some s \<Rightarrow>
          (let u1 = u\<lparr>us_bk := k1,
                      us_dialled := (if lookup (bk_map (us_bk u)) i = None then (s, i) # us_dialled u
                                     else us_dialled u)\<rparr> in
           if wr s then u1\<lparr>us_sent := us_sent u1 @ [(s, pkt)]\<rparr>
           else u1\<lparr>us_bk := k1\<lparr>bk_map := del i (bk_map k1)\<rparr>, us_closed := insert s (us_closed u1)\<rparr>))"

text \<open>The deferred \<open>closeAll\<close> closes what the map still holds.\<close>

definition serve_end :: "udp_serve \<Rightarrow> udp_serve" where
  "serve_end u = u\<lparr>us_done := True, us_closed := us_closed u \<union> snd ` set (bk_map (us_bk u))\<rparr>"

text \<open>The operating system hands out sockets that are not in use; a datagram fits the buffer of
  65535 bytes; a goroutine ends when its socket was closed or has been idle for 90 seconds.\<close>

inductive udp_serve_step :: "string \<Rightarrow> udp_serve \<Rightarrow> udp_serve \<Rightarrow> bool" for target where
  packet: "\<not> us_done u \<Longrightarrow> ReadUDPPacket (us_in u) = Inr (pkt, rest) \<Longrightarrow>
     (\<And>n t b. dial n t = Inr b \<Longrightarrow> b \<notin> fst ` set (us_dialled u)) \<Longrightarrow>
     udp_serve_step target u (serve_packet dial wr target pkt (u\<lparr>us_in := rest\<rparr>))"
| stream_end: "\<not> us_done u \<Longrightarrow> ReadUDPPacket (us_in u) = Inl e \<Longrightarrow> udp_serve_step target u (serve_end u)"
| answer: "(i, b) \<in> set (bk_live (us_bk u)) \<Longrightarrow> b \<notin> us_closed u \<Longrightarrow> length payload \<le> 65535 \<Longrightarrow>
     backend_reply i payload = Inr bs \<Longrightarrow>
     udp_serve_step target u (u\<lparr>us_wire := us_wire u @ bs,
        us_answers := us_answers u @ [(b, \<lparr>ConnID = i, Payload = payload\<rparr>)]\<rparr>)"
| ended: "(i, b) \<in> set (bk_live (us_bk u)) \<Longrightarrow>
     udp_serve_step target u (u\<lparr>us_bk := backend_end i b (us_bk u), us_closed := insert b (us_closed u)\<rparr>)"

section \<open>Invariant\<close>

text \<open>Every socket has one id, its goroutine reports under that id, what it was given carries that id,
  and while its goroutine runs it is either open or about to end; an entry of the map is open while the
  stream is.\<close>

definition serve_ok :: "udp_serve \<Rightarrow> bool" where
  "serve_ok u \<longleftrightarrow>
     distinct (map fst (us_dialled u))
     \<and> (\<forall>(i, b) \<in> set (bk_map (us_bk u)). (i, b) \<in> set (bk_live (us_bk u)))
     \<and> (\<forall>(i, b) \<in> set (bk_live (us_bk u)). (b, i) \<in> set (us_dialled u))
     \<and> (\<forall>(b, p) \<in> set (us_sent u). (b, ConnID p) \<in> set (us_dialled u))
     \<and> (\<forall>(b, p) \<in> set (us_answers u). (b, ConnID p) \<in> set (us_dialled u) \<and> udp_ok p)
     \<and> (\<forall>(b, i) \<in> set (us_dialled u). b \<in> us_closed u \<or> (i, b) \<in> set (bk_live (us_bk u)))
     \<and> send_all WriteUDPPacket (map snd (us_answers u)) = Inr (us_wire u)"

lemma serve_ok_start: "serve_ok (udp_serve_start rr input)"
  by (simp add: serve_ok_def udp_serve_start_def)

lemma dial_loop_Conn: "dial_loop dial ts rr i k le = Conn c \<Longrightarrow> \<exists>n a. dial n a = Inr c"
  by (induction k arbitrary: i le) (auto split: option.splits sum.splits)

lemma backend_for_cases:
  assumes "backend_for dial target i t = (t', b)"
  obtains (known) s where "lookup (bk_map t) i = Some s" "t' = t" "b = Some s"
  | (dialled) s rr n a where "lookup (bk_map t) i = None" "b = Some s" "dial n a = Inr s"
      "t' = t\<lparr>bk_rr := rr, bk_map := put i s (bk_map t), bk_live := (i, s) # bk_live t\<rparr>"
  | (failed) rr where "lookup (bk_map t) i = None" "b = None" "t' = t\<lparr>bk_rr := rr\<rparr>"
proof (cases "lookup (bk_map t) i")
  case (Some s)
  with assms have "t' = t" "b = Some s" by (simp_all add: backend_for_def)
  with Some show thesis by (rule known)
next
  case None
  obtain d rr where d: "DialUDPBalanced (\<lambda>_ a. Inr a) dial target (bk_rr t) = (d, rr)" by fastforce
  show thesis
  proof (cases "\<exists>s. d = Conn s")
    case True
    then obtain s where s: "d = Conn s" by blast
    have "dialBalanced (\<lambda>i a. dial i a) target (bk_rr t) = (Conn s, rr)" using d s by (simp add: DialUDPBalanced_eq)
    then have "\<exists>n a. dial n a = Inr s"
      by (auto simp: dialBalanced_def Let_def dest: dial_loop_Conn split: if_splits)
    then obtain n a where na: "dial n a = Inr s" by blast
    from assms None d s have "b = Some s"
      "t' = t\<lparr>bk_rr := rr, bk_map := put i s (bk_map t), bk_live := (i, s) # bk_live t\<rparr>"
      by (simp_all add: backend_for_def)
    with None na show thesis by (intro dialled)
  next
    case False
    with assms None d have "b = None" "t' = t\<lparr>bk_rr := rr\<rparr>"
      by (cases d; simp add: backend_for_def)+
    with None show thesis by (rule failed)
  qed
qed

text \<open>The facts of the invariant one by one.\<close>

lemma serve_okD:
  assumes "serve_ok u"
  shows "distinct (map fst (us_dialled u))"
    and "(i, b) \<in> set (bk_map (us_bk u)) \<Longrightarrow> (i, b) \<in> set (bk_live (us_bk u))"
    and "(i, b) \<in> set (bk_live (us_bk u)) \<Longrightarrow> (b, i) \<in> set (us_dialled u)"
    and "(b, p) \<in> set (us_sent u) \<Longrightarrow> (b, ConnID p) \<in> set (us_dialled u)"
    and "(b, p) \<in> set (us_answers u) \<Longrightarrow> (b, ConnID p) \<in> set (us_dialled u) \<and> udp_ok p"
    and "(b, i) \<in> set (us_dialled u) \<Longrightarrow> b \<in> us_closed u \<or> (i, b) \<in> set (bk_live (us_bk u))"
    and "send_all WriteUDPPacket (map snd (us_answers u)) = Inr (us_wire u)"
  using assms by (auto simp: serve_ok_def)

lemma serve_ok_dialled:
  assumes ok: "serve_ok u" and "s \<notin> fst ` set (us_dialled u)"
  shows "serve_ok (u\<lparr>us_bk := us_bk u\<lparr>bk_rr := rr, bk_map := put i s (bk_map (us_bk u)),
           bk_live := (i, s) # bk_live (us_bk u)\<rparr>, us_dialled := (s, i) # us_dialled u\<rparr>)"
proof -
  have "distinct (map fst ((s, i) # us_dialled u))" using serve_okD(1) [OF ok] assms(2) by simp
  moreover have m: "x \<in> set ((i, s) # bk_live (us_bk u))" if "x \<in> set (put i s (bk_map (us_bk u)))" for x
    using subsetD [OF set_put_subset that] serve_okD(2) [OF ok, of "fst x" "snd x"] by auto
  ultimately show ?thesis
    using serve_okD(7) [OF ok] by (auto simp: serve_ok_def dest!: m dest: serve_okD(3-6) [OF ok])
qed

lemma serve_ok_sent:
  "serve_ok u \<Longrightarrow> (s, ConnID pkt) \<in> set (us_dialled u) \<Longrightarrow> serve_ok (u\<lparr>us_sent := us_sent u @ [(s, pkt)]\<rparr>)"
  by (auto simp: serve_ok_def)

lemma serve_ok_dropped:
  "serve_ok u \<Longrightarrow> serve_ok (u\<lparr>us_bk := (us_bk u)\<lparr>bk_map := del i (bk_map (us_bk u))\<rparr>,
     us_closed := insert s (us_closed u)\<rparr>)"
  using set_del_subset [of i "bk_map (us_bk u)"] unfolding serve_ok_def by simp blast

lemma serve_ok_packet:
  assumes "serve_ok u" and fresh: "\<And>n t b. dial n t = Inr b \<Longrightarrow> b \<notin> fst ` set (us_dialled u)"
  shows "serve_ok (serve_packet dial wr target pkt u)"
proof -
  let ?i = "ConnID pkt"
  obtain k1 b where bf: "backend_for dial target ?i (us_bk u) = (k1, b)" by fastforce
  from bf show ?thesis
  proof (cases rule: backend_for_cases)
    case (known s)
    then have "(?i, s) \<in> set (bk_map (us_bk u))" by (simp add: lookup_Some_in)
    with serve_okD(2,3) [OF assms(1)] have "(s, ?i) \<in> set (us_dialled u)" by blast
    with known bf serve_ok_sent [OF assms(1)] serve_ok_dropped [OF assms(1), where i = ?i and s = s] show ?thesis
      by (simp add: serve_packet_def Let_def)
  next
    case (dialled s rr n a)
    let ?u = "u\<lparr>us_bk := k1, us_dialled := (s, ?i) # us_dialled u\<rparr>"
    have ok: "serve_ok ?u" unfolding dialled(4)
      by (rule serve_ok_dialled [OF assms(1) fresh [OF dialled(3)]])
    from serve_ok_sent [OF ok, of s pkt] serve_ok_dropped [OF ok, where i = ?i and s = s] dialled(1,2) bf show ?thesis
      by (simp add: serve_packet_def Let_def)
  next
    case (failed rr)
    with bf assms(1) show ?thesis by (simp add: serve_packet_def serve_ok_def)
  qed
qed

lemma send_all_snoc:
  "send_all wr vs = Inr bs \<Longrightarrow> wr v = Inr b \<Longrightarrow> send_all wr (vs @ [v]) = Inr (bs @ b)"
  by (induction vs arbitrary: bs) (auto split: sum.splits)

lemma serve_ok_answer:
  assumes "serve_ok u" and "(i, b) \<in> set (bk_live (us_bk u))" and "length payload \<le> 65535"
    and "backend_reply i payload = Inr bs"
  shows "serve_ok (u\<lparr>us_wire := us_wire u @ bs, us_answers := us_answers u @ [(b, \<lparr>ConnID = i, Payload = payload\<rparr>)]\<rparr>)"
  using assms serve_okD(3) [OF assms(1,2)]
  by (auto simp: serve_ok_def udp_ok_def backend_reply_def send_all_snoc)

lemma serve_ok_ended:
  assumes "serve_ok u" and "(i, b) \<in> set (bk_live (us_bk u))"
  shows "serve_ok (u\<lparr>us_bk := backend_end i b (us_bk u), us_closed := insert b (us_closed u)\<rparr>)"
proof -
  let ?m = "bk_map (us_bk u)" and ?l = "bk_live (us_bk u)"
  have m: "x \<in> set (remove1 (i, b) ?l)" if "x \<in> set (del i ?m)" for x
  proof -
    have "x \<in> set ?l" using subsetD [OF set_del_subset that] serve_okD(2) [OF assms(1), of "fst x" "snd x"] by simp
    moreover have "x \<noteq> (i, b)" using that del_not_key by metis
    ultimately show ?thesis by (simp add: in_set_remove1)
  qed
  have l: "x \<in> set ?l" if "x \<in> set (remove1 (i, b) ?l)" for x
    using that set_remove1_subset [of "(i, b)" ?l] by blast
  have d: "c = b \<or> c \<in> us_closed u \<or> (j, c) \<in> set (remove1 (i, b) ?l)" if "(c, j) \<in> set (us_dialled u)" for j c
    using serve_okD(6) [OF assms(1) that] by (auto simp: in_set_remove1)
  show ?thesis
    using serve_okD(1,7) [OF assms(1)]
    by (auto simp: serve_ok_def backend_end_def dest: m l d serve_okD(3-5) [OF assms(1)])
qed

lemma serve_ok_step: "udp_serve_step target u u' \<Longrightarrow> serve_ok u \<Longrightarrow> serve_ok u'"
proof (induction rule: udp_serve_step.induct)
  case (packet u pkt rest dial wr)
  then show ?case by (intro serve_ok_packet) (auto simp: serve_ok_def)
next
  case (stream_end u e)
  then show ?case by (auto simp: serve_ok_def serve_end_def)
qed (simp_all add: serve_ok_answer serve_ok_ended)

lemma serve_ok_reach: "(udp_serve_step target)\<^sup>*\<^sup>* (udp_serve_start rr input) u \<Longrightarrow> serve_ok u"
  by (induction rule: rtranclp_induct) (auto intro: serve_ok_start serve_ok_step)

section \<open>What it gives\<close>

text \<open>However the goroutines interleave, the peer reads the answers one by one, each under the id whose
  packets, and no others, its socket was given.\<close>

lemma answers_read_back:
  assumes "(udp_serve_step target)\<^sup>*\<^sup>* (udp_serve_start rr input) u"
  shows "recv_all ReadUDPPacket (Suc (length (us_answers u))) (us_wire u) = (map snd (us_answers u), Some EOF)"
    and "(b, p) \<in> set (us_answers u) \<Longrightarrow> (b, q) \<in> set (us_sent u) \<Longrightarrow> ConnID q = ConnID p"
proof -
  have ok: "serve_ok u" using assms by (rule serve_ok_reach)
  have "\<forall>p \<in> set (map snd (us_answers u)). udp_ok p" using serve_okD(5) [OF ok] by auto
  from udp_codec.recv_send_all [OF this serve_okD(7) [OF ok], of "Suc (length (us_answers u))"]
  show "recv_all ReadUDPPacket (Suc (length (us_answers u))) (us_wire u) = (map snd (us_answers u), Some EOF)"
    by (simp del: recv_all.simps)
  show "ConnID q = ConnID p" if "(b, p) \<in> set (us_answers u)" "(b, q) \<in> set (us_sent u)"
    using serve_okD(4) [OF ok that(2)] serve_okD(5) [OF ok that(1)] serve_okD(1) [OF ok] eq_key_imp_eq_value by metis
qed

text \<open>After the stream has ended every socket is closed or still has a goroutine, which an idle
  timeout ends.\<close>

lemma sockets_accounted:
  assumes "(udp_serve_step target)\<^sup>*\<^sup>* (udp_serve_start rr input) u"
  shows "(b, i) \<in> set (us_dialled u) \<Longrightarrow> b \<in> us_closed u \<or> (i, b) \<in> set (bk_live (us_bk u))"
  using serve_okD(6) [OF serve_ok_reach [OF assms]] .

section \<open>The reader that comes late\<close>

text \<open>Three packets of one id: the write of the second fails, so the third gets a new socket. The reader
  of the first socket, ending only now, deletes the entry of the new one; when the stream ends nothing
  closes that socket, it is left to its idle timeout.\<close>

definition late_packet :: udp_packet where
  "late_packet = \<lparr>ConnID = 1, Payload = [9]\<rparr>"

definition late_bytes :: bytes where
  "late_bytes = put_u32 1 @ put_u16 1 @ [9]"

lemma late_read: "ReadUDPPacket (late_bytes @ rest) = Inr (late_packet, rest)"
proof -
  have "WriteUDPPacket late_packet = Inr late_bytes"
    by (simp add: WriteUDPPacket_def late_packet_def late_bytes_def)
  with ReadUDP_WriteUDP [of late_packet] show ?thesis by (auto simp: udp_ok_def late_packet_def)
qed

definition late_turn :: "nat \<Rightarrow> bool \<Rightarrow> bytes \<Rightarrow> udp_serve \<Rightarrow> udp_serve" where
  "late_turn s ok rest u = serve_packet (\<lambda>_ _. Inr s) (\<lambda>_. ok) ''h:1'' late_packet (u\<lparr>us_in := rest\<rparr>)"

definition late_states :: "udp_serve list" where
  "late_states =
     (let u0 = udp_serve_start 0 (late_bytes @ late_bytes @ late_bytes @ []);
          u1 = late_turn 10 True (late_bytes @ late_bytes @ []) u0;
          u2 = late_turn 11 False (late_bytes @ []) u1;
          u3 = late_turn 11 True [] u2;
          u4 = u3\<lparr>us_bk := backend_end 1 10 (us_bk u3), us_closed := insert 10 (us_closed u3)\<rparr>
      in [u0, u1, u2, u3, u4, serve_end u4])"

lemma late_turn_step:
  assumes "us_in u = late_bytes @ rest" and "\<not> us_done u" and "s \<notin> fst ` set (us_dialled u)"
  shows "udp_serve_step ''h:1'' u (late_turn s ok rest u)"
  unfolding late_turn_def
  by (rule udp_serve_step.packet) (use assms late_read in auto)

lemma late_inputs: "map us_in late_states
    = [late_bytes @ late_bytes @ late_bytes @ [], late_bytes @ late_bytes @ [], late_bytes @ [], [], [], []]"
  by code_simp

lemma late_flags: "map us_done late_states = [False, False, False, False, False, True]"
  by code_simp

lemma late_sockets: "map (\<lambda>u. map fst (us_dialled u)) late_states = [[], [10], [10], [11, 10], [11, 10], [11, 10]]"
  by code_simp

lemma late_goroutines: "map (\<lambda>u. bk_live (us_bk u)) late_states
    = [[], [(1, 10)], [(1, 10)], [(1, 11), (1, 10)], [(1, 11)], [(1, 11)]]"
  by code_simp

lemma late_last: "bk_map (us_bk (last late_states)) = [] \<and> 11 \<notin> us_closed (last late_states)"
  by code_simp

lemma late_reader_drops_new_socket:
  "\<exists>u. (udp_serve_step ''h:1'')\<^sup>*\<^sup>* (udp_serve_start 0 (late_bytes @ late_bytes @ late_bytes @ [])) u
     \<and> us_done u \<and> bk_map (us_bk u) = [] \<and> (1, 11) \<in> set (bk_live (us_bk u)) \<and> 11 \<notin> us_closed u"
proof -
  define u0 where "u0 = udp_serve_start 0 (late_bytes @ late_bytes @ late_bytes @ [])"
  define u1 where "u1 = late_turn 10 True (late_bytes @ late_bytes @ []) u0"
  define u2 where "u2 = late_turn 11 False (late_bytes @ []) u1"
  define u3 where "u3 = late_turn 11 True [] u2"
  define u4 where "u4 = u3\<lparr>us_bk := backend_end 1 10 (us_bk u3), us_closed := insert 10 (us_closed u3)\<rparr>"
  have us: "late_states = [u0, u1, u2, u3, u4, serve_end u4]"
    unfolding late_states_def Let_def u0_def u1_def u2_def u3_def u4_def by (rule refl)
  note c = late_inputs [unfolded us list.map] late_flags [unfolded us list.map] late_sockets [unfolded us list.map]
    late_goroutines [unfolded us list.map] late_last [unfolded us]
  have i: "us_in u0 = late_bytes @ late_bytes @ late_bytes @ []" "us_in u1 = late_bytes @ late_bytes @ []"
    "us_in u2 = late_bytes @ []" "us_in u4 = []" using c(1) unfolding list.inject by blast+
  have d: "\<not> us_done u0" "\<not> us_done u1" "\<not> us_done u2" "\<not> us_done u4" "us_done (serve_end u4)"
    using c(2) unfolding list.inject by blast+
  have s: "map fst (us_dialled u0) = []" "map fst (us_dialled u1) = [10]" "map fst (us_dialled u2) = [10]"
    using c(3) unfolding list.inject by blast+
  have g: "bk_live (us_bk u3) = [(1, 11), (1, 10)]" "bk_live (us_bk (serve_end u4)) = [(1, 11)]"
    using c(4) unfolding list.inject by blast+
  have "udp_serve_step ''h:1'' u0 u1" unfolding u1_def
    by (rule late_turn_step [OF i(1) d(1)]) (simp only: set_map [symmetric] s list.set empty_iff not_False_eq_True)
  moreover have "udp_serve_step ''h:1'' u1 u2" unfolding u2_def
    by (rule late_turn_step [OF i(2) d(2)]) (simp add: set_map [symmetric] s del: set_map)
  moreover have "udp_serve_step ''h:1'' u2 u3" unfolding u3_def
    by (rule late_turn_step [OF i(3) d(3)]) (simp add: set_map [symmetric] s del: set_map)
  moreover have "udp_serve_step ''h:1'' u3 u4" unfolding u4_def by (rule udp_serve_step.ended) (simp only: g, simp)
  moreover have "udp_serve_step ''h:1'' u4 (serve_end u4)"
    by (rule udp_serve_step.stream_end [OF d(4), where e = EOF]) (simp only: i ReadUDPPacket_def ReadFull_def, simp)
  ultimately have "(udp_serve_step ''h:1'')\<^sup>*\<^sup>* u0 (serve_end u4)"
    by (blast intro: converse_rtranclp_into_rtranclp)
  moreover have "bk_map (us_bk (serve_end u4)) = []" "11 \<notin> us_closed (serve_end u4)"
    using c(5) by simp_all
  ultimately show ?thesis using d(5) g(2) unfolding u0_def by auto
qed

end
