(* ===== verification/ServerRun.thy ===== *)
theory ServerRun
  imports Cmd Goroutines
begin

text \<open>
  The server while it runs (\<open>Run\<close> of \<open>server/server.go\<close>): the main goroutine that waits for the end of
  the context, the sampler of the traffic history, the prober of \<open>server/health.go\<close>, and the loop that
  accepts tunnel connections, interleaved with the operations of the panel. A step is one turn of one
  goroutine.
\<close>

section \<open>What panel operations leave alone\<close>

definition run_part :: "server \<Rightarrow> bool \<times> hist_point list gomap" where
  "run_part s = (s_stopping s, s_hist s)"

lemma run_part_frames [simp]:
  "run_part (with_cfg f s) = run_part s"
  "run_part (apply_rules env s) = run_part s"
  "run_part (close_session n s) = run_part s"
  "run_part (set_notifier url format s) = run_part s"
  "run_part (s\<lparr>s_runners := rs\<rparr>) = run_part s"
  "run_part (s\<lparr>s_blVer := v\<rparr>) = run_part s"
  "run_part (s\<lparr>s_clients := cs\<rparr>) = run_part s"
  by (simp_all add: run_part_def with_cfg_def apply_rules_def close_session_def set_notifier_def Let_def
      split: prod.split)

lemma run_part_restore [simp]: "run_part (restoreCfg old clients rules wl bl s) = run_part s"
  by (simp add: restoreCfg_def)

lemma run_part_save: "save_cfg env s = (s', e) \<Longrightarrow> run_part s' = run_part s"
  by (auto simp: save_cfg_def run_part_def Let_def split: prod.splits)

lemma run_part_push [simp]: "run_part (pushRulesTo env c s) = run_part s"
  by (simp add: pushRulesTo_def run_part_def Let_def split: option.split prod.split)

lemma run_part_foldl: "(\<And>s x. run_part (f s x) = run_part s) \<Longrightarrow> run_part (foldl f s xs) = run_part s"
  by (induction xs arbitrary: s) simp_all

lemma run_part_broadcast [simp]: "run_part (broadcastRules env s) = run_part s"
  unfolding broadcastRules_def by (rule run_part_foldl) simp

lemma run_part_kick [simp]: "run_part (kick_unlisted s) = run_part s"
  unfolding kick_unlisted_def by (rule run_part_foldl) (simp split: prod.split)

lemma srv_step_run_part: "srv_step s s' \<Longrightarrow> run_part s' = run_part s"
proof (induction rule: srv_step.induct)
  case (add env r s s' e)
  then show ?case by (auto simp: AddRule_def Let_def dest!: run_part_save split: option.splits prod.splits)
next
  case (update env rid nr s s' e)
  then show ?case by (auto simp: UpdateRule_def Let_def dest!: run_part_save split: option.splits prod.splits)
next
  case (delete env rid s s' e)
  then show ?case by (auto simp: DeleteRule_def Let_def dest!: run_part_save split: option.splits prod.splits)
next
  case (enable env rid on s s' e)
  then show ?case by (auto simp: SetRuleEnabled_def Let_def dest!: run_part_save split: option.splits prod.splits)
next
  case (add_client env nm nt s s' e)
  then show ?case by (auto simp: AddClient_def Let_def dest!: run_part_save split: if_splits)
next
  case (delete_client env name s s' e)
  then show ?case by (auto simp: DeleteClient_def Let_def dest!: run_part_save split: if_splits option.splits prod.splits)
next
  case (whitelist env entries s s' e)
  then show ?case by (auto simp: SetIPWhitelist_def Let_def dest!: run_part_save split: option.splits prod.splits sum.splits)
next
  case (blacklist env entries s s' e)
  then show ?case by (auto simp: SetIPBlacklist_def Let_def dest!: run_part_save split: option.splits prod.splits sum.splits)
next
  case (password env pw s s' e)
  then show ?case by (auto simp: SetPassword_def Let_def dest!: run_part_save split: if_splits option.splits prod.splits)
next
  case (notify env url format s s' e)
  then show ?case by (auto simp: SetNotify_def Let_def dest!: run_part_save split: if_splits option.splits prod.splits)
next
  case (import env inc s s' e)
  then show ?case
    by (auto simp: ImportConfig_def Let_def dest!: run_part_save split: option.splits prod.splits sum.splits)
qed

section \<open>State and steps\<close>

record run_state =
  rn_srv :: server
  rn_ctx :: bool
  rn_ln :: bool
  rn_returned :: bool
  rn_sampler :: bool
  rn_prober :: bool
  rn_acceptor :: bool
  rn_conns :: nat

text \<open>After \<open>Run_start\<close> has succeeded: the tunnel port is open and the goroutines have started; the
  prober probes once before it waits for its ticker.\<close>

definition Run_loops :: "server \<Rightarrow> run_state" where
  "Run_loops s = \<lparr>rn_srv = s, rn_ctx = False, rn_ln = True, rn_returned = False, rn_sampler = True,
                  rn_prober = True, rn_acceptor = True, rn_conns = 0\<rparr>"

text \<open>A turn of the sampler and of \<open>probeLoop\<close>: their \<open>select\<close> gives the closed context (\<open>None\<close>) or a tick.\<close>

definition sample_turn :: "int option \<Rightarrow> run_state \<Rightarrow> run_state" where
  "sample_turn tick n =
     (case tick of
        None \<Rightarrow> n\<lparr>rn_sampler := False\<rparr>
      | Some t \<Rightarrow> n\<lparr>rn_srv := sampleHistory t (rn_srv n)\<rparr>)"

definition probe_turn :: "(server \<Rightarrow> server) option \<Rightarrow> run_state \<Rightarrow> run_state" where
  "probe_turn tick n =
     (case tick of
        None \<Rightarrow> n\<lparr>rn_prober := False\<rparr>
      | Some probes \<Rightarrow> n\<lparr>rn_srv := probes (rn_srv n)\<rparr>)"

text \<open>The outcome of \<open>Accept\<close>: a connection goes to \<open>handleTunnel\<close>; after an error the loop ends when the
  server is stopping and waits a second otherwise.\<close>

definition accept_tunnel :: "bool \<Rightarrow> run_state \<Rightarrow> run_state" where
  "accept_tunnel ok n =
     (if ok then n\<lparr>rn_conns := rn_conns n + 1\<rparr>
      else if s_stopping (rn_srv n) then n\<lparr>rn_acceptor := False\<rparr> else n)"

text \<open>Steps the server takes on its own once the context is cancelled: \<open>Accept\<close> on the closed listener is
  an error.\<close>

inductive stop_step :: "run_state \<Rightarrow> run_state \<Rightarrow> bool" where
  stop: "rn_ctx n \<Longrightarrow> \<not> s_stopping (rn_srv n) \<Longrightarrow> stop_step n (n\<lparr>rn_srv := fst (Run_stop (rn_srv n))\<rparr>)"
| close: "s_stopping (rn_srv n) \<Longrightarrow> \<not> rn_returned n \<Longrightarrow> stop_step n (n\<lparr>rn_ln := False, rn_returned := True\<rparr>)"
| sampler: "rn_sampler n \<Longrightarrow> rn_ctx n \<Longrightarrow> stop_step n (sample_turn None n)"
| prober: "rn_prober n \<Longrightarrow> rn_ctx n \<Longrightarrow> stop_step n (probe_turn None n)"
| acceptor: "rn_acceptor n \<Longrightarrow> \<not> rn_ln n \<Longrightarrow> s_stopping (rn_srv n) \<Longrightarrow> stop_step n (accept_tunnel False n)"

text \<open>The steps timers, clients and the panel make it take. Of a probe only its diallers matter here.\<close>

inductive event_step :: "run_state \<Rightarrow> run_state \<Rightarrow> bool" where
  sample: "rn_sampler n \<Longrightarrow> event_step n (sample_turn (Some t) n)"
| probe: "rn_prober n \<Longrightarrow>
     event_step n (probe_turn (Some (probeAll now finish
       (probeRule (os :: nat \<Rightarrow> string + nat) wr etxt (dial :: nat \<Rightarrow> string \<Rightarrow> string + nat)))) n)"
| accept: "rn_acceptor n \<Longrightarrow> (ok \<Longrightarrow> rn_ln n) \<Longrightarrow> event_step n (accept_tunnel ok n)"
| panel: "srv_step (rn_srv n) s' \<Longrightarrow> event_step n (n\<lparr>rn_srv := s'\<rparr>)"
| cancel: "event_step n (n\<lparr>rn_ctx := True\<rparr>)"

inductive run_reach :: "server \<Rightarrow> run_state \<Rightarrow> bool" for s where
  start: "run_reach s (Run_loops s)"
| own: "run_reach s n \<Longrightarrow> stop_step n n' \<Longrightarrow> run_reach s n'"
| event: "run_reach s n \<Longrightarrow> event_step n n' \<Longrightarrow> run_reach s n'"

section \<open>Invariant\<close>

text \<open>No history is longer than a day.\<close>

definition hist_ok :: "server \<Rightarrow> bool" where
  "hist_ok s \<longleftrightarrow> (\<forall>k h. lookup (s_hist s) k = Some h \<longrightarrow> length h \<le> histMax)"

lemma length_hist_append: "length h \<le> histMax \<Longrightarrow> length (hist_append p h) \<le> histMax"
  by (auto simp: hist_append_def Let_def histMax_def)

lemma sample_one_ok:
  assumes "\<forall>k h. lookup hs k = Some h \<longrightarrow> length h \<le> histMax"
  shows "\<forall>k h. lookup (sample_one now x hs) k = Some h \<longrightarrow> length h \<le> histMax"
proof -
  obtain rid st where x: "x = (rid, st)" by (cases x)
  let ?pts = "case lookup hs rid of None \<Rightarrow> [] | Some pts \<Rightarrow> pts"
  have "length ?pts \<le> histMax" using assms by (simp split: option.split)
  with assms length_hist_append show ?thesis unfolding x by (simp add: sample_one_def Let_def)
qed

lemma sampleHistory_ok:
  assumes "hist_ok s"
  shows "hist_ok (sampleHistory t s)"
proof -
  have "\<forall>k h. lookup (foldl (\<lambda>h kst. sample_one (Unix t) kst h) hs xs) k = Some h \<longrightarrow> length h \<le> histMax"
    if "\<forall>k h. lookup hs k = Some h \<longrightarrow> length h \<le> histMax" for hs xs
    using that
  proof (induction xs arbitrary: hs)
    case Nil
    then show ?case by simp
  next
    case (Cons x xs)
    show ?case using Cons.IH [OF sample_one_ok [OF Cons.prems]] by simp
  qed
  with assms show ?thesis by (simp add: hist_ok_def sampleHistory_def)
qed

lemma hist_ok_cong: "run_part s' = run_part s \<Longrightarrow> hist_ok s' = hist_ok s"
  by (simp add: run_part_def hist_ok_def)

text \<open>A probe changes the round-robin counter and the health table only.\<close>

lemma probeRule_frame: "snd (probeRule os wr etxt dial r s) = s\<lparr>s_rr := s_rr (snd (probeRule os wr etxt dial r s))\<rparr>"
  by (simp add: probeRule_def split: sum.split prod.split dialled.split)

lemma probe_record_frame:
  "\<exists>rr h. probe_record now (probeRule os wr etxt dial) r s = s\<lparr>s_rr := rr, s_health := h\<rparr>"
proof -
  obtain ok err s1 where p: "probeRule os wr etxt dial r s = ((ok, err), s1)" by (metis prod.exhaust)
  have "s1 = s\<lparr>s_rr := s_rr s1\<rparr>" using probeRule_frame [of os wr etxt dial r s] p by simp
  then obtain rr where "s1 = s\<lparr>s_rr := rr\<rparr>" by blast
  with p show ?thesis by (simp add: probe_record_def Let_def) blast
qed

lemma probeAll_frame:
  "\<exists>rr h. probeAll now finish (probeRule os wr etxt dial) s = s\<lparr>s_rr := rr, s_health := h\<rparr>"
proof -
  have "\<exists>rr h. foldl (\<lambda>s r. probe_record now (probeRule os wr etxt dial) r s) s rs = s\<lparr>s_rr := rr, s_health := h\<rparr>" for rs
  proof (induction rs arbitrary: s)
    case Nil
    show ?case by (rule exI [of _ "s_rr s"], rule exI [of _ "s_health s"]) simp
  next
    case (Cons r rs)
    obtain rr h where p: "probe_record now (probeRule os wr etxt dial) r s = s\<lparr>s_rr := rr, s_health := h\<rparr>"
      using probe_record_frame by blast
    from Cons.IH [of "s\<lparr>s_rr := rr, s_health := h\<rparr>"] p show ?case by auto
  qed
  then show ?thesis by (simp add: probeAll_def)
qed

definition run_ok :: "run_state \<Rightarrow> bool" where
  "run_ok n \<longleftrightarrow> server_inv (rn_srv n) \<and> hist_ok (rn_srv n)
     \<and> (rn_ln n \<longleftrightarrow> \<not> rn_returned n) \<and> (rn_returned n \<longrightarrow> s_stopping (rn_srv n))
     \<and> (s_stopping (rn_srv n) \<longrightarrow> rn_ctx n)
     \<and> (\<not> rn_sampler n \<or> \<not> rn_prober n \<longrightarrow> rn_ctx n) \<and> (\<not> rn_acceptor n \<longrightarrow> s_stopping (rn_srv n))"

lemma server_inv_cong:
  assumes "s_cfg s' = s_cfg s" and "s_runners s' = s_runners s" and "s_notifier s' = s_notifier s"
  shows "server_inv s' = server_inv s"
  using assms by (simp add: server_inv_def runners_inv_def notif_inv_def)

lemma run_ok_start: "server_inv s \<Longrightarrow> hist_ok s \<Longrightarrow> \<not> s_stopping s \<Longrightarrow> run_ok (Run_loops s)"
  by (simp add: run_ok_def Run_loops_def)

lemma Run_stop_srv:
  "server_inv (fst (Run_stop s)) = server_inv s" "hist_ok (fst (Run_stop s)) = hist_ok s" "s_stopping (fst (Run_stop s))"
  unfolding Run_stop_eq fst_conv by (rule server_inv_cong) (simp_all add: hist_ok_def)

lemma run_ok_stop: "stop_step n n' \<Longrightarrow> run_ok n \<Longrightarrow> run_ok n'"
  by (induction rule: stop_step.induct) (auto simp: run_ok_def accept_tunnel_def sample_turn_def probe_turn_def Run_stop_srv)

lemma run_ok_event: "event_step n n' \<Longrightarrow> run_ok n \<Longrightarrow> run_ok n'"
proof (induction rule: event_step.induct)
  case (sample n t)
  have "server_inv (sampleHistory t (rn_srv n)) = server_inv (rn_srv n)"
    by (rule server_inv_cong) (simp_all add: sampleHistory_def)
  moreover have "s_stopping (sampleHistory t (rn_srv n)) = s_stopping (rn_srv n)" by (simp add: sampleHistory_def)
  ultimately show ?case using sample sampleHistory_ok by (simp add: run_ok_def sample_turn_def)
next
  case (probe n now finish os wr etxt dial)
  obtain rr h where p: "probeAll now finish (probeRule os wr etxt dial) (rn_srv n) = (rn_srv n)\<lparr>s_rr := rr, s_health := h\<rparr>"
    using probeAll_frame by blast
  have "server_inv ((rn_srv n)\<lparr>s_rr := rr, s_health := h\<rparr>) = server_inv (rn_srv n)"
    by (rule server_inv_cong) simp_all
  with probe show ?case by (simp add: probe_turn_def p run_ok_def hist_ok_def)
next
  case (accept n ok)
  then show ?case by (auto simp: run_ok_def accept_tunnel_def)
next
  case (panel n s')
  have f: "run_part s' = run_part (rn_srv n)" using panel(1) by (rule srv_step_run_part)
  then have "s_stopping s' = s_stopping (rn_srv n)" by (simp add: run_part_def)
  with panel hist_ok_cong [OF f] srv_step_inv [OF panel(1)] show ?case by (simp add: run_ok_def)
next
  case (cancel n)
  then show ?case by (simp add: run_ok_def)
qed

lemma run_reach_ok:
  assumes "run_reach s n" and "server_inv s" and "hist_ok s" and "\<not> s_stopping s"
  shows "run_ok n"
  using assms(1)
  by (induction rule: run_reach.induct) (use assms(2-4) in \<open>auto intro: run_ok_start run_ok_stop run_ok_event\<close>)

section \<open>Shutdown\<close>

definition run_work :: "run_state \<Rightarrow> nat" where
  "run_work n = of_bool (\<not> s_stopping (rn_srv n)) + of_bool (\<not> rn_returned n) + of_bool (rn_sampler n)
     + of_bool (rn_prober n) + of_bool (rn_acceptor n)"

lemma stop_step_work: "stop_step n n' \<Longrightarrow> run_work n' < run_work n"
  by (induction rule: stop_step.induct) (auto simp: run_work_def accept_tunnel_def sample_turn_def probe_turn_def Run_stop_srv)

definition run_over :: "run_state \<Rightarrow> bool" where
  "run_over n \<longleftrightarrow> rn_returned n \<and> s_stopping (rn_srv n) \<and> \<not> rn_ln n \<and> \<not> rn_sampler n \<and> \<not> rn_prober n
     \<and> \<not> rn_acceptor n"

lemma stop_step_ctx: "stop_step n n' \<Longrightarrow> rn_ctx n' = rn_ctx n"
  by (induction rule: stop_step.induct) (simp_all add: accept_tunnel_def sample_turn_def probe_turn_def)

lemma stuck_run_over:
  assumes "run_ok n" and "rn_ctx n" and stuck: "\<nexists>n'. stop_step n n'"
  shows "run_over n"
proof -
  have st: "s_stopping (rn_srv n)" using stuck stop_step.stop [OF assms(2)] by blast
  then have r: "rn_returned n" using stuck stop_step.close by blast
  with assms(1) have ln: "\<not> rn_ln n" by (simp add: run_ok_def)
  have "\<not> rn_sampler n" "\<not> rn_prober n" "\<not> rn_acceptor n"
    using stuck stop_step.sampler stop_step.prober stop_step.acceptor assms(2) st ln by blast+
  with st r ln show ?thesis by (simp add: run_over_def)
qed

lemma run_work_bound: "run_work n \<le> 5"
  by (simp add: run_work_def)

interpretation shutdown: winding stop_step run_work "\<lambda>n. run_ok n \<and> rn_ctx n" run_over
  by unfold_locales (auto intro: stop_step_work run_ok_stop stuck_run_over dest: stop_step_ctx)

text \<open>A cancelled server is done after at most five steps of its own, in whatever order, and has ended
  its goroutines and closed the tunnel port.\<close>

lemmas server_winds_down = shutdown.winds_down [OF conjI [OF run_reach_ok] run_work_bound]

end
