(* ===== verification/EndToEndProperties.thy ===== *)
theory EndToEndProperties
  imports EndToEnd Session UdpServe ServerRun ClientProperties TrafficProperties
begin

text \<open>
  The properties of server and client together, and of the goroutines that make up a session and a
  running server.
\<close>

section \<open>Connections\<close>

text \<open>C4: A connection that goes through the tunnel reaches the target it would reach if the rule
  forwarded directly from the client's network: the client dials the same backend, in the same
  order of failover, and sends it the same PROXY header before the visitor's bytes.\<close>

theorem tunnel_like_direct:
  assumes "tcp_backend net r v rr s = (Tunnelled st hdr, rr')" and "json_ok enc dec hdr"
    and "WriteJSONFrame enc hdr = Inr frame" and "ID r \<noteq> ControlID"
    and "resolve (vc_remote v) = Some (vc_src v)" and "resolve (vc_local v) = Some (vc_dst v)"
  shows "handleStream dec resolve dial (frame @ data) crr =
     (let (res, crr') = tcp_backend (direct_net dial net) (as_direct r) v crr s in (as_use r res, crr'))"
  by (rule tunnelled_as_direct [OF assms])

definition demo_tcp_visitor :: visitor where
  "demo_tcp_visitor = \<lparr>vc_remote = ''10.0.0.8:80'', vc_local = ''10.0.0.9:8080'',
     vc_src = \<lparr>tcp_addr.IP = [10, 0, 0, 8], Port = 80\<rparr>, vc_dst = \<lparr>tcp_addr.IP = [10, 0, 0, 9], Port = 8080\<rparr>\<rparr>"

definition demo_proxy_rule :: rule where
  "demo_proxy_rule = demo_rule\<lparr>ProxyProto := 1\<rparr>"

definition demo_resolve :: "string \<Rightarrow> tcp_addr option" where
  "demo_resolve a = (if a = ''10.0.0.8:80'' then Some (vc_src demo_tcp_visitor)
                     else if a = ''10.0.0.9:8080'' then Some (vc_dst demo_tcp_visitor) else None)"

definition demo_enc :: "stream_header \<Rightarrow> bytes option" where
  "demo_enc h = Some [0x7B]"

theorem tunnel_like_direct_witness:
  "handleStream (\<lambda>b. Some (tunnel_header demo_proxy_rule demo_tcp_visitor)) demo_resolve (\<lambda>i t. Inr 9)
     ((put_u16 1 @ [0x7B]) @ [1, 2]) 0
   = (let (res, crr') = tcp_backend (direct_net (\<lambda>i t. Inr 9) demo_net) (as_direct demo_proxy_rule) demo_tcp_visitor 0 demo_server
      in (as_use demo_proxy_rule res, crr'))"
proof (rule tunnel_like_direct)
  let ?h = "tunnel_header demo_proxy_rule demo_tcp_visitor"
  show "tcp_backend demo_net demo_proxy_rule demo_tcp_visitor 0 demo_server = (Tunnelled 5 ?h, 0)"
    by (simp add: tcp_backend_def openStreamTo_def demo_net_def demo_server_def demo_conn_def demo_proxy_rule_def
        demo_rule_def)
  show "json_ok demo_enc (\<lambda>b. Some ?h) ?h" by (simp add: json_ok_def demo_enc_def maxFrame_def)
  show "WriteJSONFrame demo_enc ?h = Inr (put_u16 1 @ [0x7B])"
    by (simp add: WriteJSONFrame_def demo_enc_def maxFrame_def)
  show "ID demo_proxy_rule \<noteq> ControlID" by (simp add: demo_proxy_rule_def demo_rule_def ControlID_def)
qed (simp_all add: demo_resolve_def demo_tcp_visitor_def)



section \<open>UDP through the tunnel\<close>





text \<open>C32: The server and the client handle a packet of a UDP stream alike: the same socket, the same write,
  the same map of connection ids and the same turn in the targets; the server counts besides.\<close>

theorem far_ends_agree:
  fixes t :: counted_backends
  assumes "server_backend_packet dial wr target pkt t = (t', sent)"
  shows "client_backend_packet dial wr target pkt (backends.truncate t) = (backends.truncate t', sent)
     \<and> backend_end i b (backends.truncate t) = backends.truncate (server_backend_end i b t)"
  using far_packet_agrees [OF assms] far_end_agrees by blast

theorem far_ends_agree_witness:
  "\<exists>t' sent. server_backend_packet (\<lambda>i a. Inr 9) (\<lambda>c. True) ''a:1,b:2'' late_packet (server_backends_start 0) = (t', sent)
     \<and> client_backend_packet (\<lambda>i a. Inr 9) (\<lambda>c. True) ''a:1,b:2'' late_packet backends_init = (backends.truncate t', sent)"
proof -
  obtain t' sent where s: "server_backend_packet (\<lambda>i a. Inr 9) (\<lambda>c. True) ''a:1,b:2'' late_packet (server_backends_start 0) = (t', sent)"
    by fastforce
  have "backends.truncate (server_backends_start 0) = backends_init"
    by (simp add: server_backends_start_def backends_init_def backends.defs)
  with far_ends_agree [OF s] s show ?thesis by auto
qed

text \<open>C31: Whatever bytes arrive, a packet the UDP reader accepts is one the writer can send, and writing it
  gives back exactly the bytes that were read.\<close>

theorem read_packets_wellformed:
  assumes "ReadUDPPacket bs = Inr (p, rest)"
  shows "udp_ok p \<and> (\<exists>b. WriteUDPPacket p = Inr b \<and> bs = b @ rest)"
  by (rule WriteUDP_ReadUDP [OF assms])

theorem read_packets_wellformed_witness:
  "udp_ok late_packet \<and> (\<exists>b. WriteUDPPacket late_packet = Inr b \<and> late_bytes @ [3] = b @ [3])"
  by (rule read_packets_wellformed [OF late_read])

section \<open>SOCKS5\<close>

text \<open>C38: A well-formed SOCKS5 request for a plain host and a port is answered with success once the stream
  is open; the server dials that host and port and nothing else, with no header in front, and the bytes
  that follow the request are what is relayed.\<close>

theorem socks_connects_to_asked:
  assumes target: "target = JoinHostPort (dest_host dest) (show_nat port)"
    and "dest_ok dest" and "port < 65536" and "0 \<in> set methods" and "length methods < 256"
    and "plain_host (dest_host dest)" and "openSocks (Some se) target = Inr st"
    and "json_ok enc dec (socks_header target)" and "WriteJSONFrame enc (socks_header target) = Inr frame"
  shows "handleSocks True (Some se) (connect_bytes methods dest port @ rest) = ([5, 0] @ socksReply 0, SocksRelay st target rest)
     \<and> SplitHostPort target = Some (dest_host dest, show_nat port)
     \<and> snd (handleReverseStream dec resolve dial (frame @ data) s)
         = (case dial 0 target of Inr c \<Rightarrow> Piped c [] | Inl e \<Rightarrow> NoBackendFor target)"
proof -
  have b: "CHR ''['' \<notin> set (dest_host dest)" "CHR '']'' \<notin> set (dest_host dest)"
    using assms(6) by (auto simp: plain_host_def list_all_iff)
  from handleSocks_connect [OF assms(2-5) assms(7) [unfolded target]] socks_target_splits [OF b]
    socks_header_arrives [OF assms(8,9) [unfolded target] socks_target_single [OF assms(6)]]
  show ?thesis unfolding target by simp
qed

theorem socks_connects_to_asked_witness:
  "handleSocks True (Some demo_session) (connect_bytes [0] (DestName ''a.b'') 80 @ [9])
     = ([5, 0] @ socksReply 0, SocksRelay 5 (JoinHostPort ''a.b'' (show_nat 80)) [9])
   \<and> snd (handleReverseStream (\<lambda>b. Some (socks_header (JoinHostPort ''a.b'' (show_nat 80)))) demo_resolve (\<lambda>i t. Inr 7)
       ((put_u16 1 @ [0x7B]) @ [9]) demo_server) = Piped 7 []"
proof -
  let ?t = "JoinHostPort (dest_host (DestName ''a.b'')) (show_nat 80)"
  have o: "openSocks (Some demo_session) ?t = Inr 5"
    by (simp add: openSocks_def openReverseHDR_def demo_session_def)
  have e: "json_ok demo_enc (\<lambda>b. Some (socks_header ?t)) (socks_header ?t)"
    "WriteJSONFrame demo_enc (socks_header ?t) = Inr (put_u16 1 @ [0x7B])"
    by (simp_all add: json_ok_def demo_enc_def maxFrame_def WriteJSONFrame_def)
  have "plain_host (dest_host (DestName ''a.b''))" by (simp add: plain_host_def printable_def)
  from socks_connects_to_asked [OF refl _ _ _ _ this o e, of "[0]" "[9]" demo_resolve "\<lambda>i t. Inr 7" "[9]" demo_server]
  show ?thesis by simp
qed

section \<open>Goroutines\<close>

text \<open>C24: Once its context is cancelled or its connection is broken, a session of the client is over after
  at most five steps of its own goroutines in any order, and then \<open>serveOnce\<close> has returned, the SOCKS5
  port is free, the connection is closed, and the goroutines that watch the context and the SOCKS5
  listener are gone.\<close>

theorem session_ends_clean:
  assumes "session_reach cfg c" and "cs_ctx c \<or> \<not> cs_sess c"
  shows "(\<forall>n d. (own_step ^^ n) c d \<longrightarrow> n \<le> 5)
     \<and> (\<exists>d. own_step\<^sup>*\<^sup>* c d \<and> (\<nexists>e. own_step d e))
     \<and> (\<forall>d. own_step\<^sup>*\<^sup>* c d \<and> (\<nexists>e. own_step d e) \<longrightarrow> wound_down d)"
  by (rule session_winds_down [OF assms(1) _ assms(1)]) (use assms(2) in \<open>simp add: ending_def\<close>)

definition demo_client_cfg :: client_config where
  "demo_client_cfg = \<lparr>ServerAddr = ''h:7000'', cc_Token = ''t1'', cc_NoTLS = True, TLSFingerprint = [],
     cc_LogFile = [], Socks5Listen = ''1080''\<rparr>"

theorem session_ends_clean_witness:
  "\<exists>c d. cs_socks c = SocksServing ''0.0.0.0:1080'' \<and> cs_listener c \<and> own_step\<^sup>*\<^sup>* (c\<lparr>cs_ctx := True\<rparr>) d \<and> wound_down d"
proof -
  let ?s = "serve_session False demo_client_cfg"
  let ?c = "?s\<lparr>cs_socks := SocksServing ''0.0.0.0:1080'', cs_listener := True, cs_closer := True\<rparr>"
  have "cs_socks ?s = SocksPending ''0.0.0.0:1080''"
    by (simp add: serve_session_def socks_start_def socks_addr_def demo_client_cfg_def)
  from session_reach.own [OF session_reach.start own_step.socks [OF socks_step.listen [OF this]]]
  have "session_reach demo_client_cfg ?c" .
  from session_reach.peer [OF this peer_step.cancel]
  have r: "session_reach demo_client_cfg (?c\<lparr>cs_ctx := True\<rparr>)" .
  have "cs_ctx (?c\<lparr>cs_ctx := True\<rparr>) \<or> \<not> cs_sess (?c\<lparr>cs_ctx := True\<rparr>)" by simp
  from session_ends_clean [OF r this] obtain d where "own_step\<^sup>*\<^sup>* (?c\<lparr>cs_ctx := True\<rparr>) d" "wound_down d" by blast
  then show ?thesis by (intro exI [of _ ?c] exI [of _ d]) simp
qed



end
